(* ===== verification/Prelude.thy ===== *)
theory Prelude
  imports Main "HOL-Library.Word" "HOL-Library.AList"
begin

text \<open>
  The prelude of the minikv development: the machine types of the Rust code, its
  \<open>Result\<close> type as a sum, the fragments of the Rust standard library the sources
  use (\<open>to_le_bytes\<close>, \<open>read_exact\<close>, \<open>String::from_utf8\<close>, decimal formatting
  and parsing, saturating arithmetic) and the lemmas on them that the component
  theories share. Fixed-width encodings are stated once as the locale
  \<open>le_codec\<close> and interpreted for the widths the file formats use; a log of
  self-delimiting records is the locale \<open>record_log\<close>, which the write-ahead log,
  the index snapshot and the blob segments interpret.
\<close>

named_theorems codec_simps \<open>how readers consume what writers produced\<close>
named_theorems res_simps \<open>case analysis of results\<close>

section \<open>Machine types\<close>

type_synonym byte = "8 word"
type_synonym bytes = "8 word list"
type_synonym u32 = "32 word"
type_synonym u64 = "64 word"

definition saturating_add :: "'a::len word \<Rightarrow> 'a word \<Rightarrow> 'a word" where
  "saturating_add a b = (if unat a + unat b < 2 ^ LENGTH('a) then a + b else - 1)"

definition saturating_sub :: "'a::len word \<Rightarrow> 'a word \<Rightarrow> 'a word" where
  "saturating_sub a b = (if b \<le> a then a - b else 0)"

section \<open>Results\<close>

text \<open>\<open>Result<T, E>\<close> is \<open>'e + 'a\<close>; \<open>rbind\<close> is the \<open>?\<close> operator.\<close>

fun rbind :: "'e + 'a \<Rightarrow> ('a \<Rightarrow> 'e + 'b) \<Rightarrow> 'e + 'b" where
  "rbind (Inl e) f = Inl e"
| "rbind (Inr x) f = f x"

fun is_ok :: "'e + 'a \<Rightarrow> bool" where
  "is_ok (Inl e) = False"
| "is_ok (Inr x) = True"

fun map_err :: "('e \<Rightarrow> 'd) \<Rightarrow> 'e + 'a \<Rightarrow> 'd + 'a" where
  "map_err f (Inl e) = Inl (f e)"
| "map_err f (Inr x) = Inr x"

section \<open>Little-endian integers\<close>

fun le_of_nat :: "nat \<Rightarrow> nat \<Rightarrow> bytes" where
  "le_of_nat 0 x = []"
| "le_of_nat (Suc n) x = word_of_nat (x mod 256) # le_of_nat n (x div 256)"

fun nat_of_le :: "bytes \<Rightarrow> nat" where
  "nat_of_le [] = 0"
| "nat_of_le (b # bs) = unat b + 256 * nat_of_le bs"

definition u32_to_le :: "u32 \<Rightarrow> bytes" where
  "u32_to_le w = le_of_nat 4 (unat w)"

definition u32_from_le :: "bytes \<Rightarrow> u32" where
  "u32_from_le bs = word_of_nat (nat_of_le bs)"

definition u64_to_le :: "u64 \<Rightarrow> bytes" where
  "u64_to_le w = le_of_nat 8 (unat w)"

definition u64_from_le :: "bytes \<Rightarrow> u64" where
  "u64_from_le bs = word_of_nat (nat_of_le bs)"

section \<open>Readers\<close>

text \<open>
  A reader is the list of the bytes not yet consumed. \<open>read_exact\<close> fails with
  \<open>UnexpectedEof\<close> when fewer bytes are left than asked for.
\<close>

datatype io_error = UnexpectedEof | IoNotFound | InvalidInput | OtherIo string

definition read_exact :: "nat \<Rightarrow> bytes \<Rightarrow> io_error + bytes \<times> bytes" where
  "read_exact n r = (if length r < n then Inl UnexpectedEof else Inr (take n r, drop n r))"

text \<open>
  A loop that reads records until one cannot be read. Reading a record must consume
  bytes, which the readers of this development do (\<open>rd_progress\<close> below).
\<close>

function read_all :: "(bytes \<Rightarrow> ('e \<times> bytes) option) \<Rightarrow> bytes \<Rightarrow> 'e list" where
  "read_all rd r =
     (case rd r of
        None \<Rightarrow> []
      | Some (e, r') \<Rightarrow> if length r' < length r then e # read_all rd r' else [])"
  by pat_completeness auto
termination
  by (relation "measure (\<lambda>(rd, r). length r)") auto

declare read_all.simps [simp del]

section \<open>Hash maps\<close>

text \<open>
  A \<open>HashMap\<close> is an association list without duplicate keys. Its iteration order is
  unspecified in Rust: statements about loops over a map hold for every list with these
  entries, and statements about lookups go through \<^const>\<open>map_of\<close>.
\<close>

type_synonym ('k, 'v) hashmap = "('k \<times> 'v) list"

definition hm_ok :: "('k, 'v) hashmap \<Rightarrow> bool" where
  "hm_ok m \<longleftrightarrow> distinct (map fst m)"

abbreviation hm_get :: "('k, 'v) hashmap \<Rightarrow> 'k \<Rightarrow> 'v option" where
  "hm_get m k \<equiv> map_of m k"

abbreviation hm_insert :: "'k \<Rightarrow> 'v \<Rightarrow> ('k, 'v) hashmap \<Rightarrow> ('k, 'v) hashmap" where
  "hm_insert k v m \<equiv> AList.update k v m"

abbreviation hm_remove :: "'k \<Rightarrow> ('k, 'v) hashmap \<Rightarrow> ('k, 'v) hashmap" where
  "hm_remove k m \<equiv> AList.delete k m"

section \<open>Strings\<close>

text \<open>
  A Rust \<open>String\<close> is a sequence of bytes that is well-formed UTF-8. A \<open>char\<close>
  of HOL is one byte, so a string is its UTF-8 encoding.
\<close>

definition as_bytes :: "string \<Rightarrow> bytes" where
  "as_bytes s = map (\<lambda>c. word_of_nat (of_char c)) s"

definition of_bytes :: "bytes \<Rightarrow> string" where
  "of_bytes bs = map (\<lambda>b. char_of (unat b)) bs"

definition utf8_cont :: "byte \<Rightarrow> bool" where
  "utf8_cont b \<longleftrightarrow> 0x80 \<le> b \<and> b \<le> 0xBF"

definition utf8_second :: "byte \<Rightarrow> byte \<Rightarrow> bool" where
  "utf8_second a b \<longleftrightarrow>
     (if a = 0xE0 then 0xA0 \<le> b \<and> b \<le> 0xBF
      else if a = 0xED then 0x80 \<le> b \<and> b \<le> 0x9F
      else if a = 0xF0 then 0x90 \<le> b \<and> b \<le> 0xBF
      else if a = 0xF4 then 0x80 \<le> b \<and> b \<le> 0x8F
      else utf8_cont b)"

text \<open>
  Well-formed UTF-8 byte sequences (Unicode standard, table 3-7): how many bytes after
  \<open>a\<close> belong to the sequence that \<open>a\<close> starts, and whether it is well formed. Of an
  ill-formed sequence it is the maximal part that could have been continued.
\<close>

definition utf8_step :: "byte \<Rightarrow> bytes \<Rightarrow> nat \<times> bool" where
  "utf8_step a r =
     (if a \<le> 0x7F then (0, True)
      else if 0xC2 \<le> a \<and> a \<le> 0xDF then
        (case r of b # _ \<Rightarrow> if utf8_cont b then (1, True) else (0, False) | [] \<Rightarrow> (0, False))
      else if 0xE0 \<le> a \<and> a \<le> 0xEF then
        (case r of
           b # r' \<Rightarrow>
             if \<not> utf8_second a b then (0, False)
             else (case r' of c # _ \<Rightarrow> if utf8_cont c then (2, True) else (1, False) | [] \<Rightarrow> (1, False))
         | [] \<Rightarrow> (0, False))
      else if 0xF0 \<le> a \<and> a \<le> 0xF4 then
        (case r of
           b # r' \<Rightarrow>
             if \<not> utf8_second a b then (0, False)
             else (case r' of
                     c # r'' \<Rightarrow>
                       if \<not> utf8_cont c then (1, False)
                       else (case r'' of d # _ \<Rightarrow> if utf8_cont d then (3, True) else (2, False)
                             | [] \<Rightarrow> (2, False))
                   | [] \<Rightarrow> (1, False))
         | [] \<Rightarrow> (0, False))
      else (0, False))"

function utf8_valid :: "bytes \<Rightarrow> bool" where
  "utf8_valid [] = True"
| "utf8_valid (a # r) = (case utf8_step a r of (n, ok) \<Rightarrow> ok \<and> utf8_valid (drop n r))"
  by pat_completeness auto
termination
  by (relation "measure length") auto

text \<open>\<open>String::from_utf8_lossy\<close>: every ill-formed part becomes U+FFFD.\<close>

function utf8_lossy :: "bytes \<Rightarrow> bytes" where
  "utf8_lossy [] = []"
| "utf8_lossy (a # r) =
     (case utf8_step a r of
        (n, ok) \<Rightarrow> (if ok then a # take n r else [0xEF, 0xBF, 0xBD]) @ utf8_lossy (drop n r))"
  by pat_completeness auto
termination
  by (relation "measure length") auto

definition rust_string :: "string \<Rightarrow> bool" where
  "rust_string s \<longleftrightarrow> utf8_valid (as_bytes s)"

definition from_utf8 :: "bytes \<Rightarrow> string option" where
  "from_utf8 bs = (if utf8_valid bs then Some (of_bytes bs) else None)"

section \<open>Decimal formatting and parsing\<close>

definition digit_char :: "nat \<Rightarrow> char" where
  "digit_char d = char_of (48 + d)"

fun show_nat :: "nat \<Rightarrow> string" where
  "show_nat n = (if n < 10 then [digit_char n] else show_nat (n div 10) @ [digit_char (n mod 10)])"

declare show_nat.simps [simp del]

text \<open>\<open>{:0w}\<close>: at least \<open>w\<close> digits, padded with zeros on the left.\<close>

definition pad0 :: "nat \<Rightarrow> string \<Rightarrow> string" where
  "pad0 w s = replicate (w - length s) CHR ''0'' @ s"

definition digit_val :: "char \<Rightarrow> nat option" where
  "digit_val c = (let v = of_char c :: nat in if 48 \<le> v \<and> v \<le> 57 then Some (v - 48) else None)"

fun parse_digits :: "nat \<Rightarrow> string \<Rightarrow> nat option" where
  "parse_digits acc [] = Some acc"
| "parse_digits acc (c # cs) =
     (case digit_val c of None \<Rightarrow> None | Some d \<Rightarrow> parse_digits (10 * acc + d) cs)"

text \<open>
  \<open>str::parse::<u64>\<close>: an optional plus sign, at least one digit, only digits, and a
  value that fits the type.
\<close>

definition parse_u64 :: "string \<Rightarrow> u64 option" where
  "parse_u64 s =
     (let ds = (case s of c # cs \<Rightarrow> if c = CHR ''+'' then cs else s | [] \<Rightarrow> [])
      in if ds = [] then None
         else (case parse_digits 0 ds of
                 None \<Rightarrow> None
               | Some n \<Rightarrow> if n < 2 ^ 64 then Some (word_of_nat n) else None))"

section \<open>Lemmas\<close>

subsection \<open>Results\<close>

lemma rbind_eq_Inr [res_simps]: "rbind m f = Inr y \<longleftrightarrow> (\<exists>x. m = Inr x \<and> f x = Inr y)"
  by (cases m) auto

lemma rbind_eq_Inl [res_simps]:
  "rbind m f = Inl e \<longleftrightarrow> m = Inl e \<or> (\<exists>x. m = Inr x \<and> f x = Inl e)"
  by (cases m) auto

lemma map_err_eq_Inr [simp]: "map_err f m = Inr x \<longleftrightarrow> m = Inr x"
  by (cases m) auto

lemma is_ok_iff: "is_ok m \<longleftrightarrow> (\<exists>x. m = Inr x)"
  by (cases m) auto

subsection \<open>Saturating arithmetic\<close>

lemma unat_saturating_add:
  "unat (saturating_add a (b :: 'a::len word)) = min (unat a + unat b) (2 ^ LENGTH('a) - 1)"
proof (cases "unat a + unat b < 2 ^ LENGTH('a)")
  case True
  then show ?thesis by (simp add: saturating_add_def unat_word_ariths)
next
  case False
  then show ?thesis by (simp add: saturating_add_def unsigned_minus_1_eq_mask mask_eq_exp_minus_1)
qed

lemma unat_saturating_sub: "unat (saturating_sub a b) = unat a - unat b"
  by (auto simp: saturating_sub_def unat_sub word_le_nat_alt)

lemma unat_plus_no_wrap:
  "unat a + unat b < 2 ^ LENGTH('a) \<Longrightarrow> unat (a + b) = unat a + unat (b :: 'a::len word)"
  by (simp add: unat_word_ariths)

lemma unat_word_of_nat [simp]: "n < 2 ^ LENGTH('a) \<Longrightarrow> unat (word_of_nat n :: 'a::len word) = n"
  by (simp add: unsigned_of_nat take_bit_nat_eq_self)

lemma unat_Suc_word:
  assumes "x \<noteq> (- 1 :: 'a::len word)"
  shows "unat (x + 1) = Suc (unat x)"
proof -
  have "unat x \<noteq> 2 ^ LENGTH('a) - 1"
    using assms by (metis mask_eq_exp_minus_1 unsigned_minus_1_eq_mask unsigned_word_eqI)
  moreover have "unat x < 2 ^ LENGTH('a)"
    by (rule unsigned_less)
  ultimately have "unat x + unat (1 :: 'a word) < 2 ^ LENGTH('a)"
    unfolding unat_1 by linarith
  then show ?thesis using unat_plus_no_wrap [of x 1] by simp
qed
subsection \<open>Little-endian integers\<close>

lemma length_le_of_nat [simp]: "length (le_of_nat n x) = n"
  by (induction n arbitrary: x) auto

lemma nat_of_le_of_nat: "nat_of_le (le_of_nat n x) = x mod 256 ^ n"
proof (induction n arbitrary: x)
  case 0
  then show ?case by simp
next
  case (Suc n)
  have "unat (word_of_nat (x mod 256) :: byte) = x mod 256"
    by (simp add: unat_of_nat)
  moreover have "x mod 256 + 256 * (x div 256 mod 256 ^ n) = x mod (256 * 256 ^ n)"
    by (simp add: mod_mult2_eq)
  ultimately show ?case by (simp add: Suc.IH)
qed

lemma u32_from_to_le [simp]: "u32_from_le (u32_to_le w) = w"
proof -
  have "unat w < 256 ^ 4" using unsigned_less [of w] by simp
  then show ?thesis by (simp add: u32_from_le_def u32_to_le_def nat_of_le_of_nat)
qed

lemma u64_from_to_le [simp]: "u64_from_le (u64_to_le w) = w"
proof -
  have "unat w < 256 ^ 8" using unsigned_less [of w] by simp
  then show ?thesis by (simp add: u64_from_le_def u64_to_le_def nat_of_le_of_nat)
qed

lemma length_u32_to_le [simp]: "length (u32_to_le w) = 4"
  by (simp add: u32_to_le_def)

lemma u32_to_le_nonempty [simp]: "u32_to_le w \<noteq> []"
  using length_u32_to_le [of w] by (metis list.size(3) zero_neq_numeral)

lemma length_u64_to_le [simp]: "length (u64_to_le w) = 8"
  by (simp add: u64_to_le_def)

subsection \<open>Readers\<close>

lemma read_exact_append [codec_simps]: "length xs = n \<Longrightarrow> read_exact n (xs @ r) = Inr (xs, r)"
  by (simp add: read_exact_def)

lemma read_exact_0 [simp]: "read_exact 0 r = Inr ([], r)"
  by (simp add: read_exact_def)

lemma read_exact_Inr:
  "read_exact n r = Inr (x, r') \<longleftrightarrow> r = x @ r' \<and> length x = n"
  by (auto simp: read_exact_def)

lemma read_exact_Inl: "read_exact n r = Inl e \<longleftrightarrow> length r < n \<and> e = UnexpectedEof"
  by (auto simp: read_exact_def)

text \<open>A fixed-width field: what every length and number of the file formats is.\<close>

locale le_codec =
  fixes enc :: "'a \<Rightarrow> bytes" and dec :: "bytes \<Rightarrow> 'a" and width :: nat
  assumes length_enc: "length (enc x) = width"
    and dec_enc: "dec (enc x) = x"
begin

lemma read_enc: "read_exact width (enc x @ r) = Inr (enc x, r)"
  by (simp add: read_exact_append length_enc)

lemma enc_inject: "enc x = enc y \<longleftrightarrow> x = y"
  by (metis dec_enc)

lemma enc_append_inject: "enc x @ r = enc y @ s \<longleftrightarrow> x = y \<and> r = s"
  by (simp add: append_eq_append_conv length_enc enc_inject)

end

interpretation u32_le: le_codec u32_to_le u32_from_le 4
  by unfold_locales simp_all

interpretation u64_le: le_codec u64_to_le u64_from_le 8
  by unfold_locales simp_all

lemmas codec_reads [codec_simps] = u32_le.read_enc u64_le.read_enc

subsection \<open>Logs of self-delimiting records\<close>

locale record_log =
  fixes enc :: "'e \<Rightarrow> bytes" and rd :: "bytes \<Rightarrow> ('e \<times> bytes) option" and ok :: "'e \<Rightarrow> bool"
  assumes rd_enc: "ok e \<Longrightarrow> rd (enc e @ r) = Some (e, r)"
    and rd_extend: "rd r = Some (e, r') \<Longrightarrow> rd (r @ q) = Some (e, r' @ q)"
    and rd_progress: "rd r = Some (e, r') \<Longrightarrow> length r' < length r"
begin

lemma read_all_Cons: "ok e \<Longrightarrow> read_all rd (enc e @ r) = e # read_all rd r"
  using rd_progress [OF rd_enc, of e r]
  by (subst read_all.simps) (simp add: rd_enc)

lemma read_all_stop: "rd r = None \<Longrightarrow> read_all rd r = []"
  by (subst read_all.simps) simp

lemma read_all_append:
  "list_all ok es \<Longrightarrow> read_all rd (concat (map enc es) @ r) = es @ read_all rd r"
  by (induction es) (auto simp: read_all_Cons)

lemma rd_nonempty: "rd [] = None"
  using rd_progress [of "[]"] by (cases "rd []") auto

lemma read_all_records: "list_all ok es \<Longrightarrow> read_all rd (concat (map enc es)) = es"
  using read_all_append [of es "[]"] by (simp add: read_all_stop rd_nonempty)

text \<open>A record of which the last bytes are missing is never read.\<close>

lemma rd_torn:
  assumes "ok e" and "enc e = p @ q" and "q \<noteq> []"
  shows "rd p = None"
proof (cases "rd p")
  case (Some a)
  obtain e' r' where a: "a = (e', r')" by fastforce
  then have "rd (enc e) = Some (e', r' @ q)"
    using rd_extend Some assms(2) by simp
  moreover have "rd (enc e) = Some (e, [])"
    using rd_enc [OF assms(1), of "[]"] by simp
  ultimately show ?thesis using assms(3) by simp
qed

lemma read_all_torn:
  assumes "list_all ok es" and "ok e" and "enc e = p @ q" and "q \<noteq> []"
  shows "read_all rd (concat (map enc es) @ p) = es"
  using assms by (simp add: read_all_append read_all_stop rd_torn)

text \<open>Every prefix of a log holds a prefix of its records.\<close>

lemma read_all_take:
  assumes "list_all ok es"
  shows "\<exists>k \<le> length es. read_all rd (take n (concat (map enc es))) = take k es \<and>
           (length (concat (map enc (take k es))) \<le> n) \<and>
           (n \<ge> length (concat (map enc es)) \<longrightarrow> k = length es)"
  using assms
proof (induction es arbitrary: n)
  case Nil
  then show ?case by (simp add: read_all_stop rd_nonempty)
next
  case (Cons e es)
  show ?case
  proof (cases "n < length (enc e)")
    case True
    have "rd (take n (enc e)) = None"
      using rd_torn [of e "take n (enc e)" "drop n (enc e)"] Cons.prems True by simp
    then have "read_all rd (take n (concat (map enc (e # es)))) = take 0 (e # es)"
      using True by (simp add: read_all_stop)
    then show ?thesis using True by (intro exI [of _ 0]) auto
  next
    case False
    let ?m = "n - length (enc e)"
    obtain k where k: "k \<le> length es" "read_all rd (take ?m (concat (map enc es))) = take k es"
      "length (concat (map enc (take k es))) \<le> ?m"
      "?m \<ge> length (concat (map enc es)) \<longrightarrow> k = length es"
      using Cons.IH [of ?m] Cons.prems by auto
    have "read_all rd (take n (concat (map enc (e # es)))) = take (Suc k) (e # es)"
      using False Cons.prems k(2) by (simp add: read_all_Cons)
    then show ?thesis using False k by (intro exI [of _ "Suc k"]) auto
  qed
qed

end

subsection \<open>Hash maps\<close>

lemma hm_get_insert [simp]: "hm_get (hm_insert k v m) = (hm_get m)(k \<mapsto> v)"
  by (rule update_conv')

lemma hm_get_remove [simp]: "hm_get (hm_remove k m) = (hm_get m)(k := None)"
  by (rule delete_conv')

lemma hm_ok_Nil [simp]: "hm_ok []"
  by (simp add: hm_ok_def)

lemma hm_ok_insert [simp]: "hm_ok m \<Longrightarrow> hm_ok (hm_insert k v m)"
  by (simp add: hm_ok_def distinct_update)

lemma hm_ok_remove [simp]: "hm_ok m \<Longrightarrow> hm_ok (hm_remove k m)"
  by (simp add: hm_ok_def distinct_delete)

lemma hm_ok_filter [simp]: "hm_ok m \<Longrightarrow> hm_ok (filter P m)"
  by (simp add: hm_ok_def distinct_map_filter)

lemma hm_get_filter:
  "hm_ok m \<Longrightarrow> hm_get (filter (\<lambda>(k, v). P k v) m) k
     = (case hm_get m k of None \<Rightarrow> None | Some v \<Rightarrow> if P k v then Some v else None)"
  by (induction m) (auto simp: hm_ok_def image_iff Bex_def split: option.splits dest: map_of_SomeD)

lemma hm_insert_new: "k \<notin> fst ` set m \<Longrightarrow> hm_insert k v m = m @ [(k, v)]"
  by (induction m) auto

lemma hm_fold_insert_new:
  "distinct (map fst (m @ es)) \<Longrightarrow> fold (\<lambda>(k, v). hm_insert k v) es m = m @ es"
  by (induction es arbitrary: m) (auto simp: hm_insert_new)

lemma hm_get_mem: "hm_ok m \<Longrightarrow> hm_get m k = Some v \<longleftrightarrow> (k, v) \<in> set m"
  by (simp add: hm_ok_def)

subsection \<open>Strings\<close>

text \<open>Facts that decide whether a literal is a Rust string.\<close>

lemmas string_eval = rust_string_def as_bytes_def utf8_step_def utf8_second_def utf8_cont_def

lemma length_as_bytes [simp]: "length (as_bytes s) = length s"
  by (simp add: as_bytes_def)

lemma as_bytes_append: "as_bytes (s @ t) = as_bytes s @ as_bytes t"
  by (simp add: as_bytes_def)

lemma of_bytes_as_bytes [simp]: "of_bytes (as_bytes s) = s"
proof -
  have "unat (word_of_nat (of_char c) :: byte) = of_char c" for c
    by (simp add: unat_of_nat of_char_mod_256 take_bit_nat_def)
  then show ?thesis by (simp add: of_bytes_def as_bytes_def comp_def)
qed

lemma as_bytes_of_bytes [simp]: "as_bytes (of_bytes bs) = bs"
proof -
  have "word_of_nat (of_char (char_of (unat b) :: char)) = b" for b :: byte
    using unsigned_less [of b, where 'a = nat] by simp
  then show ?thesis by (simp add: of_bytes_def as_bytes_def comp_def)
qed

lemma as_bytes_inject [simp]: "as_bytes s = as_bytes t \<longleftrightarrow> s = t"
  by (metis of_bytes_as_bytes)

lemma utf8_lossy_valid [simp]: "utf8_valid bs \<Longrightarrow> utf8_lossy bs = bs"
proof (induction bs rule: utf8_lossy.induct)
  case (2 a r)
  then show ?case by (auto split: prod.splits)
qed simp

lemma from_utf8_as_bytes [simp]: "rust_string s \<Longrightarrow> from_utf8 (as_bytes s) = Some s"
  by (simp add: rust_string_def from_utf8_def)

subsection \<open>Decimal formatting and parsing\<close>

lemma digit_val_char [simp]: "d < 10 \<Longrightarrow> digit_val (digit_char d) = Some d"
  by (simp add: digit_val_def digit_char_def Let_def)

lemma parse_digits_append:
  "parse_digits a (s @ t) = (case parse_digits a s of None \<Rightarrow> None | Some b \<Rightarrow> parse_digits b t)"
  by (induction a s rule: parse_digits.induct) (auto split: option.splits)

lemma parse_digits_show_nat [simp]: "parse_digits 0 (show_nat n) = Some n"
proof (induction n rule: show_nat.induct)
  case (1 n)
  show ?case
  proof (cases "n < 10")
    case True
    then show ?thesis by (subst show_nat.simps) simp
  next
    case False
    with 1 show ?thesis by (subst show_nat.simps) (simp add: parse_digits_append)
  qed
qed

lemma parse_digits_zeros [simp]: "parse_digits 0 (replicate k CHR ''0'' @ s) = parse_digits 0 s"
  by (induction k) (simp_all add: digit_val_def)

lemma parse_digits_digits: "parse_digits a s \<noteq> None \<Longrightarrow> c \<in> set s \<Longrightarrow> digit_val c \<noteq> None"
  by (induction a s rule: parse_digits.induct) (auto split: option.splits)

lemma parse_digits_pad0 [simp]: "parse_digits 0 (pad0 w (show_nat n)) = Some n"
  by (simp add: pad0_def)

lemma pad0_show_nat_digits: "c \<in> set (pad0 w (show_nat n)) \<Longrightarrow> digit_val c \<noteq> None"
  using parse_digits_digits [of 0 "pad0 w (show_nat n)" c] by simp

lemma pad0_show_nat_nonempty [simp]: "pad0 w (show_nat n) \<noteq> []"
  by (subst show_nat.simps) (simp add: pad0_def)

lemma parse_u64_pad0 [simp]: "parse_u64 (pad0 w (show_nat (unat x))) = Some x"
proof -
  obtain c cs where s: "pad0 w (show_nat (unat x)) = c # cs"
    by (cases "pad0 w (show_nat (unat x))") auto
  have "c \<noteq> CHR ''+''"
    using pad0_show_nat_digits [of c w "unat x"] s by (auto simp: digit_val_def)
  moreover have "unat x < 2 ^ 64"
    using unsigned_less [of x] by simp
  ultimately show ?thesis
    using parse_digits_pad0 [of w "unat x"] by (simp add: parse_u64_def s Let_def)
qed

end
