(* ===== verification/Errors.thy ===== *)
theory Errors
  imports Prelude
begin

text \<open>
  \<open>src/src/common/error.rs\<close>: the crate's error type and its conversions to a retry
  decision, to a gRPC status and to an HTTP status code. The payload of a
  \<open>rocksdb::Error\<close> is opaque to the sources and kept as a string; the texts that
  \<open>Display\<close> produces are a parameter where they are only passed on.
\<close>

datatype grpc_code =
    CodeNotFound | CodeFailedPrecondition | CodeInvalidArgument | CodeDeadlineExceeded
  | CodeInternal | CodeUnimplemented | CodeOther nat

record grpc_status =
  st_code :: grpc_code
  st_message :: string
  st_metadata :: "(string \<times> string) list"

datatype error =
    Io io_error
  | NotFound string
  | Corrupted string
  | ChecksumMismatch (expected: string) (actual: string)
  | WalError string
  | NotLeader string
  | RaftError string
  | ConsensusTimeout
  | PrepareFailed (pf_node: string) (pf_reason: string)
  | CommitFailed (cf_node: string) (cf_reason: string)
  | NoHealthyVolumes
  | InsufficientReplicas (needed: nat) (available: nat)
  | ShardNotFound u64
  | Grpc grpc_status
  | Http string
  | ConnectionFailed string
  | RocksDb string
  | MetadataCorrupted string
  | InvalidConfig string
  | VerifyFailed string
  | RepairFailed string
  | CompactFailed string
  | Internal string
  | Timeout string
  | Other string

type_synonym 'a result = "error + 'a"

fun is_retryable :: "error \<Rightarrow> bool" where
  "is_retryable (Timeout _) = True"
| "is_retryable (ConnectionFailed _) = True"
| "is_retryable ConsensusTimeout = True"
| "is_retryable (NotLeader _) = True"
| "is_retryable NoHealthyVolumes = True"
| "is_retryable _ = False"

text \<open>
  \<open>to_string\<close> is the derived \<open>Display\<close>; \<open>leader_ok\<close> says whether a string is
  accepted as an ASCII metadata value. \<open>None\<close> is the panic of \<open>unwrap\<close>.
\<close>

fun to_grpc_status :: "(error \<Rightarrow> string) \<Rightarrow> (string \<Rightarrow> bool) \<Rightarrow> error \<Rightarrow> grpc_status option" where
  "to_grpc_status to_string leader_ok (NotFound k) =
     Some \<lparr>st_code = CodeNotFound, st_message = to_string (NotFound k), st_metadata = []\<rparr>"
| "to_grpc_status to_string leader_ok (NotLeader leader) =
     (if leader_ok leader
      then Some \<lparr>st_code = CodeFailedPrecondition, st_message = to_string (NotLeader leader),
                 st_metadata = [(''leader'', leader)]\<rparr>
      else None)"
| "to_grpc_status to_string leader_ok (InvalidConfig m) =
     Some \<lparr>st_code = CodeInvalidArgument, st_message = to_string (InvalidConfig m), st_metadata = []\<rparr>"
| "to_grpc_status to_string leader_ok (InsufficientReplicas n a) =
     Some \<lparr>st_code = CodeInvalidArgument, st_message = to_string (InsufficientReplicas n a),
           st_metadata = []\<rparr>"
| "to_grpc_status to_string leader_ok ConsensusTimeout =
     Some \<lparr>st_code = CodeDeadlineExceeded, st_message = to_string ConsensusTimeout, st_metadata = []\<rparr>"
| "to_grpc_status to_string leader_ok (Timeout m) =
     Some \<lparr>st_code = CodeDeadlineExceeded, st_message = to_string (Timeout m), st_metadata = []\<rparr>"
| "to_grpc_status to_string leader_ok (Grpc status) = Some status"
| "to_grpc_status to_string leader_ok e =
     Some \<lparr>st_code = CodeInternal, st_message = to_string e, st_metadata = []\<rparr>"

fun to_http_status :: "error \<Rightarrow> nat" where
  "to_http_status (NotFound _) = 404"
| "to_http_status (NotLeader _) = 307"
| "to_http_status (InvalidConfig _) = 400"
| "to_http_status (Timeout _) = 408"
| "to_http_status ConsensusTimeout = 408"
| "to_http_status NoHealthyVolumes = 503"
| "to_http_status (InsufficientReplicas _ _) = 503"
| "to_http_status _ = 500"

text \<open>The conversions from strings and from an \<open>anyhow::Error\<close>, of which the text is kept.\<close>

definition error_from_text :: "string \<Rightarrow> error" where
  "error_from_text s = Other s"

text \<open>The reader of the standard library inside a function that returns the crate's \<open>Result\<close>.\<close>

definition read_io :: "nat \<Rightarrow> bytes \<Rightarrow> (bytes \<times> bytes) result" where
  "read_io n r = map_err Io (read_exact n r)"

lemma read_io_append [codec_simps]: "length xs = n \<Longrightarrow> read_io n (xs @ r) = Inr (xs, r)"
  by (simp add: read_io_def read_exact_append)

lemma read_io_0 [simp]: "read_io 0 r = Inr ([], r)"
  by (simp add: read_io_def)

lemma read_io_Inr: "read_io n r = Inr (x, r') \<longleftrightarrow> r = x @ r' \<and> length x = n"
  by (simp add: read_io_def read_exact_Inr)

lemma read_io_short [codec_simps]: "length r < n \<Longrightarrow> read_io n r = Inl (Io UnexpectedEof)"
  by (simp add: read_io_def read_exact_def)

lemma read_io_1 [codec_simps]: "read_io (Suc 0) (b # r) = Inr ([b], r)"
  by (simp add: read_io_def read_exact_def)

lemma read_io_u32 [codec_simps]: "read_io 4 (u32_to_le w @ r) = Inr (u32_to_le w, r)"
  by (simp add: read_io_append)

lemma read_io_u64 [codec_simps]: "read_io 8 (u64_to_le w @ r) = Inr (u64_to_le w, r)"
  by (simp add: read_io_append)

end
