(* ===== verification/Wal.thy ===== *)
theory Wal
  imports Errors
begin

text \<open>
  \<open>src/src/volume/wal.rs\<close>: the write-ahead log of a volume. The state of a \<open>Wal\<close> is
  the content of its file as the operating system has it, how much of it \<open>fsync\<close> has
  made durable, the bytes still in the \<open>BufWriter\<close>, the next sequence number and the
  sync policy. The CRC-32 of the crate \<open>crc32fast\<close> is the parameter \<open>crc32\<close> of
  every definition that uses it; no property needs anything of it. Writes and syncs are
  taken to succeed; the reader's errors are all modelled.

  The lemmas show that the reader inverts the writer, that a replay delivers exactly the
  complete records of a log whatever is missing at its end, which sequence numbers are
  handed out, and what a crash can take away under each sync policy.
\<close>

section \<open>Data\<close>

datatype wal_sync_policy = Always | Interval | Never

datatype wal_op = Put (op_key: string) (op_value: bytes) | Delete (op_key: string)

record wal_entry =
  sequence :: u64
  op :: wal_op

record wal =
  wal_file :: bytes
  wal_synced :: nat
  wal_buf :: bytes
  next_sequence :: u64
  wal_policy :: wal_sync_policy

definition WAL_MAGIC :: bytes where
  "WAL_MAGIC = [0x57, 0x41, 0x4C, 0x31]"

definition OP_PUT :: byte where
  "OP_PUT = 1"

definition OP_DELETE :: byte where
  "OP_DELETE = 2"

text \<open>The capacity of a default \<open>BufWriter\<close> of the standard library.\<close>

definition BUF_CAPACITY :: nat where
  "BUF_CAPACITY = 8192"

section \<open>Writing\<close>

definition buf_flush :: "wal \<Rightarrow> wal" where
  "buf_flush w = w\<lparr>wal_file := wal_file w @ wal_buf w, wal_buf := []\<rparr>"

text \<open>
  \<open>BufWriter::write_all\<close>: data that does not fit makes room first; data as large as the
  buffer goes to the file directly.
\<close>

definition buf_write :: "bytes \<Rightarrow> wal \<Rightarrow> wal" where
  "buf_write d w =
     (let w1 = (if length (wal_buf w) + length d > BUF_CAPACITY then buf_flush w else w)
      in if length d \<ge> BUF_CAPACITY then w1\<lparr>wal_file := wal_file w1 @ d\<rparr>
         else w1\<lparr>wal_buf := wal_buf w1 @ d\<rparr>)"

definition sync_all :: "wal \<Rightarrow> wal" where
  "sync_all w = w\<lparr>wal_synced := length (wal_file w)\<rparr>"

definition wal_checksum_data :: "u64 \<Rightarrow> byte \<Rightarrow> string \<Rightarrow> bytes \<Rightarrow> bytes" where
  "wal_checksum_data seq opc key val_bytes =
     u64_to_le seq @ [opc] @ u32_to_le (word_of_nat (length key)) @
     u32_to_le (word_of_nat (length val_bytes)) @ as_bytes key @
     (if opc = OP_PUT then val_bytes else [])"

definition write_entry ::
  "(bytes \<Rightarrow> u32) \<Rightarrow> u64 \<Rightarrow> byte \<Rightarrow> string \<Rightarrow> bytes option \<Rightarrow> wal \<Rightarrow> wal" where
  "write_entry crc32 seq opc key value w =
     (let key_bytes = as_bytes key;
          val_bytes = (case value of Some v \<Rightarrow> v | None \<Rightarrow> []);
          w = buf_write WAL_MAGIC w;
          w = buf_write (u64_to_le seq) w;
          w = buf_write [opc] w;
          w = buf_write (u32_to_le (word_of_nat (length key_bytes))) w;
          w = buf_write (u32_to_le (word_of_nat (length val_bytes))) w;
          w = buf_write key_bytes w;
          w = (if opc = OP_PUT then buf_write val_bytes w else w);
          checksum = crc32 (wal_checksum_data seq opc key val_bytes)
      in buf_write (u32_to_le checksum) w)"

definition maybe_sync :: "wal \<Rightarrow> wal" where
  "maybe_sync w =
     (case wal_policy w of
        Always \<Rightarrow> sync_all (buf_flush w)
      | Interval \<Rightarrow> buf_flush w
      | Never \<Rightarrow> w)"

definition append_put :: "(bytes \<Rightarrow> u32) \<Rightarrow> string \<Rightarrow> bytes \<Rightarrow> wal \<Rightarrow> u64 \<times> wal" where
  "append_put crc32 key value w =
     (let seq = next_sequence w;
          w = w\<lparr>next_sequence := seq + 1\<rparr>;
          w = write_entry crc32 seq OP_PUT key (Some value) w
      in (seq, maybe_sync w))"

definition append_delete :: "(bytes \<Rightarrow> u32) \<Rightarrow> string \<Rightarrow> wal \<Rightarrow> u64 \<times> wal" where
  "append_delete crc32 key w =
     (let seq = next_sequence w;
          w = w\<lparr>next_sequence := seq + 1\<rparr>;
          w = write_entry crc32 seq OP_DELETE key None w
      in (seq, maybe_sync w))"

definition truncate :: "wal \<Rightarrow> wal" where
  "truncate w =
     (let w = buf_flush w
      in w\<lparr>wal_file := [], wal_synced := 0, wal_buf := [], next_sequence := 0\<rparr>)"

definition sync :: "wal \<Rightarrow> wal" where
  "sync w = sync_all (buf_flush w)"

section \<open>Reading\<close>

definition read_entry_internal ::
  "(bytes \<Rightarrow> u32) \<Rightarrow> bytes \<Rightarrow> (wal_entry \<times> bytes) option result" where
  "read_entry_internal crc32 r =
     (case read_exact 4 r of
        Inl UnexpectedEof \<Rightarrow> Inr None
      | Inl e \<Rightarrow> Inl (Io e)
      | Inr (magic, r) \<Rightarrow>
        if magic \<noteq> WAL_MAGIC then Inl (WalError ''Invalid WAL magic'')
        else rbind (read_io 8 r) (\<lambda>(seq_bytes, r).
          rbind (read_io 1 r) (\<lambda>(opb, r).
          rbind (read_io 4 r) (\<lambda>(key_len_bytes, r).
          rbind (read_io 4 r) (\<lambda>(val_len_bytes, r).
          rbind (read_io (unat (u32_from_le key_len_bytes)) r) (\<lambda>(key_bytes, r).
          case from_utf8 key_bytes of
            None \<Rightarrow> Inl (WalError ''Invalid UTF-8 in key'')
          | Some key \<Rightarrow>
            rbind (if opb ! 0 = OP_PUT
                   then read_io (unat (u32_from_le val_len_bytes)) r else Inr ([], r))
              (\<lambda>(value, r).
            rbind (read_io 4 r) (\<lambda>(checksum_bytes, r).
              let stored_checksum = u32_from_le checksum_bytes;
                  checksum_data = seq_bytes @ [opb ! 0] @ key_len_bytes @ val_len_bytes @
                                  as_bytes key @ value
              in if crc32 checksum_data \<noteq> stored_checksum
                 then Inl (WalError ''Checksum mismatch'')
                 else if opb ! 0 = OP_PUT
                 then Inr (Some (\<lparr>sequence = u64_from_le seq_bytes, op = Put key value\<rparr>, r))
                 else if opb ! 0 = OP_DELETE
                 then Inr (Some (\<lparr>sequence = u64_from_le seq_bytes, op = Delete key\<rparr>, r))
                 else Inl (WalError (''Unknown op code: '' @ show_nat (unat (opb ! 0))))))))))))"

text \<open>A record that was read, or nothing: what the two loops below distinguish.\<close>

definition wal_rd :: "(bytes \<Rightarrow> u32) \<Rightarrow> bytes \<Rightarrow> (wal_entry \<times> bytes) option" where
  "wal_rd crc32 r = (case read_entry_internal crc32 r of Inr x \<Rightarrow> x | Inl _ \<Rightarrow> None)"

lemma length_WAL_MAGIC [simp]: "length WAL_MAGIC = 4"
  by (simp add: WAL_MAGIC_def)

lemma read_entry_SomeE:
  assumes "read_entry_internal crc32 r = Inr (Some (e, r'))"
  obtains sq opb kl vl kb k v cs where
    "r = WAL_MAGIC @ sq @ opb @ kl @ vl @ kb @ v @ cs @ r'"
    "length sq = 8" "length opb = 1" "length kl = 4" "length vl = 4" "length cs = 4"
    "length kb = unat (u32_from_le kl)" "from_utf8 kb = Some k"
    "crc32 (sq @ [opb ! 0] @ kl @ vl @ as_bytes k @ v) = u32_from_le cs"
    "opb ! 0 = OP_PUT \<and> length v = unat (u32_from_le vl) \<and>
       e = \<lparr>sequence = u64_from_le sq, op = Put k v\<rparr> \<or>
     opb ! 0 = OP_DELETE \<and> v = [] \<and> e = \<lparr>sequence = u64_from_le sq, op = Delete k\<rparr>"
  using assms
  by (force simp: read_entry_internal_def read_exact_Inr read_io_Inr rbind_eq_Inr Let_def
      split: sum.splits option.splits if_splits prod.splits io_error.splits)

lemma read_entry_progress:
  "read_entry_internal crc32 r = Inr (Some (e, r')) \<Longrightarrow> length r' < length r"
  by (erule read_entry_SomeE) simp

lemma wal_rd_progress: "wal_rd crc32 r = Some (e, r') \<Longrightarrow> length r' < length r"
  by (auto simp: wal_rd_def read_entry_progress split: sum.splits)

text \<open>
  The loop of \<open>Wal::replay\<close>: the callback sees the entries in order and may fail; a
  record that cannot be read ends the loop without an error.
\<close>

function replay_loop ::
  "(bytes \<Rightarrow> u32) \<Rightarrow> (wal_entry \<Rightarrow> 's \<Rightarrow> 's result) \<Rightarrow> bytes \<Rightarrow> 's \<Rightarrow> 's result" where
  "replay_loop crc32 callback r s =
     (case read_entry_internal crc32 r of
        Inr (Some (e, r')) \<Rightarrow>
          (case callback e s of Inl err \<Rightarrow> Inl err | Inr s' \<Rightarrow> replay_loop crc32 callback r' s')
      | Inr None \<Rightarrow> Inr s
      | Inl _ \<Rightarrow> Inr s)"
  by pat_completeness auto
termination
  by (relation "measure (\<lambda>(crc32, callback, r, s). length r)") (auto dest: read_entry_progress)

declare replay_loop.simps [simp del]

text \<open>\<open>None\<close> is the file that does not exist.\<close>

definition replay ::
  "(bytes \<Rightarrow> u32) \<Rightarrow> (wal_entry \<Rightarrow> 's \<Rightarrow> 's result) \<Rightarrow> bytes option \<Rightarrow> 's \<Rightarrow> 's result" where
  "replay crc32 callback file s =
     (case file of None \<Rightarrow> Inr s | Some r \<Rightarrow> replay_loop crc32 callback r s)"

function find_last_loop :: "(bytes \<Rightarrow> u32) \<Rightarrow> bytes \<Rightarrow> u64 option \<Rightarrow> u64 option" where
  "find_last_loop crc32 r max_seq =
     (case read_entry_internal crc32 r of
        Inr (Some (e, r')) \<Rightarrow>
          find_last_loop crc32 r'
            (Some (max (case max_seq of Some m \<Rightarrow> m | None \<Rightarrow> 0) (sequence e)))
      | Inr None \<Rightarrow> max_seq
      | Inl _ \<Rightarrow> max_seq)"
  by pat_completeness auto
termination
  by (relation "measure (\<lambda>(crc32, r, m). length r)") (auto dest: read_entry_progress)

declare find_last_loop.simps [simp del]

definition find_last_sequence :: "(bytes \<Rightarrow> u32) \<Rightarrow> bytes option \<Rightarrow> u64" where
  "find_last_sequence crc32 file =
     (case file of
        None \<Rightarrow> 0
      | Some r \<Rightarrow> (case find_last_loop crc32 r None of Some s \<Rightarrow> s + 1 | None \<Rightarrow> 0))"

text \<open>
  \<open>Wal::open\<close> creates the file when it is missing. Nothing is known about how much of an
  existing file is on the disk, so the synced length starts at zero.
\<close>

definition wal_open :: "(bytes \<Rightarrow> u32) \<Rightarrow> wal_sync_policy \<Rightarrow> bytes option \<Rightarrow> wal" where
  "wal_open crc32 policy file =
     (let content = (case file of Some b \<Rightarrow> b | None \<Rightarrow> [])
      in \<lparr>wal_file = content, wal_synced = 0, wal_buf = [],
          next_sequence = find_last_sequence crc32 (Some content), wal_policy = policy\<rparr>)"

section \<open>The format as a codec\<close>

definition wal_record :: "(bytes \<Rightarrow> u32) \<Rightarrow> u64 \<Rightarrow> byte \<Rightarrow> string \<Rightarrow> bytes \<Rightarrow> bytes" where
  "wal_record crc32 seq opc key v =
     WAL_MAGIC @ wal_checksum_data seq opc key v @ u32_to_le (crc32 (wal_checksum_data seq opc key v))"

definition wal_encode :: "(bytes \<Rightarrow> u32) \<Rightarrow> wal_entry \<Rightarrow> bytes" where
  "wal_encode crc32 e =
     (case op e of
        Put k v \<Rightarrow> wal_record crc32 (sequence e) OP_PUT k v
      | Delete k \<Rightarrow> wal_record crc32 (sequence e) OP_DELETE k [])"

text \<open>What the format can represent: keys are strings and lengths fit 32 bits.\<close>

fun wal_op_ok :: "wal_op \<Rightarrow> bool" where
  "wal_op_ok (Put k v) \<longleftrightarrow> rust_string k \<and> length k < 2 ^ 32 \<and> length v < 2 ^ 32"
| "wal_op_ok (Delete k) \<longleftrightarrow> rust_string k \<and> length k < 2 ^ 32"

definition wal_ok :: "wal_entry \<Rightarrow> bool" where
  "wal_ok e \<longleftrightarrow> wal_op_ok (op e)"

definition wal_content :: "wal \<Rightarrow> bytes" where
  "wal_content w = wal_file w @ wal_buf w"

lemmas op_defs = OP_PUT_def OP_DELETE_def

lemma read_entry_encode:
  assumes "wal_ok e"
  shows "read_entry_internal crc32 (wal_encode crc32 e @ r) = Inr (Some (e, r))"
proof (cases "op e")
  case (Put k v)
  then show ?thesis
    using assms
    by (cases e) (simp add: wal_ok_def wal_encode_def wal_record_def wal_checksum_data_def
        read_entry_internal_def codec_simps op_defs Let_def)
next
  case (Delete k)
  then show ?thesis
    using assms
    by (cases e) (simp add: wal_ok_def wal_encode_def wal_record_def wal_checksum_data_def
        read_entry_internal_def codec_simps op_defs Let_def)
qed

lemma wal_rd_encode: "wal_ok e \<Longrightarrow> wal_rd crc32 (wal_encode crc32 e @ r) = Some (e, r)"
  by (simp add: wal_rd_def read_entry_encode)

lemma read_entry_extend:
  assumes "read_entry_internal crc32 r = Inr (Some (e, r'))"
  shows "read_entry_internal crc32 (r @ q) = Inr (Some (e, r' @ q))"
  using assms
  by (rule read_entry_SomeE)
     (auto simp: read_entry_internal_def codec_simps op_defs Let_def)

lemma wal_rd_extend: "wal_rd crc32 r = Some (e, r') \<Longrightarrow> wal_rd crc32 (r @ q) = Some (e, r' @ q)"
  by (auto simp: wal_rd_def read_entry_extend split: sum.splits)

interpretation wal_log: record_log "wal_encode crc32" "wal_rd crc32" wal_ok for crc32
  by unfold_locales (auto intro: wal_rd_encode wal_rd_extend wal_rd_progress)

section \<open>The loops of the reader\<close>

fun fold_res :: "('e \<Rightarrow> 's \<Rightarrow> 's result) \<Rightarrow> 'e list \<Rightarrow> 's \<Rightarrow> 's result" where
  "fold_res f [] s = Inr s"
| "fold_res f (e # es) s = rbind (f e s) (fold_res f es)"

abbreviation wal_entries :: "(bytes \<Rightarrow> u32) \<Rightarrow> bytes \<Rightarrow> wal_entry list" where
  "wal_entries crc32 r \<equiv> read_all (wal_rd crc32) r"

lemma wal_entries_step:
  "wal_entries crc32 r =
     (case read_entry_internal crc32 r of
        Inr (Some (e, r')) \<Rightarrow> e # wal_entries crc32 r' | _ \<Rightarrow> [])"
  by (subst read_all.simps)
     (auto simp: wal_rd_def dest: read_entry_progress split: sum.splits option.splits)

lemma replay_loop_fold: "replay_loop crc32 cb r s = fold_res cb (wal_entries crc32 r) s"
proof (induction crc32 cb r s rule: replay_loop.induct)
  case (1 crc32 cb r s)
  then show ?case
    by (subst replay_loop.simps, subst wal_entries_step)
       (auto split: sum.splits option.splits prod.splits)
qed

definition seq_max :: "wal_entry \<Rightarrow> u64 option \<Rightarrow> u64 option" where
  "seq_max e m = Some (max (case m of Some x \<Rightarrow> x | None \<Rightarrow> 0) (sequence e))"

lemma seq_max_simps [simp]:
  "seq_max e None = Some (sequence e)" "seq_max e (Some m) = Some (max m (sequence e))"
  by (simp_all add: seq_max_def)

lemma find_last_loop_fold: "find_last_loop crc32 r m = fold seq_max (wal_entries crc32 r) m"
proof (induction crc32 r m rule: find_last_loop.induct)
  case (1 crc32 r m)
  then show ?case
    by (subst find_last_loop.simps, subst wal_entries_step)
       (auto split: sum.splits option.splits prod.splits)
qed

section \<open>What the writer leaves in the file\<close>

lemma content_flush [simp]: "wal_content (buf_flush w) = wal_content w"
  by (simp add: wal_content_def buf_flush_def)

lemma content_buf_write [simp]: "wal_content (buf_write d w) = wal_content w @ d"
  by (cases "wal_buf w")
     (auto simp: wal_content_def buf_write_def buf_flush_def Let_def BUF_CAPACITY_def)

lemma content_maybe_sync [simp]: "wal_content (maybe_sync w) = wal_content w"
  by (auto simp: maybe_sync_def sync_all_def wal_content_def buf_flush_def split: wal_sync_policy.splits)

lemma content_next_sequence [simp]: "wal_content (w\<lparr>next_sequence := n\<rparr>) = wal_content w"
  by (simp add: wal_content_def)

lemma content_write_entry:
  "wal_content (write_entry crc32 seq opc key value w)
     = wal_content w @ wal_record crc32 seq opc key (case value of Some v \<Rightarrow> v | None \<Rightarrow> [])"
  by (simp add: write_entry_def wal_record_def wal_checksum_data_def Let_def)

fun append_op :: "(bytes \<Rightarrow> u32) \<Rightarrow> wal_op \<Rightarrow> wal \<Rightarrow> wal" where
  "append_op crc32 (Put k v) w = snd (append_put crc32 k v w)"
| "append_op crc32 (Delete k) w = snd (append_delete crc32 k w)"

lemma content_append_op:
  "wal_content (append_op crc32 x w)
     = wal_content w @ wal_encode crc32 \<lparr>sequence = next_sequence w, op = x\<rparr>"
  by (cases x)
     (simp_all add: append_put_def append_delete_def wal_encode_def content_write_entry Let_def)

text \<open>The fields a write leaves alone.\<close>

lemma buf_write_frame [simp]:
  "next_sequence (buf_write d w) = next_sequence w" "wal_policy (buf_write d w) = wal_policy w"
  by (auto simp: buf_write_def buf_flush_def Let_def)

lemma write_entry_frame [simp]:
  "next_sequence (write_entry crc32 seq opc key value w) = next_sequence w"
  "wal_policy (write_entry crc32 seq opc key value w) = wal_policy w"
  by (auto simp: write_entry_def Let_def)

lemma maybe_sync_frame [simp]:
  "next_sequence (maybe_sync w) = next_sequence w" "wal_policy (maybe_sync w) = wal_policy w"
  by (auto simp: maybe_sync_def sync_all_def buf_flush_def split: wal_sync_policy.splits)

lemma append_op_frame [simp]:
  "next_sequence (append_op crc32 x w) = next_sequence w + 1"
  "wal_policy (append_op crc32 x w) = wal_policy w"
  by (cases x; simp add: append_put_def append_delete_def Let_def)+

section \<open>Runs of appends and crashes\<close>

fun number_ops :: "u64 \<Rightarrow> wal_op list \<Rightarrow> wal_entry list" where
  "number_ops n [] = []"
| "number_ops n (x # xs) = \<lparr>sequence = n, op = x\<rparr> # number_ops (n + 1) xs"

text \<open>
  After a crash the file holds a prefix of what the operating system was given, no
  shorter than what was synced.
\<close>

definition crash_image :: "wal \<Rightarrow> bytes \<Rightarrow> bool" where
  "crash_image w f \<longleftrightarrow>
     length f \<le> length (wal_file w) \<and> wal_synced w \<le> length f \<and> f = take (length f) (wal_file w)"

lemma length_number_ops [simp]: "length (number_ops n xs) = length xs"
  by (induction xs arbitrary: n) auto

lemma number_ops_snoc:
  "number_ops n (xs @ [x]) = number_ops n xs @ [\<lparr>sequence = n + word_of_nat (length xs), op = x\<rparr>]"
  by (induction xs arbitrary: n) (auto simp: algebra_simps)

lemma number_ops_ok: "list_all wal_op_ok xs \<Longrightarrow> list_all wal_ok (number_ops n xs)"
  by (induction xs arbitrary: n) (auto simp: wal_ok_def)

lemma content_append_ops:
  "wal_content (fold (append_op crc32) ops w)
     = wal_content w @ concat (map (wal_encode crc32) (number_ops (next_sequence w) ops))"
  by (induction ops arbitrary: w) (auto simp: content_append_op)

lemma append_ops_policy [simp]: "wal_policy (fold (append_op crc32) ops w) = wal_policy w"
  by (induction ops arbitrary: w) auto

lemma wal_open_frame [simp]:
  "wal_policy (wal_open crc32 p f) = p" "wal_buf (wal_open crc32 p f) = []"
  "wal_content (wal_open crc32 p (Some b)) = b"
  "next_sequence (wal_open crc32 p (Some b)) = find_last_sequence crc32 (Some b)"
  by (simp_all add: wal_open_def wal_content_def Let_def)

lemma wal_open_None [simp]:
  "wal_content (wal_open crc32 p None) = []" "next_sequence (wal_open crc32 p None) = 0"
  by (simp_all add: wal_open_def wal_content_def find_last_sequence_def find_last_loop_fold
      wal_log.read_all_stop wal_log.rd_nonempty)

lemma append_op_Always:
  "wal_policy w = Always \<Longrightarrow>
     wal_buf (append_op crc32 x w) = [] \<and> wal_synced (append_op crc32 x w) = length (wal_file (append_op crc32 x w))"
  by (cases x) (auto simp: append_put_def append_delete_def maybe_sync_def sync_all_def buf_flush_def Let_def)

lemma append_ops_Always:
  assumes "wal_policy w = Always" and "ops \<noteq> []"
  shows "wal_buf (fold (append_op crc32) ops w) = [] \<and>
         wal_synced (fold (append_op crc32) ops w) = length (wal_file (fold (append_op crc32) ops w))"
  using assms
proof (induction ops rule: rev_induct)
  case (snoc x xs)
  then show ?case using append_op_Always [of "fold (append_op crc32) xs w" crc32 x] by simp
qed simp

lemma crash_image_content:
  assumes "crash_image w f"
  shows "f = take (length f) (wal_content w)"
    and "wal_buf w = [] \<Longrightarrow> wal_synced w = length (wal_file w) \<Longrightarrow> f = wal_content w"
  using assms by (auto simp: crash_image_def wal_content_def)

lemma find_last_number_ops:
  "length xs < 2 ^ 64 \<Longrightarrow>
     fold seq_max (number_ops 0 xs) None = (if xs = [] then None else Some (word_of_nat (length xs - 1)))"
proof (induction xs rule: rev_induct)
  case (snoc x xs)
  have "(word_of_nat (length xs - 1) :: u64) \<le> word_of_nat (length xs)"
    using snoc.prems by (simp add: word_le_nat_alt)
  with snoc show ?case by (auto simp: number_ops_snoc max_def)
qed simp

section \<open>Torn tails\<close>

text \<open>
  What the reader accepted is a magic, at least 17 bytes of data and their checksum, and it
  would have accepted these bytes whatever follows them.
\<close>

lemma read_entry_whole:
  assumes "read_entry_internal crc32 r = Inr (Some (e, r'))"
  obtains c d cs where "r = c @ r'" "c = WAL_MAGIC @ d @ cs" "length cs = 4" "17 \<le> length d"
    "crc32 d = u32_from_le cs" "\<forall>q. read_entry_internal crc32 (c @ q) = Inr (Some (e, q))"
proof -
  obtain sq opb kl vl kb k v cs where f:
    "r = WAL_MAGIC @ sq @ opb @ kl @ vl @ kb @ v @ cs @ r'"
    "length sq = 8" "length opb = 1" "length kl = 4" "length vl = 4" "length cs = 4"
    "length kb = unat (u32_from_le kl)" "from_utf8 kb = Some k"
    "crc32 (sq @ [opb ! 0] @ kl @ vl @ as_bytes k @ v) = u32_from_le cs"
    "opb ! 0 = OP_PUT \<and> length v = unat (u32_from_le vl) \<and>
       e = \<lparr>sequence = u64_from_le sq, op = Put k v\<rparr> \<or>
     opb ! 0 = OP_DELETE \<and> v = [] \<and> e = \<lparr>sequence = u64_from_le sq, op = Delete k\<rparr>"
    using read_entry_SomeE [OF assms] .
  have "[opb ! 0] = opb" "as_bytes k = kb"
    using f(3,8) by (auto simp: length_Suc_conv from_utf8_def split: if_splits)
  then have "crc32 (sq @ opb @ kl @ vl @ kb @ v) = u32_from_le cs" using f(9) by simp
  moreover have "read_entry_internal crc32 ((WAL_MAGIC @ sq @ opb @ kl @ vl @ kb @ v @ cs) @ q) = Inr (Some (e, q))" for q
    using f(2-10) by (auto simp: read_entry_internal_def codec_simps op_defs Let_def)
  ultimately show ?thesis
    using f(1-6) by (intro that [of "WAL_MAGIC @ sq @ opb @ kl @ vl @ kb @ v @ cs" "sq @ opb @ kl @ vl @ kb @ v" cs]) simp_all
qed

text \<open>The first 21 bytes of a record, which hold its lengths, decide how long it is.\<close>

lemma read_entry_header:
  assumes "read_entry_internal crc32 x = Inr (Some (e, x'))" and "read_entry_internal crc32 y = Inr (Some (f, y'))"
    and "take 21 x = take 21 y"
  shows "length x + length y' = length y + length x'"
proof -
  obtain sq opb kl vl kb k v cs where x:
    "x = WAL_MAGIC @ sq @ opb @ kl @ vl @ kb @ v @ cs @ x'"
    "length sq = 8" "length opb = 1" "length kl = 4" "length vl = 4" "length cs = 4" "length kb = unat (u32_from_le kl)"
    "opb ! 0 = OP_PUT \<and> length v = unat (u32_from_le vl) \<or> opb ! 0 = OP_DELETE \<and> v = []"
    using read_entry_SomeE [OF assms(1)] by metis
  obtain sq' opb' kl' vl' kb' k' v' cs' where y:
    "y = WAL_MAGIC @ sq' @ opb' @ kl' @ vl' @ kb' @ v' @ cs' @ y'"
    "length sq' = 8" "length opb' = 1" "length kl' = 4" "length vl' = 4" "length cs' = 4" "length kb' = unat (u32_from_le kl')"
    "opb' ! 0 = OP_PUT \<and> length v' = unat (u32_from_le vl') \<or> opb' ! 0 = OP_DELETE \<and> v' = []"
    using read_entry_SomeE [OF assms(2)] by metis
  have "WAL_MAGIC @ sq @ opb @ kl @ vl = WAL_MAGIC @ sq' @ opb' @ kl' @ vl'"
    using assms(3) x(1-5) y(1-5) by simp
  then have "opb = opb'" "kl = kl'" "vl = vl'" using x(2-5) y(2-5) by simp_all
  then show ?thesis using x y by (auto simp: op_defs)
qed

text \<open>
  The torn bytes \<open>t\<close> together with the first bytes of what follows them happen to be data
  and their checksum.
\<close>

definition accidental_match :: "(bytes \<Rightarrow> u32) \<Rightarrow> bytes \<Rightarrow> bytes \<Rightarrow> bool" where
  "accidental_match crc32 t l \<longleftrightarrow>
     (\<exists>a b d cs. l = a @ b \<and> a \<noteq> [] \<and> t @ a = WAL_MAGIC @ d @ cs \<and> length cs = 4 \<and> 17 \<le> length d \<and>
        crc32 d = u32_from_le cs)"

lemma torn_then_records:
  assumes e: "wal_ok e" "wal_encode crc32 e = t @ q" "q \<noteq> []" and "wal_rd crc32 (t @ l) = Some x"
  shows "accidental_match crc32 t l" and "21 \<le> length t \<Longrightarrow> length (t @ q) \<le> length (t @ l)"
proof -
  obtain e' r' where r: "read_entry_internal crc32 (t @ l) = Inr (Some (e', r'))"
    using assms(4) by (cases x) (auto simp: wal_rd_def split: sum.splits)
  obtain c d cs where c: "t @ l = c @ r'" "c = WAL_MAGIC @ d @ cs" "length cs = 4" "17 \<le> length d"
    "crc32 d = u32_from_le cs" "\<forall>q. read_entry_internal crc32 (c @ q) = Inr (Some (e', q))"
    using read_entry_whole [OF r] .
  have "\<not> (\<exists>t'. t = c @ t')"
    using wal_log.rd_torn [OF e] c(6) by (auto simp: wal_rd_def)
  then obtain a where a: "c = t @ a" "l = a @ r'" "a \<noteq> []"
    using c(1) by (auto simp: append_eq_append_conv2)
  then show "accidental_match crc32 t l"
    unfolding accidental_match_def using c(2-5) by blast
  have "read_entry_internal crc32 (t @ q) = Inr (Some (e, []))"
    using read_entry_encode [OF e(1), of crc32 "[]"] e(2) by simp
  from read_entry_header [OF this r] show "length (t @ q) \<le> length (t @ l)" if "21 \<le> length t"
    using that by simp
qed

lemma short_tear_stops:
  assumes "0 < n" and "n < 4" and "l = [] \<or> (\<exists>y. l = WAL_MAGIC @ y)"
  shows "wal_rd crc32 (take n WAL_MAGIC @ l) = None"
proof -
  consider "n = 1" | "n = 2" | "n = 3" using assms(1,2) by linarith
  then show ?thesis
    using assms(3) by cases (auto simp: wal_rd_def read_entry_internal_def read_exact_def WAL_MAGIC_def)
qed

lemma records_start: "concat (map (wal_encode crc32) es) = [] \<or> (\<exists>y. concat (map (wal_encode crc32) es) = WAL_MAGIC @ y)"
proof (cases es)
  case (Cons x xs)
  then show ?thesis by (cases "op x") (auto simp: wal_encode_def wal_record_def)
qed simp

section \<open>Properties\<close>

text \<open>
  C2. Durability: let any operations be appended to a new log and let the machine crash.
  Replaying what is left delivers, in order and with their sequence numbers, exactly a
  prefix of the operations, never a damaged one; under the policy \<open>Always\<close> it delivers
  all of them.
\<close>

theorem wal_crash_replay:
  assumes "list_all wal_op_ok ops"
    and "crash_image (fold (append_op crc32) ops (wal_open crc32 p None)) f"
  shows "\<exists>k \<le> length ops.
           replay crc32 cb (Some f) s = fold_res cb (take k (number_ops 0 ops)) s \<and>
           (p = Always \<longrightarrow> k = length ops)"
proof -
  let ?w = "fold (append_op crc32) ops (wal_open crc32 p None)"
  let ?c = "concat (map (wal_encode crc32) (number_ops 0 ops))"
  have c: "wal_content ?w = ?c" by (simp add: content_append_ops)
  obtain k where k: "k \<le> length (number_ops 0 ops)"
      "wal_entries crc32 (take (length f) ?c) = take k (number_ops 0 ops)"
      "length f \<ge> length ?c \<longrightarrow> k = length (number_ops 0 ops)"
    using wal_log.read_all_take [OF number_ops_ok [OF assms(1)]] by blast
  have f: "f = take (length f) ?c" using crash_image_content(1) [OF assms(2)] c by simp
  have "length f \<ge> length ?c" if "p = Always"
  proof (cases "ops = []")
    case False
    then show ?thesis
      using append_ops_Always [of "wal_open crc32 p None" ops crc32] that c
        crash_image_content(2) [OF assms(2)] by simp
  qed simp
  with k f show ?thesis by (auto simp: replay_def replay_loop_fold)
qed

theorem wal_crash_replay_witness:
  "\<exists>k \<le> length [Put ''a'' [1], Delete ''a''].
     replay (\<lambda>_. 0) (\<lambda>e s. Inr (s @ [e]))
       (Some (wal_file (fold (append_op (\<lambda>_. 0)) [Put ''a'' [1], Delete ''a''] (wal_open (\<lambda>_. 0) Always None)))) []
       = fold_res (\<lambda>e s. Inr (s @ [e])) (take k (number_ops 0 [Put ''a'' [1], Delete ''a''])) [] \<and>
     (Always = Always \<longrightarrow> k = length [Put ''a'' [1], Delete ''a''])"
proof -
  let ?ops = "[Put ''a'' [1], Delete ''a'']"
  let ?w = "fold (append_op (\<lambda>_. 0)) ?ops (wal_open (\<lambda>_. 0) Always None)"
  have ok: "list_all wal_op_ok ?ops" by (simp add: string_eval)
  have "crash_image ?w (wal_file ?w)"
    using append_ops_Always [of "wal_open (\<lambda>_. 0) Always None" ?ops "\<lambda>_. 0"]
    by (simp add: crash_image_def)
  then show ?thesis
    using wal_crash_replay [of ?ops "\<lambda>_. 0" Always "wal_file ?w" "\<lambda>e s. Inr (s @ [e])" "[]", OF ok] by blast
qed

text \<open>
  Reopening: a log to which operations were appended and whose content reached the
  file is opened again with the sequence number that follows the last one handed out.
\<close>

theorem wal_reopen_sequence:
  assumes "list_all wal_op_ok ops" and "length ops < 2 ^ 64"
  shows "next_sequence (wal_open crc32 p
           (Some (wal_content (fold (append_op crc32) ops (wal_open crc32 q None)))))
         = word_of_nat (length ops)"
proof -
  have "wal_entries crc32 (concat (map (wal_encode crc32) (number_ops 0 ops))) = number_ops 0 ops"
    by (rule wal_log.read_all_records) (rule number_ops_ok [OF assms(1)])
  moreover have "(word_of_nat (length ops - Suc 0) :: u64) + 1 = word_of_nat (length ops)" if "ops \<noteq> []"
    using that by (cases ops) auto
  ultimately show ?thesis
    using assms(2)
    by (simp add: find_last_sequence_def find_last_loop_fold content_append_ops find_last_number_ops)
qed

theorem wal_reopen_sequence_witness:
  "list_all wal_op_ok [Put ''a'' [1], Delete ''a''] \<and>
   next_sequence (wal_open (\<lambda>_. 0) Never
     (Some (wal_content (fold (append_op (\<lambda>_. 0)) [Put ''a'' [1], Delete ''a''] (wal_open (\<lambda>_. 0) Never None)))))
   = word_of_nat (length [Put ''a'' [1], Delete ''a''])"
proof -
  have ok: "list_all wal_op_ok [Put ''a'' [1], Delete ''a'']" by (simp add: string_eval)
  show ?thesis using ok wal_reopen_sequence [OF ok, of "\<lambda>_. 0" Never Never] by simp
qed

text \<open>
  C38. A torn tail is not repaired: when a crash left any proper part of a record at the end
  of a log of complete records, the log opens and accepts further operations behind it. A
  replay then delivers the complete records and nothing more, so that all operations
  appended from then on are lost, unless the torn bytes reach past the magic and happen to
  form, with the first bytes of the operations behind them, data with a matching checksum.
  This cannot happen if the tear is inside the magic, nor as long as fewer bytes were
  appended behind a complete header than are missing from the torn record.
\<close>

theorem wal_append_after_torn_tail_lost:
  assumes "list_all wal_op_ok ops" and "wal_op_ok x" and "0 < n"
    and "n < length (wal_encode crc32 \<lparr>sequence = i, op = x\<rparr>)"
    and "t = take n (wal_encode crc32 \<lparr>sequence = i, op = x\<rparr>)"
    and "w = fold (append_op crc32) later
               (wal_open crc32 p (Some (concat (map (wal_encode crc32) (number_ops 0 ops)) @ t)))"
  shows "\<exists>l. wal_content w = concat (map (wal_encode crc32) (number_ops 0 ops)) @ t @ l \<and>
           (replay crc32 cb (Some (wal_content w)) s = fold_res cb (number_ops 0 ops) s \<or>
            4 \<le> n \<and> accidental_match crc32 t l) \<and>
           (n < 4 \<or> 21 \<le> n \<and> n + length l < length (wal_encode crc32 \<lparr>sequence = i, op = x\<rparr>) \<longrightarrow>
              replay crc32 cb (Some (wal_content w)) s = fold_res cb (number_ops 0 ops) s)"
proof -
  let ?e = "\<lparr>sequence = i, op = x\<rparr>" and ?old = "concat (map (wal_encode crc32) (number_ops 0 ops))"
  obtain es where w: "wal_content w = ?old @ t @ concat (map (wal_encode crc32) es)"
    using assms(6) by (simp add: content_append_ops)
  let ?l = "concat (map (wal_encode crc32) es)"
  have lost: "replay crc32 cb (Some (wal_content w)) s = fold_res cb (number_ops 0 ops) s"
    if "wal_rd crc32 (t @ ?l) = None"
    using that unfolding w
    by (simp add: replay_def replay_loop_fold wal_log.read_all_append [OF number_ops_ok [OF assms(1)]] wal_log.read_all_stop)
  have e: "wal_ok ?e" "wal_encode crc32 ?e = t @ drop n (wal_encode crc32 ?e)" "drop n (wal_encode crc32 ?e) \<noteq> []"
    and len: "length t = n" "length (t @ drop n (wal_encode crc32 ?e)) = length (wal_encode crc32 ?e)"
    using assms(2,4,5) by (simp_all add: wal_ok_def)
  have "t = take n WAL_MAGIC" if "n < 4"
    using that assms(5) by (cases x) (simp_all add: wal_encode_def wal_record_def)
  then have short: "wal_rd crc32 (t @ ?l) = None" if "n < 4"
    using that assms(3) short_tear_stops [OF _ _ records_start] by simp
  note torn = torn_then_records [OF e, of ?l]
  have either: "wal_rd crc32 (t @ ?l) = None \<or> 4 \<le> n \<and> accidental_match crc32 t ?l"
  proof (cases "n < 4")
    case False
    then show ?thesis using torn(1) by (cases "wal_rd crc32 (t @ ?l)") simp_all
  qed (simp add: short)
  have few: "wal_rd crc32 (t @ ?l) = None" if "21 \<le> n" "n + length ?l < length (wal_encode crc32 ?e)"
    using torn(2) that len by (cases "wal_rd crc32 (t @ ?l)") auto
  show ?thesis
  proof (intro exI [of _ ?l] conjI)
    show "replay crc32 cb (Some (wal_content w)) s = fold_res cb (number_ops 0 ops) s \<or>
        4 \<le> n \<and> accidental_match crc32 t ?l"
      using either lost by argo
    show "n < 4 \<or> 21 \<le> n \<and> n + length ?l < length (wal_encode crc32 ?e) \<longrightarrow>
        replay crc32 cb (Some (wal_content w)) s = fold_res cb (number_ops 0 ops) s"
      using lost [OF short] lost [OF few] by argo
  qed (rule w)
qed

theorem wal_append_after_torn_tail_lost_witness:
  "replay (\<lambda>_. 0) (\<lambda>e s. Inr (s @ [e])) (Some (wal_content (fold (append_op (\<lambda>_. 0)) [Put ''b'' [2]]
     (wal_open (\<lambda>_. 0) Always (Some (concat (map (wal_encode (\<lambda>_. 0)) (number_ops 0 [Put ''a'' [1]])) @
        take 25 (wal_encode (\<lambda>_. 0) \<lparr>sequence = 1, op = Put ''c'' (replicate 100 7)\<rparr>))))))) []
   = Inr [\<lparr>sequence = 0, op = Put ''a'' [1]\<rparr>]"
proof -
  let ?e = "\<lparr>sequence = 1, op = Put ''c'' (replicate 100 7)\<rparr>" and ?crc = "\<lambda>_. 0 :: u32"
  let ?old = "concat (map (wal_encode ?crc) (number_ops 0 [Put ''a'' [1]]))"
  let ?w = "fold (append_op ?crc) [Put ''b'' [2]] (wal_open ?crc Always (Some (?old @ take 25 (wal_encode ?crc ?e))))"
  have h: "list_all wal_op_ok [Put ''a'' [1]]" "wal_op_ok (Put ''c'' (replicate 100 7))" "0 < (25 :: nat)"
    by (simp_all add: string_eval)
  have len: "length (wal_encode ?crc ?e) = 126"
    by (simp add: wal_encode_def wal_record_def wal_checksum_data_def op_defs)
  have all: "length (wal_content ?w) = length ?old + 25 + 27"
    unfolding content_append_ops wal_open_frame length_append
    by (simp add: len) (simp add: wal_encode_def wal_record_def wal_checksum_data_def op_defs)
  have "25 < length (wal_encode ?crc ?e)" unfolding len by simp
  from wal_append_after_torn_tail_lost [OF h this refl refl, of "[Put ''b'' [2]]" Always "\<lambda>e s. Inr (s @ [e])" "[]"]
  obtain l where l: "wal_content ?w = ?old @ take 25 (wal_encode ?crc ?e) @ l"
    "25 < (4 :: nat) \<or> 21 \<le> (25 :: nat) \<and> 25 + length l < length (wal_encode ?crc ?e) \<longrightarrow> replay ?crc (\<lambda>e s. Inr (s @ [e])) (Some (wal_content ?w)) []
       = fold_res (\<lambda>e s. Inr (s @ [e])) (number_ops 0 [Put ''a'' [1]]) []"
    by (elim exE conjE) (rule that)
  have "length (wal_content ?w) = length ?old + 25 + length l"
    unfolding l(1) length_append length_take len by simp
  then have "replay ?crc (\<lambda>e s. Inr (s @ [e])) (Some (wal_content ?w)) []
      = fold_res (\<lambda>e s. Inr (s @ [e])) (number_ops 0 [Put ''a'' [1]]) []"
    using all l(2) unfolding len by linarith
  then show ?thesis unfolding number_ops.simps fold_res.simps res_simps by simp
qed

end
