(* ===== verification/VolIndex.thy ===== *)
theory VolIndex
  imports Errors
begin

text \<open>
  \<open>src/src/volume/index.rs\<close>: the in-memory index of a volume, a hash map from keys to
  the places of their blobs, with expiry times and a snapshot file format. The clock
  (\<open>SystemTime::now\<close> in milliseconds) is the argument \<open>now\<close> of the operations that
  read it. The lemmas show how the lookups respect expiry, what cleaning up removes, that
  a snapshot loads as the index it was saved from, and that a truncated one is refused.
\<close>

section \<open>Data and map operations\<close>

record blob_location =
  shard :: u64
  offset :: u64
  blob_size :: u64
  blake3 :: string
  expires_at :: "u64 option"

type_synonym index = "(string, blob_location) hashmap"

definition index_new :: index where
  "index_new = []"

definition index_insert :: "string \<Rightarrow> blob_location \<Rightarrow> index \<Rightarrow> index" where
  "index_insert key location idx = hm_insert key location idx"

definition index_get :: "index \<Rightarrow> string \<Rightarrow> blob_location option" where
  "index_get idx key = hm_get idx key"

definition index_remove :: "string \<Rightarrow> index \<Rightarrow> blob_location option \<times> index" where
  "index_remove key idx = (hm_get idx key, hm_remove key idx)"

definition index_contains :: "index \<Rightarrow> string \<Rightarrow> bool" where
  "index_contains idx key \<longleftrightarrow> hm_get idx key \<noteq> None"

definition index_len :: "index \<Rightarrow> nat" where
  "index_len idx = length idx"

definition index_is_empty :: "index \<Rightarrow> bool" where
  "index_is_empty idx \<longleftrightarrow> idx = []"

definition index_keys :: "index \<Rightarrow> string list" where
  "index_keys idx = map fst idx"

definition index_clear :: "index \<Rightarrow> index" where
  "index_clear idx = []"

section \<open>Expiry\<close>

definition is_expired :: "u64 \<Rightarrow> index \<Rightarrow> string \<Rightarrow> bool" where
  "is_expired now idx key =
     (case hm_get idx key of
        Some loc \<Rightarrow> (case expires_at loc of Some t \<Rightarrow> now > t | None \<Rightarrow> False)
      | None \<Rightarrow> False)"

definition get_if_valid :: "u64 \<Rightarrow> index \<Rightarrow> string \<Rightarrow> blob_location option" where
  "get_if_valid now idx key = (if is_expired now idx key then None else hm_get idx key)"

definition loc_expired :: "u64 \<Rightarrow> blob_location \<Rightarrow> bool" where
  "loc_expired now loc = (case expires_at loc of Some t \<Rightarrow> now > t | None \<Rightarrow> False)"

definition cleanup_expired :: "u64 \<Rightarrow> index \<Rightarrow> nat \<times> index" where
  "cleanup_expired now idx =
     (let expired_keys = map fst (filter (\<lambda>(_, loc). loc_expired now loc) idx)
      in (length expired_keys, fold hm_remove expired_keys idx))"

definition keys_with_ttl :: "index \<Rightarrow> (string \<times> u64) list" where
  "keys_with_ttl idx =
     List.map_filter (\<lambda>(k, loc). map_option (\<lambda>t. (k, t)) (expires_at loc)) idx"

section \<open>Snapshots\<close>

definition SNAPSHOT_MAGIC :: bytes where
  "SNAPSHOT_MAGIC = as_bytes ''KVINDEX3''"

definition snap_entry :: "string \<times> blob_location \<Rightarrow> bytes" where
  "snap_entry e =
     (let (key, loc) = e;
          key_bytes = as_bytes key;
          hash_bytes = as_bytes (blake3 loc);
          exp = (case expires_at loc of Some t \<Rightarrow> t | None \<Rightarrow> 0)
      in u32_to_le (word_of_nat (length key_bytes)) @ key_bytes @
         u64_to_le (shard loc) @ u64_to_le (offset loc) @ u64_to_le (blob_size loc) @
         u32_to_le (word_of_nat (length hash_bytes)) @ hash_bytes @ u64_to_le exp)"

definition save_snapshot :: "index \<Rightarrow> bytes" where
  "save_snapshot idx =
     SNAPSHOT_MAGIC @ u64_to_le (word_of_nat (length idx)) @ concat (map snap_entry idx)"

definition load_entry :: "bool \<Rightarrow> bytes \<Rightarrow> ((string \<times> blob_location) \<times> bytes) result" where
  "load_entry has_ttl r =
     rbind (read_io 4 r) (\<lambda>(key_len_bytes, r).
     rbind (read_io (unat (u32_from_le key_len_bytes)) r) (\<lambda>(key_bytes, r).
     case from_utf8 key_bytes of
       None \<Rightarrow> Inl (Corrupted ''Invalid UTF-8 in key'')
     | Some key \<Rightarrow>
       rbind (read_io 8 r) (\<lambda>(shard_bytes, r).
       rbind (read_io 8 r) (\<lambda>(offset_bytes, r).
       rbind (read_io 8 r) (\<lambda>(size_bytes, r).
       rbind (read_io 4 r) (\<lambda>(hash_len_bytes, r).
       rbind (read_io (unat (u32_from_le hash_len_bytes)) r) (\<lambda>(hash_bytes, r).
       case from_utf8 hash_bytes of
         None \<Rightarrow> Inl (Corrupted ''Invalid UTF-8 in hash'')
       | Some hash \<Rightarrow>
         rbind (if has_ttl
                then rbind (read_io 8 r) (\<lambda>(expires_bytes, r).
                       let ts = u64_from_le expires_bytes
                       in Inr (if ts = 0 then None else Some ts, r))
                else Inr (None, r)) (\<lambda>(exp, r).
         Inr ((key, \<lparr>shard = u64_from_le shard_bytes, offset = u64_from_le offset_bytes,
                    blob_size = u64_from_le size_bytes, blake3 = hash, expires_at = exp\<rparr>), r)))))))))"

fun load_entries :: "bool \<Rightarrow> nat \<Rightarrow> bytes \<Rightarrow> index \<Rightarrow> (index \<times> bytes) result" where
  "load_entries has_ttl 0 r idx = Inr (idx, r)"
| "load_entries has_ttl (Suc n) r idx =
     rbind (load_entry has_ttl r) (\<lambda>((key, loc), r).
       load_entries has_ttl n r (index_insert key loc idx))"

definition load_snapshot_rest :: "bytes \<Rightarrow> (index \<times> bytes) result" where
  "load_snapshot_rest r =
     rbind (read_io 8 r) (\<lambda>(magic, r).
       let has_ttl = (magic = as_bytes ''KVINDEX3'')
       in if magic \<noteq> as_bytes ''KVINDEX2'' \<and> \<not> has_ttl
          then Inl (Corrupted ''Invalid snapshot magic'')
          else rbind (read_io 8 r) (\<lambda>(num_entries_bytes, r).
                 load_entries has_ttl (unat (u64_from_le num_entries_bytes)) r index_new))"

text \<open>\<open>None\<close> is a snapshot file that does not exist; bytes after the last entry are ignored.\<close>

definition load_snapshot :: "bytes option \<Rightarrow> index result" where
  "load_snapshot file =
     (case file of
        None \<Rightarrow> Inl (Io IoNotFound)
      | Some r \<Rightarrow> rbind (load_snapshot_rest r) (\<lambda>(idx, _). Inr idx))"

section \<open>Lemmas on expiry\<close>

lemma is_expired_iff:
  "is_expired now idx key \<longleftrightarrow> (\<exists>loc. hm_get idx key = Some loc \<and> loc_expired now loc)"
  by (auto simp: is_expired_def loc_expired_def split: option.splits)

lemma get_if_valid_Some:
  "get_if_valid now idx key = Some loc \<longleftrightarrow> hm_get idx key = Some loc \<and> \<not> loc_expired now loc"
  by (auto simp: get_if_valid_def is_expired_iff)

lemma loc_expired_mono: "loc_expired now loc \<Longrightarrow> now \<le> later \<Longrightarrow> loc_expired later loc"
  by (auto simp: loc_expired_def split: option.splits)

lemma hm_get_fold_remove:
  "hm_get (fold hm_remove ks m) k = (if k \<in> set ks then None else hm_get m k)"
  by (induction ks arbitrary: m) auto

lemma cleanup_expired_get:
  assumes "hm_ok idx"
  shows "hm_get (snd (cleanup_expired now idx)) key = get_if_valid now idx key"
proof -
  have "key \<in> fst ` {x \<in> set idx. case x of (_, loc) \<Rightarrow> loc_expired now loc} \<longleftrightarrow> is_expired now idx key"
    using assms by (force simp: is_expired_iff hm_get_mem)
  then show ?thesis
    by (simp add: cleanup_expired_def Let_def hm_get_fold_remove get_if_valid_def)
qed

lemma fold_remove_filter: "fold hm_remove ks m = filter (\<lambda>(k, _). k \<notin> set ks) m"
proof (induction ks arbitrary: m)
  case (Cons k ks)
  have "filter (\<lambda>(k, _). k \<notin> set ks) (filter (\<lambda>(k', _). k \<noteq> k') m) = filter (\<lambda>(k', _). k' \<notin> set (k # ks)) m"
    unfolding filter_filter by (rule filter_cong) auto
  with Cons show ?case by (simp add: AList.delete_eq)
qed simp

lemma cleanup_expired_filter:
  assumes "hm_ok idx"
  shows "cleanup_expired now idx
           = (length (filter (\<lambda>(_, loc). loc_expired now loc) idx),
              filter (\<lambda>(_, loc). \<not> loc_expired now loc) idx)"
proof -
  have "filter (\<lambda>(k, _). k \<notin> set (map fst (filter (\<lambda>(_, loc). loc_expired now loc) idx))) idx
          = filter (\<lambda>(_, loc). \<not> loc_expired now loc) idx"
    using assms by (intro filter_cong [OF refl]) (force simp: hm_ok_def dest: eq_key_imp_eq_value)
  then show ?thesis by (simp add: cleanup_expired_def Let_def fold_remove_filter)
qed

lemma hm_ok_fold_remove [simp]: "hm_ok m \<Longrightarrow> hm_ok (fold hm_remove ks m)"
  by (induction ks arbitrary: m) auto

lemma cleanup_expired_ok [simp]: "hm_ok idx \<Longrightarrow> hm_ok (snd (cleanup_expired now idx))"
  by (simp add: cleanup_expired_def Let_def)

section \<open>Lemmas on snapshots\<close>

text \<open>
  What the format can represent: strings, 32-bit lengths, and no expiry time of zero,
  which is how the format writes that there is none.
\<close>

definition snap_ok :: "string \<times> blob_location \<Rightarrow> bool" where
  "snap_ok e \<longleftrightarrow> rust_string (fst e) \<and> length (fst e) < 2 ^ 32 \<and>
     rust_string (blake3 (snd e)) \<and> length (blake3 (snd e)) < 2 ^ 32 \<and> expires_at (snd e) \<noteq> Some 0"

definition snap_rd :: "bytes \<Rightarrow> ((string \<times> blob_location) \<times> bytes) option" where
  "snap_rd r = (case load_entry True r of Inr x \<Rightarrow> Some x | Inl _ \<Rightarrow> None)"

lemma load_entry_encode: "snap_ok e \<Longrightarrow> load_entry True (snap_entry e @ r) = Inr (e, r)"
  by (cases e) (auto simp: snap_ok_def snap_entry_def load_entry_def codec_simps Let_def split: option.splits)

lemma load_entry_SomeE:
  assumes "load_entry True r = Inr (e, r')"
  obtains kl kb k sh off sz hl hb h ex where
    "r = kl @ kb @ sh @ off @ sz @ hl @ hb @ ex @ r'"
    "length kl = 4" "length kb = unat (u32_from_le kl)" "from_utf8 kb = Some k"
    "length sh = 8" "length off = 8" "length sz = 8" "length hl = 4"
    "length hb = unat (u32_from_le hl)" "from_utf8 hb = Some h" "length ex = 8"
    "e = (k, \<lparr>shard = u64_from_le sh, offset = u64_from_le off, blob_size = u64_from_le sz,
             blake3 = h, expires_at = (if u64_from_le ex = 0 then None else Some (u64_from_le ex))\<rparr>)"
  using assms
  by (force simp: load_entry_def read_io_Inr rbind_eq_Inr Let_def split: option.splits prod.splits)

lemma load_entry_extend:
  "load_entry True r = Inr (e, r') \<Longrightarrow> load_entry True (r @ q) = Inr (e, r' @ q)"
  by (erule load_entry_SomeE) (simp add: load_entry_def codec_simps Let_def)

lemma load_entry_progress: "load_entry True r = Inr (e, r') \<Longrightarrow> length r' < length r"
  by (erule load_entry_SomeE) simp

lemma snap_rd_Some: "snap_rd r = Some x \<longleftrightarrow> load_entry True r = Inr x"
  by (auto simp: snap_rd_def split: sum.splits)

interpretation snap_log: record_log snap_entry snap_rd snap_ok
  by unfold_locales (simp_all add: snap_rd_Some load_entry_encode load_entry_extend load_entry_progress)

lemma load_entries_records:
  "list_all snap_ok es \<Longrightarrow>
     load_entries True (length es) (concat (map snap_entry es) @ r) idx
       = Inr (fold (\<lambda>(k, v). hm_insert k v) es idx, r)"
  by (induction es arbitrary: idx) (auto simp: load_entry_encode index_insert_def)

lemma load_entry_torn:
  assumes "snap_ok e" and "n < length (snap_entry e)"
  shows "\<not> is_ok (load_entry True (take n (snap_entry e)))"
proof -
  have "snap_rd (take n (snap_entry e)) = None"
    using snap_log.rd_torn [OF assms(1), of "take n (snap_entry e)" "drop n (snap_entry e)"] assms(2) by simp
  then show ?thesis by (auto simp: snap_rd_def is_ok_iff split: sum.splits)
qed

lemma load_entries_torn:
  "list_all snap_ok es \<Longrightarrow> n < length (concat (map snap_entry es)) \<Longrightarrow>
     \<not> is_ok (load_entries True (length es) (take n (concat (map snap_entry es))) idx)"
proof (induction es arbitrary: n idx)
  case (Cons e es)
  show ?case
  proof (cases "n < length (snap_entry e)")
    case True
    with Cons.prems load_entry_torn [of e n] show ?thesis
      by (auto simp: is_ok_iff rbind_eq_Inr)
  next
    case False
    with Cons show ?thesis
      by (cases e) (simp add: load_entry_encode)
  qed
qed simp

lemma length_magic [simp]: "length SNAPSHOT_MAGIC = 8"
  by (simp add: SNAPSHOT_MAGIC_def)

lemma load_snapshot_header:
  "n < 2 ^ 64 \<Longrightarrow> load_snapshot_rest (SNAPSHOT_MAGIC @ u64_to_le (word_of_nat n) @ r)
                 = load_entries True n r index_new"
  by (simp add: load_snapshot_rest_def codec_simps Let_def) (simp add: SNAPSHOT_MAGIC_def)

lemma load_saved_index:
  assumes "hm_ok idx" and "list_all snap_ok idx" and "length idx < 2 ^ 64"
  shows "load_snapshot (Some (save_snapshot idx)) = Inr idx"
  using assms load_entries_records [of idx "[]" index_new]
  by (simp add: load_snapshot_def save_snapshot_def load_snapshot_header index_new_def
      hm_ok_def hm_fold_insert_new)

section \<open>Properties\<close>

text \<open>
  C13. Snapshot round trip: an index whose keys and hashes are strings of representable
  length and that has no expiry time of zero is loaded from its snapshot as exactly the
  index that was saved, expiry times included, whatever order the map is iterated in.
\<close>

theorem snapshot_roundtrip:
  assumes "hm_ok idx" and "list_all snap_ok idx" and "length idx < 2 ^ 64"
  shows "load_snapshot (Some (save_snapshot idx)) = Inr idx"
  using assms by (rule load_saved_index)

theorem snapshot_roundtrip_witness:
  "load_snapshot (Some (save_snapshot
     [(''a'', \<lparr>shard = 1, offset = 2, blob_size = 3, blake3 = ''h'', expires_at = Some 9\<rparr>)]))
   = Inr [(''a'', \<lparr>shard = 1, offset = 2, blob_size = 3, blake3 = ''h'', expires_at = Some 9\<rparr>)]"
  using snapshot_roundtrip
    [of "[(''a'', \<lparr>shard = 1, offset = 2, blob_size = 3, blake3 = ''h'', expires_at = Some 9\<rparr>)]"]
  by (simp add: hm_ok_def snap_ok_def string_eval)

text \<open>
  C32. A truncated snapshot is refused: loading any proper prefix of a snapshot file fails
  with an error instead of yielding a smaller index.
\<close>

theorem snapshot_truncated_refused:
  assumes "list_all snap_ok idx" and "length idx < 2 ^ 64" and "n < length (save_snapshot idx)"
  shows "\<not> is_ok (load_snapshot (Some (take n (save_snapshot idx))))"
proof (cases "n < 16")
  case True
  then show ?thesis
    by (auto simp: load_snapshot_def load_snapshot_rest_def is_ok_iff rbind_eq_Inr read_io_Inr
        save_snapshot_def Let_def split: if_splits dest!: arg_cong [where f = length])
next
  case False
  let ?h = "SNAPSHOT_MAGIC @ u64_to_le (word_of_nat (length idx))"
  have "take n (save_snapshot idx) = ?h @ take (n - 16) (concat (map snap_entry idx))"
    using False by (simp add: save_snapshot_def)
  moreover have "n - 16 < length (concat (map snap_entry idx))"
    using assms(3) False by (simp add: save_snapshot_def)
  ultimately show ?thesis
    using load_entries_torn [OF assms(1), of "n - 16" index_new] assms(2)
    by (simp add: load_snapshot_def load_snapshot_header is_ok_iff rbind_eq_Inr)
qed

theorem snapshot_truncated_refused_witness:
  "\<not> is_ok (load_snapshot (Some (take 20 (save_snapshot
     [(''a'', \<lparr>shard = 1, offset = 2, blob_size = 3, blake3 = ''h'', expires_at = None\<rparr>)]))))"
  using snapshot_truncated_refused
    [of "[(''a'', \<lparr>shard = 1, offset = 2, blob_size = 3, blake3 = ''h'', expires_at = None\<rparr>)]" 20]
  by (simp add: snap_ok_def string_eval save_snapshot_def snap_entry_def)

text \<open>
  Cleaning up is invisible: removing the expired keys changes no lookup at that time
  or later, leaves no expired key behind, and reports how many keys went.
\<close>

theorem cleanup_expired_invisible:
  assumes "hm_ok idx" and "now \<le> later"
  shows "get_if_valid later (snd (cleanup_expired now idx)) key = get_if_valid later idx key \<and>
         \<not> is_expired now (snd (cleanup_expired now idx)) key \<and>
         fst (cleanup_expired now idx) = index_len idx - index_len (snd (cleanup_expired now idx))"
proof -
  have "get_if_valid later (snd (cleanup_expired now idx)) key = get_if_valid later idx key"
    using cleanup_expired_get [OF assms(1), of now key] loc_expired_mono [OF _ assms(2)]
    by (auto simp: get_if_valid_def is_expired_iff split: if_splits)
  moreover have "\<not> is_expired now (snd (cleanup_expired now idx)) key"
    using cleanup_expired_get [OF assms(1), of now key]
    by (auto simp: is_expired_iff get_if_valid_Some)
  moreover have "fst (cleanup_expired now idx) = index_len idx - index_len (snd (cleanup_expired now idx))"
    using sum_length_filter_compl [of "\<lambda>(_, loc). loc_expired now loc" idx]
    by (simp add: cleanup_expired_filter [OF assms(1)] index_len_def split_def)
  ultimately show ?thesis by blast
qed

theorem cleanup_expired_invisible_witness:
  "hm_ok [(''a'', \<lparr>shard = 0, offset = 0, blob_size = 1, blake3 = [], expires_at = Some 5\<rparr>)] \<and>
   (6 :: u64) \<le> 7 \<and>
   fst (cleanup_expired 6 [(''a'', \<lparr>shard = 0, offset = 0, blob_size = 1, blake3 = [], expires_at = Some 5\<rparr>)]) = 1"
  using cleanup_expired_invisible
    [of "[(''a'', \<lparr>shard = 0, offset = 0, blob_size = 1, blake3 = [], expires_at = Some 5\<rparr>)]" 6 7 "''a''"]
  by (simp add: hm_ok_def cleanup_expired_def loc_expired_def index_len_def)

end
