(* ===== verification/KvSpec.thy ===== *)
theory KvSpec
  imports Errors
begin

text \<open>
  What a volume's storage engine promises: a map from keys to contents with optional expiry
  times. The content of a key is what reading its value back answers, the bytes or an
  error; \<open>kept\<close> says which content a put value gets. A step of the specification relates
  an operation, its outcome and the maps before and after; a put may fail and then changes
  nothing. The locale \<open>kv_engine\<close> is
  the contract of an implementation (a forward simulation with a bound on how many
  operations it is guaranteed for), and its lemmas are what clients of an engine may
  rely on.
\<close>

section \<open>The specification\<close>

type_synonym kv_map = "string \<Rightarrow> (bytes result \<times> u64 option) option"

definition spec_expired :: "u64 \<Rightarrow> u64 option \<Rightarrow> bool" where
  "spec_expired now e = (case e of Some t \<Rightarrow> now > t | None \<Rightarrow> False)"

definition spec_get :: "u64 \<Rightarrow> kv_map \<Rightarrow> string \<Rightarrow> bytes option result" where
  "spec_get now m k =
     (case m k of Some (c, e) \<Rightarrow> if spec_expired now e then Inr None else map_sum id Some c | None \<Rightarrow> Inr None)"

definition spec_put :: "u64 \<Rightarrow> string \<Rightarrow> bytes result \<Rightarrow> u64 option \<Rightarrow> kv_map \<Rightarrow> kv_map" where
  "spec_put now k c ttl m = m(k \<mapsto> (c, map_option (\<lambda>t. now + t) ttl))"

definition spec_cleanup :: "u64 \<Rightarrow> kv_map \<Rightarrow> kv_map" where
  "spec_cleanup now m =
     (\<lambda>k. case m k of Some (v, e) \<Rightarrow> if spec_expired now e then None else Some (v, e) | None \<Rightarrow> None)"

datatype kv_op =
    KvPut string bytes "u64 option"
  | KvGet string
  | KvDelete string
  | KvCleanup

datatype kv_out = OutUnit "unit result" | OutValue "bytes option result" | OutCount nat

fun op_writes :: "kv_op \<Rightarrow> string \<Rightarrow> bool" where
  "op_writes (KvPut k v ttl) k' \<longleftrightarrow> k = k'"
| "op_writes (KvDelete k) k' \<longleftrightarrow> k = k'"
| "op_writes (KvGet k) k' \<longleftrightarrow> False"
| "op_writes KvCleanup k' \<longleftrightarrow> False"

inductive spec_step :: "(bytes \<Rightarrow> bytes result) \<Rightarrow> u64 \<Rightarrow> kv_op \<Rightarrow> kv_map \<Rightarrow> kv_out \<Rightarrow> kv_map \<Rightarrow> bool"
  for kept :: "bytes \<Rightarrow> bytes result" where
  put_ok: "spec_step kept now (KvPut k v ttl) m (OutUnit (Inr ())) (spec_put now k (kept v) ttl m)"
| put_failed: "spec_step kept now (KvPut k v ttl) m (OutUnit (Inl e)) m"
| get_step: "spec_step kept now (KvGet k) m (OutValue (spec_get now m k)) m"
| delete_step: "spec_step kept now (KvDelete k) m (OutUnit (Inr ())) (m(k := None))"
| cleanup_step:
    "spec_step kept now KvCleanup m
       (OutCount (card {k. \<exists>v e. m k = Some (v, e) \<and> spec_expired now e})) (spec_cleanup now m)"

inductive_cases spec_step_PutE: "spec_step kept now (KvPut k v ttl) m out m'"
inductive_cases spec_step_GetE: "spec_step kept now (KvGet k) m out m'"
inductive_cases spec_step_DeleteE: "spec_step kept now (KvDelete k) m out m'"
inductive_cases spec_step_CleanupE: "spec_step kept now KvCleanup m out m'"

text \<open>Runs: each operation comes with the time at which it is executed.\<close>

inductive spec_trace ::
  "(bytes \<Rightarrow> bytes result) \<Rightarrow> kv_map \<Rightarrow> (u64 \<times> kv_op) list \<Rightarrow> kv_out list \<Rightarrow> kv_map \<Rightarrow> bool"
  for kept :: "bytes \<Rightarrow> bytes result" where
  trace_Nil: "spec_trace kept m [] [] m"
| trace_Cons:
    "spec_step kept now op m out m' \<Longrightarrow> spec_trace kept m' ops outs m'' \<Longrightarrow>
       spec_trace kept m ((now, op) # ops) (out # outs) m''"

fun run_ops ::
  "(u64 \<Rightarrow> kv_op \<Rightarrow> 's \<Rightarrow> kv_out \<times> 's) \<Rightarrow> (u64 \<times> kv_op) list \<Rightarrow> 's \<Rightarrow> kv_out list \<times> 's" where
  "run_ops step [] s = ([], s)"
| "run_ops step ((now, op) # ops) s =
     (let (out, s') = step now op s; (outs, s'') = run_ops step ops s' in (out # outs, s''))"

section \<open>Lemmas on the specification\<close>

text \<open>A step leaves alone every key it does not write, except that an expired key may vanish.\<close>

lemma spec_step_frame:
  assumes "spec_step kept now op m out m'" and "\<not> op_writes op k"
  shows "m' k = m k \<or> (m' k = None \<and> (\<exists>v e. m k = Some (v, e) \<and> spec_expired now e))"
  using assms by cases (auto simp: spec_put_def spec_cleanup_def split: option.splits)

lemma spec_trace_persist:
  assumes "spec_trace kept m ops outs m'" and "m k = Some (v, None)"
    and "\<forall>(now, op) \<in> set ops. \<not> op_writes op k"
  shows "m' k = Some (v, None)"
  using assms
proof (induction rule: spec_trace.induct)
  case (trace_Cons now op m out m1 ops outs m2)
  then have "m1 k = Some (v, None)"
    using spec_step_frame [of kept now op m out m1 k] by (auto simp: spec_expired_def)
  with trace_Cons show ?case by auto
qed simp

lemma spec_trace_persist_ttl:
  assumes "spec_trace kept m ops outs m'" and "m k = Some (v, Some t)"
    and "\<forall>(now, op) \<in> set ops. \<not> op_writes op k \<and> now \<le> t"
  shows "m' k = Some (v, Some t)"
  using assms
proof (induction rule: spec_trace.induct)
  case (trace_Cons now op m out m1 ops outs m2)
  then have "m1 k = Some (v, Some t)"
    using spec_step_frame [of kept now op m out m1 k] by (auto simp: spec_expired_def)
  with trace_Cons show ?case by auto
qed simp

lemma spec_trace_absent:
  assumes "spec_trace kept m ops outs m'" and "m k = None"
    and "\<forall>(now, op) \<in> set ops. \<not> op_writes op k"
  shows "m' k = None"
  using assms
proof (induction rule: spec_trace.induct)
  case (trace_Cons now op m out m1 ops outs m2)
  then have "m1 k = None"
    using spec_step_frame [of kept now op m out m1 k] by auto
  with trace_Cons show ?case by auto
qed simp

section \<open>The contract of an engine\<close>

locale kv_engine =
  fixes step :: "u64 \<Rightarrow> kv_op \<Rightarrow> 's \<Rightarrow> kv_out \<times> 's"
    and inv :: "'s \<Rightarrow> bool"
    and room :: "'s \<Rightarrow> nat"
    and ok :: "kv_op \<Rightarrow> bool"
    and kept :: "bytes \<Rightarrow> bytes result"
    and abs_map :: "'s \<Rightarrow> kv_map"
  assumes step_simulates:
    "inv s \<Longrightarrow> ok op \<Longrightarrow> 0 < room s \<Longrightarrow> step now op s = (out, s') \<Longrightarrow>
       inv s' \<and> room s \<le> Suc (room s') \<and> spec_step kept now op (abs_map s) out (abs_map s')"
begin

lemma run_simulates:
  assumes "inv s" and "list_all (\<lambda>(now, op). ok op) ops" and "length ops \<le> room s"
    and "run_ops step ops s = (outs, s')"
  shows "inv s' \<and> room s \<le> room s' + length ops \<and> spec_trace kept (abs_map s) ops outs (abs_map s')"
  using assms
proof (induction ops arbitrary: s outs s')
  case Nil
  then show ?case by (auto intro: spec_trace.intros)
next
  case (Cons x ops)
  obtain now op where x: "x = (now, op)" by fastforce
  obtain out s1 where s1: "step now op s = (out, s1)" by fastforce
  obtain outs' s2 where s2: "run_ops step ops s1 = (outs', s2)" by fastforce
  have 1: "inv s1" "room s \<le> Suc (room s1)" "spec_step kept now op (abs_map s) out (abs_map s1)"
    using step_simulates [OF Cons.prems(1) _ _ s1] Cons.prems(2,3) x by auto
  then have "inv s2 \<and> room s1 \<le> room s2 + length ops \<and> spec_trace kept (abs_map s1) ops outs' (abs_map s2)"
    using Cons.IH [OF _ _ _ s2] Cons.prems(2,3) x by auto
  then show ?case
    using 1 Cons.prems(4) x s1 s2 by (auto intro: spec_trace.intros)
qed

text \<open>Read your writes: a value is returned until the key is written again or expires.\<close>

lemma get_after_run:
  assumes "inv s" and "abs_map s k = Some (v, e)" and "ok (KvGet k)"
    and "list_all (\<lambda>(now, op). ok op \<and> \<not> op_writes op k \<and> \<not> spec_expired now e) ops"
    and "length ops < room s" and "run_ops step ops s = (outs, s')"
    and "\<not> spec_expired now e"
  shows "fst (step now (KvGet k) s') = OutValue (map_sum id Some v)"
proof -
  have r: "inv s'" "room s \<le> room s' + length ops" "spec_trace kept (abs_map s) ops outs (abs_map s')"
    using run_simulates [OF assms(1) _ _ assms(6)] assms(4,5) by (auto simp: list_all_iff)
  have m: "abs_map s' k = Some (v, e)"
  proof (cases e)
    case None
    then show ?thesis
      using spec_trace_persist [OF r(3), of k v] assms(2,4) by (auto simp: list_all_iff)
  next
    case (Some t)
    then show ?thesis
      using spec_trace_persist_ttl [OF r(3), of k v t] assms(2,4)
      by (auto simp: list_all_iff spec_expired_def not_less)
  qed
  obtain out s2 where s2: "step now (KvGet k) s' = (out, s2)" by fastforce
  have "spec_step kept now (KvGet k) (abs_map s') out (abs_map s2)"
    using step_simulates [OF r(1) assms(3) _ s2] r(2) assms(5) by auto
  then show ?thesis
    using s2 m assms(7) by (auto simp: spec_get_def elim!: spec_step_GetE)
qed

lemma get_absent_after_run:
  assumes "inv s" and "abs_map s k = None" and "ok (KvGet k)"
    and "list_all (\<lambda>(now, op). ok op \<and> \<not> op_writes op k) ops"
    and "length ops < room s" and "run_ops step ops s = (outs, s')"
  shows "fst (step now (KvGet k) s') = OutValue (Inr None)"
proof -
  have r: "inv s'" "room s \<le> room s' + length ops" "spec_trace kept (abs_map s) ops outs (abs_map s')"
    using run_simulates [OF assms(1) _ _ assms(6)] assms(4,5) by (auto simp: list_all_iff)
  have m: "abs_map s' k = None"
    using spec_trace_absent [OF r(3), of k] assms(2,4) by (auto simp: list_all_iff)
  obtain out s2 where s2: "step now (KvGet k) s' = (out, s2)" by fastforce
  have "spec_step kept now (KvGet k) (abs_map s') out (abs_map s2)"
    using step_simulates [OF r(1) assms(3) _ s2] r(2) assms(5) by auto
  then show ?thesis
    using s2 m by (auto simp: spec_get_def elim!: spec_step_GetE)
qed

end

end
