(* ===== verification/BlobStore.thy ===== *)
theory BlobStore
  imports Wal VolIndex KvSpec
begin

text \<open>
  \<open>src/src/volume/blob.rs\<close>: the storage engine of a volume. A \<open>BlobStore\<close> appends
  records to numbered segment files, keeps an index of their places and a Bloom filter,
  and logs every operation first. The crates it calls (\<open>crc32fast\<close>, \<open>blake3\<close>,
  \<open>hex\<close>, \<open>bloomfilter\<close>, \<open>lz4\<close>) are the fields of the record \<open>ext\<close>, an
  argument of every operation that uses them. The directory tree is a map from paths to
  file contents; its list order is the order in which \<open>read_dir\<close> delivers the files.
  Operating-system calls succeed, except where their documented behaviour makes them
  fail whatever the disk does. The clock is the argument \<open>now\<close>.
\<close>

section \<open>The crates the engine calls\<close>

record 'b ext =
  crc32_hash :: "bytes \<Rightarrow> u32"
  blake3_digest :: "bytes \<Rightarrow> bytes"
  hash_display :: "bytes \<Rightarrow> string"
  hex_decode :: "string \<Rightarrow> bytes option"
  bloom_new :: 'b
  bloom_set :: "bytes \<Rightarrow> 'b \<Rightarrow> 'b"
  bloom_check :: "'b \<Rightarrow> bytes \<Rightarrow> bool"
  bloom_to_bytes :: "'b \<Rightarrow> bytes"
  bloom_from_bytes :: "bytes \<Rightarrow> 'b option"
  lz4_compress :: "bytes \<Rightarrow> bool \<Rightarrow> bytes option"
  lz4_decompress :: "bytes \<Rightarrow> int option \<Rightarrow> bytes option"

text \<open>A Bloom filter has no false negatives and its serialised form restores it.\<close>

definition bloom_laws :: "'b ext \<Rightarrow> bool" where
  "bloom_laws E \<longleftrightarrow>
     (\<forall>h b. bloom_check E (bloom_set E h b) h) \<and>
     (\<forall>h h' b. bloom_check E b h \<longrightarrow> bloom_check E (bloom_set E h' b) h) \<and>
     (\<forall>b. bloom_from_bytes E (bloom_to_bytes E b) = Some b)"

text \<open>The printed form of a hash is a string of representable length (64 hexadecimal digits).\<close>

definition hash_laws :: "'b ext \<Rightarrow> bool" where
  "hash_laws E \<longleftrightarrow> (\<forall>d. rust_string (hash_display E d) \<and> length (hash_display E d) = 64)"

definition blake3_hash :: "'b ext \<Rightarrow> bytes \<Rightarrow> string" where
  "blake3_hash E d = hash_display E (blake3_digest E d)"

text \<open>What the Bloom filter sees of a key: its hash, or zeros where the hash is not 32 bytes.\<close>

definition key_hash_bytes :: "'b ext \<Rightarrow> string \<Rightarrow> bytes" where
  "key_hash_bytes E key =
     (let hash = blake3_hash E (as_bytes key);
          hash_vec = (case hex_decode E hash of Some v \<Rightarrow> v | None \<Rightarrow> replicate 32 0)
      in if length hash_vec = 32 then hash_vec else replicate 32 0)"

section \<open>Data\<close>

definition BLOB_MAGIC :: bytes where
  "BLOB_MAGIC = [0x42, 0x4C, 0x4F, 0x42]"

definition BLOB_MAGIC_COMPRESSED :: bytes where
  "BLOB_MAGIC_COMPRESSED = [0x42, 0x4C, 0x4F, 0x43]"

definition SEGMENT_SIZE :: u64 where
  "SEGMENT_SIZE = 64 * 1024 * 1024"

definition MAX_SEGMENTS :: u64 where
  "MAX_SEGMENTS = 1000"

definition COMPRESSION_THRESHOLD :: nat where
  "COMPRESSION_THRESHOLD = 128"

datatype compression_mode = NoCompression | Lz4

type_synonym path = "string list"
type_synonym fs = "(path, bytes) hashmap"

record store_stats =
  total_keys :: nat
  total_bytes :: u64
  active_segments :: u64
  index_size :: nat
  bloom_false_positives :: u64
  stats_keys_with_ttl :: nat
  compressed_blobs :: u64

record 'b blob_store =
  data_path :: path
  store_index :: index
  bloom :: 'b
  store_wal :: wal
  current_segment :: u64
  current_offset :: u64
  sync_policy :: wal_sync_policy
  compression :: compression_mode
  files :: fs

section \<open>Segment files\<close>

definition segment_path :: "path \<Rightarrow> u64 \<Rightarrow> path" where
  "segment_path base segment =
     base @ [pad0 2 (show_nat (unat (segment mod 100))),
             pad0 2 (show_nat (unat (segment div 100))),
             ''seg_'' @ pad0 4 (show_nat (unat segment)) @ ''.blob'']"

text \<open>
  A write at a position of a file: what lies under it is overwritten, a gap between the
  end of the file and the position reads as zeros.
\<close>

definition write_at :: "nat \<Rightarrow> bytes \<Rightarrow> bytes \<Rightarrow> bytes" where
  "write_at pos d c = take pos c @ replicate (pos - length c) 0 @ d @ drop (pos + length d) c"

definition file_content :: "fs \<Rightarrow> path \<Rightarrow> bytes" where
  "file_content fs p = (case hm_get fs p of Some c \<Rightarrow> c | None \<Rightarrow> [])"

definition blob_checksum_data :: "string \<Rightarrow> bytes \<Rightarrow> nat \<Rightarrow> bytes" where
  "blob_checksum_data key write_value orig_len =
     u32_to_le (word_of_nat (length key)) @ u64_to_le (word_of_nat (length write_value)) @
     u64_to_le (word_of_nat orig_len) @ as_bytes key @ write_value"

definition compress_value :: "'b ext \<Rightarrow> compression_mode \<Rightarrow> bytes \<Rightarrow> bytes \<times> bool" where
  "compress_value E mode value =
     (if mode = Lz4 \<and> length value \<ge> COMPRESSION_THRESHOLD
      then (case lz4_compress E value True of
              Some c \<Rightarrow> if length c < length value then (c, True) else (value, False)
            | None \<Rightarrow> (value, False))
      else (value, False))"

definition blob_record :: "'b ext \<Rightarrow> bool \<Rightarrow> string \<Rightarrow> bytes \<Rightarrow> nat \<Rightarrow> bytes" where
  "blob_record E is_compressed key write_value orig_len =
     (let magic = (if is_compressed then BLOB_MAGIC_COMPRESSED else BLOB_MAGIC);
          checksum_data = blob_checksum_data key write_value orig_len
      in magic @ checksum_data @ u32_to_le (crc32_hash E checksum_data))"

definition write_blob_to_segment ::
  "'b ext \<Rightarrow> compression_mode \<Rightarrow> path \<Rightarrow> u64 \<Rightarrow> u64 \<Rightarrow> string \<Rightarrow> bytes \<Rightarrow> fs \<Rightarrow>
     (blob_location \<times> u64) \<times> fs" where
  "write_blob_to_segment E mode base_path segment off key value fs =
     (let segment_file = segment_path base_path segment;
          (write_value, is_compressed) = compress_value E mode value;
          rec = blob_record E is_compressed key write_value (length value);
          fs' = hm_insert segment_file
                  (write_at (unat off) rec (file_content fs segment_file)) fs;
          bytes_written = 4 + 4 + 8 + 8 + word_of_nat (length key) + word_of_nat (length write_value) + 4
      in ((\<lparr>shard = segment, offset = off, blob_size = word_of_nat (length value),
            blake3 = blake3_hash E value, expires_at = None\<rparr>, bytes_written), fs'))"

definition write_blob ::
  "'b ext \<Rightarrow> string \<Rightarrow> bytes \<Rightarrow> 'b blob_store \<Rightarrow> blob_location result \<times> 'b blob_store" where
  "write_blob E key value s =
     (let roll = current_offset s > SEGMENT_SIZE;
          s = (if roll then s\<lparr>current_segment := current_segment s + 1, current_offset := 0\<rparr> else s)
      in if roll \<and> current_segment s \<ge> MAX_SEGMENTS
         then (Inl (Internal ''Max segments reached''), s)
         else (case write_blob_to_segment E (compression s) (data_path s) (current_segment s)
                      (current_offset s) key value (files s) of
                 ((location, bytes_written), fs) \<Rightarrow>
                   (Inr location, s\<lparr>files := fs, current_offset := offset location + bytes_written\<rparr>)))"

text \<open>
  Reading a record: the reader is the rest of the file from the record's offset on.
  The texts of the two checksums are printed with \<open>hex8\<close>, eight hexadecimal digits.
\<close>

definition hex_digit :: "nat \<Rightarrow> char" where
  "hex_digit d = char_of (if d < 10 then 48 + d else 87 + d)"

fun hex_fixed :: "nat \<Rightarrow> nat \<Rightarrow> string" where
  "hex_fixed 0 n = []"
| "hex_fixed (Suc w) n = hex_fixed w (n div 16) @ [hex_digit (n mod 16)]"

definition hex8 :: "u32 \<Rightarrow> string" where
  "hex8 w = hex_fixed 8 (unat w)"

definition i32_of_u64 :: "u64 \<Rightarrow> int" where
  "i32_of_u64 w = sint (ucast w :: 32 word)"

definition read_record :: "'b ext \<Rightarrow> bytes \<Rightarrow> bytes option result" where
  "read_record E r =
     rbind (read_io 4 r) (\<lambda>(magic, r).
       let is_compressed = (magic = BLOB_MAGIC_COMPRESSED)
       in if magic \<noteq> BLOB_MAGIC \<and> \<not> is_compressed then Inl (Corrupted ''Invalid blob magic'')
          else rbind (read_io 4 r) (\<lambda>(key_len_bytes, r).
            rbind (read_io 8 r) (\<lambda>(val_len_bytes, r).
            rbind (read_io 8 r) (\<lambda>(orig_len_bytes, r).
            rbind (read_io (unat (u32_from_le key_len_bytes)) r) (\<lambda>(key_bytes, r).
            rbind (read_io (unat (u64_from_le val_len_bytes)) r) (\<lambda>(value, r).
            rbind (read_io 4 r) (\<lambda>(checksum_bytes, r).
              let stored_checksum = u32_from_le checksum_bytes;
                  computed_checksum = crc32_hash E
                    (key_len_bytes @ val_len_bytes @ orig_len_bytes @ key_bytes @ value)
              in if computed_checksum \<noteq> stored_checksum
                 then Inl (ChecksumMismatch (hex8 stored_checksum) (hex8 computed_checksum))
                 else if is_compressed
                 then (case lz4_decompress E value (Some (i32_of_u64 (u64_from_le orig_len_bytes))) of
                         Some d \<Rightarrow> Inr (Some d)
                       | None \<Rightarrow> Inl (Corrupted ''LZ4 decompression failed''))
                 else Inr (Some value))))))))"

definition read_blob :: "'b ext \<Rightarrow> 'b blob_store \<Rightarrow> blob_location \<Rightarrow> bytes option result" where
  "read_blob E s location =
     (case hm_get (files s) (segment_path (data_path s) (shard location)) of
        None \<Rightarrow> Inr None
      | Some c \<Rightarrow> read_record E (drop (unat (offset location)) c))"

section \<open>Operations\<close>

definition put_with_ttl ::
  "'b ext \<Rightarrow> u64 \<Rightarrow> string \<Rightarrow> bytes \<Rightarrow> u64 option \<Rightarrow> 'b blob_store \<Rightarrow>
     unit result \<times> 'b blob_store" where
  "put_with_ttl E now key value ttl_ms s =
     (let s = s\<lparr>store_wal := snd (append_put (crc32_hash E) key value (store_wal s))\<rparr>;
          s = s\<lparr>bloom := bloom_set E (key_hash_bytes E key) (bloom s)\<rparr>
      in case write_blob E key value s of
           (Inl e, s) \<Rightarrow> (Inl e, s)
         | (Inr location, s) \<Rightarrow>
             let location = (case ttl_ms of
                               Some ttl \<Rightarrow> location\<lparr>expires_at := Some (now + ttl)\<rparr>
                             | None \<Rightarrow> location)
             in (Inr (), s\<lparr>store_index := index_insert key location (store_index s)\<rparr>))"

definition put :: "'b ext \<Rightarrow> u64 \<Rightarrow> string \<Rightarrow> bytes \<Rightarrow> 'b blob_store \<Rightarrow> unit result \<times> 'b blob_store" where
  "put E now key value s = put_with_ttl E now key value None s"

definition get :: "'b ext \<Rightarrow> u64 \<Rightarrow> 'b blob_store \<Rightarrow> string \<Rightarrow> bytes option result" where
  "get E now s key =
     (if \<not> bloom_check E (bloom s) (key_hash_bytes E key) then Inr None
      else (case get_if_valid now (store_index s) key of
              Some loc \<Rightarrow> read_blob E s loc
            | None \<Rightarrow> Inr None))"

definition delete :: "'b ext \<Rightarrow> string \<Rightarrow> 'b blob_store \<Rightarrow> unit result \<times> 'b blob_store" where
  "delete E key s =
     (let s = s\<lparr>store_wal := snd (append_delete (crc32_hash E) key (store_wal s))\<rparr>
      in (Inr (), s\<lparr>store_index := snd (index_remove key (store_index s))\<rparr>))"

definition save_store_snapshot :: "'b ext \<Rightarrow> 'b blob_store \<Rightarrow> 'b blob_store" where
  "save_store_snapshot E s =
     (let fs = hm_insert (data_path s @ [''index.snap'']) (save_snapshot (store_index s)) (files s)
      in s\<lparr>files := hm_insert (data_path s @ [''bloom.filter'']) (bloom_to_bytes E (bloom s)) fs\<rparr>)"

definition store_cleanup_expired :: "u64 \<Rightarrow> 'b blob_store \<Rightarrow> nat \<times> 'b blob_store" where
  "store_cleanup_expired now s =
     (let (n, idx) = cleanup_expired now (store_index s) in (n, s\<lparr>store_index := idx\<rparr>))"

definition get_ttl :: "u64 \<Rightarrow> 'b blob_store \<Rightarrow> string \<Rightarrow> u64 option" where
  "get_ttl now s key =
     (case index_get (store_index s) key of
        Some loc \<Rightarrow>
          (case expires_at loc of
             Some exp \<Rightarrow> if now < exp then Some (exp - now) else None
           | None \<Rightarrow> None)
      | None \<Rightarrow> None)"

definition store_exists :: "u64 \<Rightarrow> 'b blob_store \<Rightarrow> string \<Rightarrow> bool" where
  "store_exists now s key \<longleftrightarrow> get_if_valid now (store_index s) key \<noteq> None"

definition set_compression :: "compression_mode \<Rightarrow> 'b blob_store \<Rightarrow> 'b blob_store" where
  "set_compression mode s = s\<lparr>compression := mode\<rparr>"

definition stats :: "'b blob_store \<Rightarrow> store_stats" where
  "stats s =
     \<lparr>total_keys = index_len (store_index s),
      total_bytes = sum_list (map (\<lambda>(_, loc). blob_size loc) (store_index s)),
      active_segments = current_segment s + 1,
      index_size = index_len (store_index s),
      bloom_false_positives = 0,
      stats_keys_with_ttl = length (keys_with_ttl (store_index s)),
      compressed_blobs = 0\<rparr>"

text \<open>
  Renaming a directory moves every file below it. POSIX refuses, with \<open>EINVAL\<close>, to make
  a directory a subdirectory of itself.
\<close>

definition is_prefix :: "path \<Rightarrow> path \<Rightarrow> bool" where
  "is_prefix p q \<longleftrightarrow> take (length p) q = p"

definition rename_dir :: "path \<Rightarrow> path \<Rightarrow> fs \<Rightarrow> fs result" where
  "rename_dir src dst fs =
     (if is_prefix src dst \<and> src \<noteq> dst then Inl (Io InvalidInput)
      else Inr (map (\<lambda>(p, c). if is_prefix src p then (dst @ drop (length src) p, c) else (p, c)) fs))"

definition remove_dir_all :: "path \<Rightarrow> fs \<Rightarrow> fs" where
  "remove_dir_all d fs = filter (\<lambda>(p, _). \<not> is_prefix d p) fs"

fun compact_loop ::
  "'b ext \<Rightarrow> path \<Rightarrow> index \<Rightarrow> index \<times> u64 \<times> u64 \<Rightarrow> 'b blob_store \<Rightarrow> (index \<times> u64 \<times> u64) \<times> 'b blob_store" where
  "compact_loop E temp_path [] acc s = (acc, s)"
| "compact_loop E temp_path ((key, old_location) # es) (new_index, new_segment, new_offset) s =
     (case read_blob E s old_location of
        Inr (Some value) \<Rightarrow>
          (case write_blob_to_segment E (compression s) temp_path new_segment new_offset key value (files s) of
             ((location, bytes_written), fs) \<Rightarrow>
               let new_index = index_insert key location new_index;
                   new_offset = new_offset + bytes_written;
                   roll = new_offset > SEGMENT_SIZE
               in compact_loop E temp_path es
                    (new_index, if roll then new_segment + 1 else new_segment, if roll then 0 else new_offset)
                    (s\<lparr>files := fs\<rparr>))
      | _ \<Rightarrow> compact_loop E temp_path es (new_index, new_segment, new_offset) s)"

definition compact :: "'b ext \<Rightarrow> 'b blob_store \<Rightarrow> unit result \<times> 'b blob_store" where
  "compact E s =
     (let temp_path = data_path s @ [''compact_temp''];
          ((new_index, new_segment, new_offset), s) =
            compact_loop E temp_path (store_index s) (index_new, 0, 0) s;
          backup_path = data_path s @ [''compact_backup'']
      in case rename_dir (data_path s) backup_path (files s) of
           Inl e \<Rightarrow> (Inl e, s)
         | Inr fs \<Rightarrow>
             (case rename_dir temp_path (data_path s) fs of
                Inl e \<Rightarrow> (Inl e, s\<lparr>files := fs\<rparr>)
              | Inr fs \<Rightarrow>
                  let s = s\<lparr>files := fs, store_index := new_index,
                            current_segment := new_segment, current_offset := new_offset\<rparr>;
                      s = save_store_snapshot E s;
                      s = s\<lparr>store_wal := Wal.truncate (store_wal s)\<rparr>
                  in (Inr (), s\<lparr>files := remove_dir_all backup_path (files s)\<rparr>)))"

section \<open>Names of segment files\<close>

lemma digits_no_dot: "CHR ''.'' \<notin> set (pad0 w (show_nat n))"
  using pad0_show_nat_digits by (force simp: digit_val_def)

lemma segment_path_inject [simp]: "segment_path base s = segment_path base t \<longleftrightarrow> s = t"
proof
  assume "segment_path base s = segment_path base t"
  then have "pad0 4 (show_nat (unat s)) = pad0 4 (show_nat (unat t))"
    by (simp add: segment_path_def)
  then have "parse_u64 (pad0 4 (show_nat (unat s))) = parse_u64 (pad0 4 (show_nat (unat t)))"
    by simp
  then show "s = t" by simp
qed simp

lemma segment_path_not_top [simp]: "segment_path base s \<noteq> base @ [n]" "base @ [n] \<noteq> segment_path base s"
  by (simp_all add: segment_path_def)

section \<open>Writing at a position\<close>

lemma write_at_new: "drop pos (write_at pos d c) = d @ drop (pos + length d) c"
proof -
  have "length (take pos c @ replicate (pos - length c) 0) = pos" by simp
  then show ?thesis unfolding write_at_def
    by (metis append.assoc append_eq_conv_conj)
qed

lemma write_at_keep:
  assumes "drop p c = xs @ r" and "p + length xs \<le> pos" and "xs \<noteq> []"
  shows "\<exists>r'. drop p (write_at pos d c) = xs @ r'"
proof -
  have p: "p < length c" using assms by (metis drop_eq_Nil append_is_Nil_conv not_less)
  then have "drop p (write_at pos d c)
     = drop p (take pos c) @ replicate (pos - length c) 0 @ d @ drop (pos + length d) c"
    using assms(2) by (simp add: write_at_def)
  moreover have "drop p (take pos c) = xs @ take (pos - p - length xs) r"
    using assms(1,2) by (simp add: drop_take)
  ultimately show ?thesis by simp
qed

lemma length_write_at: "length (write_at pos d c) = max (pos + length d) (length c)"
  by (simp add: write_at_def)

section \<open>The record format\<close>

lemma length_BLOB_MAGIC [simp]: "length BLOB_MAGIC = 4" "length BLOB_MAGIC_COMPRESSED = 4"
  by (simp_all add: BLOB_MAGIC_def BLOB_MAGIC_COMPRESSED_def)

lemma BLOB_MAGIC_distinct [simp]: "BLOB_MAGIC \<noteq> BLOB_MAGIC_COMPRESSED" "BLOB_MAGIC_COMPRESSED \<noteq> BLOB_MAGIC"
  by (simp_all add: BLOB_MAGIC_def BLOB_MAGIC_COMPRESSED_def)

lemma length_blob_record [simp]: "length (blob_record E z key v n) = 28 + length key + length v"
  by (simp add: blob_record_def blob_checksum_data_def Let_def)

text \<open>What a record holds when it is read back: the value, or what decompressing it gives.\<close>

definition lz4_content :: "'b ext \<Rightarrow> bytes \<Rightarrow> nat \<Rightarrow> bytes result" where
  "lz4_content E c n =
     (case lz4_decompress E c (Some (i32_of_u64 (word_of_nat n))) of
        Some d \<Rightarrow> Inr d | None \<Rightarrow> Inl (Corrupted ''LZ4 decompression failed''))"

definition record_content :: "'b ext \<Rightarrow> bool \<Rightarrow> bytes \<Rightarrow> nat \<Rightarrow> bytes result" where
  "record_content E z wv n = (if z then lz4_content E wv n else Inr wv)"

lemma read_record_content:
  assumes "length key < 2 ^ 32" and "length wv < 2 ^ 64"
  shows "read_record E (blob_record E z key wv n @ r) = map_sum id Some (record_content E z wv n)"
  using assms
  by (cases z) (simp_all add: read_record_def blob_record_def blob_checksum_data_def codec_simps Let_def
      record_content_def lz4_content_def split: option.splits)

text \<open>
  What a get answers for a value that was put, written out: the value itself, unless the
  mode is LZ4, the value has at least 128 bytes and its compressed form is shorter; then
  what the decoder makes of the stored bytes and the size of the value.
\<close>

definition read_back :: "'b ext \<Rightarrow> compression_mode \<Rightarrow> bytes \<Rightarrow> bytes result" where
  "read_back E mode v =
     (case (if mode = Lz4 \<and> 128 \<le> length v then lz4_compress E v True else None) of
        None \<Rightarrow> Inr v
      | Some c \<Rightarrow> if length c < length v then lz4_content E c (length v) else Inr v)"

lemma compress_value_content:
  assumes "compress_value E mode v = (wv, z)"
  shows "record_content E z wv (length v) = read_back E mode v" and "length wv \<le> length v"
  using assms
  by (auto simp: compress_value_def record_content_def read_back_def COMPRESSION_THRESHOLD_def
      split: if_splits option.splits)

lemma read_back_plain [simp]:
  "read_back E NoCompression v = Inr v" "length v < 128 \<Longrightarrow> read_back E mode v = Inr v"
  by (simp_all add: read_back_def)

section \<open>The invariant\<close>

text \<open>
  The record of a key lies wholly below the position of the next write, so that no later
  write touches it.
\<close>

definition record_at ::
  "'b ext \<Rightarrow> 'b blob_store \<Rightarrow> string \<Rightarrow> bool \<Rightarrow> bytes \<Rightarrow> nat \<Rightarrow> blob_location \<Rightarrow> bool" where
  "record_at E s key z wv n loc \<longleftrightarrow>
     length key < 2 ^ 32 \<and> length wv < 2 ^ 63 \<and>
     (\<exists>c r. hm_get (files s) (segment_path (data_path s) (shard loc)) = Some c \<and>
            drop (unat (offset loc)) c = blob_record E z key wv n @ r) \<and>
     (shard loc < current_segment s \<or>
      shard loc = current_segment s \<and>
      unat (offset loc) + 28 + length key + length wv \<le> unat (current_offset s))"

definition blob_at :: "'b ext \<Rightarrow> 'b blob_store \<Rightarrow> string \<Rightarrow> bytes result \<Rightarrow> blob_location \<Rightarrow> bool" where
  "blob_at E s key content loc \<longleftrightarrow>
     (\<exists>z wv n. record_at E s key z wv n loc \<and> content = record_content E z wv n)"

definition store_inv :: "'b ext \<Rightarrow> 'b blob_store \<Rightarrow> bool" where
  "store_inv E s \<longleftrightarrow>
     hm_ok (store_index s) \<and>
     (\<forall>key loc. hm_get (store_index s) key = Some loc \<longrightarrow>
        bloom_check E (bloom s) (key_hash_bytes E key) \<and> (\<exists>content. blob_at E s key content loc))"

definition store_abs :: "'b ext \<Rightarrow> 'b blob_store \<Rightarrow> kv_map" where
  "store_abs E s key =
     (case hm_get (store_index s) key of
        None \<Rightarrow> None
      | Some loc \<Rightarrow>
          (case read_blob E s loc of
             Inr (Some v) \<Rightarrow> Some (Inr v, expires_at loc)
           | Inr None \<Rightarrow> None
           | Inl e \<Rightarrow> Some (Inl e, expires_at loc)))"

lemma read_blob_at: "blob_at E s key content loc \<Longrightarrow> read_blob E s loc = map_sum id Some content"
  by (auto simp: blob_at_def record_at_def read_blob_def read_record_content)

lemma blob_at_keep:
  assumes "\<And>z wv n. record_at E s key z wv n loc \<Longrightarrow> record_at E s' key z wv n loc"
  shows "blob_at E s key content loc \<Longrightarrow> blob_at E s' key content loc"
  using assms unfolding blob_at_def by blast

lemma blob_at_cong:
  assumes "files s' = files s" "data_path s' = data_path s"
    "current_segment s' = current_segment s" "current_offset s' = current_offset s"
  shows "blob_at E s' = blob_at E s"
  using assms by (intro ext) (simp add: blob_at_def record_at_def)

lemma blob_at_expires [simp]: "blob_at E s key content (loc\<lparr>expires_at := e\<rparr>) = blob_at E s key content loc"
  by (simp add: blob_at_def record_at_def)

section \<open>Writing a blob\<close>

definition rolled :: "'b blob_store \<Rightarrow> 'b blob_store" where
  "rolled s = (if current_offset s > SEGMENT_SIZE
               then s\<lparr>current_segment := current_segment s + 1, current_offset := 0\<rparr> else s)"

lemma rolled_frame [simp]:
  "files (rolled s) = files s" "data_path (rolled s) = data_path s" "store_index (rolled s) = store_index s"
  "bloom (rolled s) = bloom s" "store_wal (rolled s) = store_wal s" "compression (rolled s) = compression s"
  "sync_policy (rolled s) = sync_policy s"
  by (simp_all add: rolled_def)

lemma unat_SEGMENT_SIZE [simp]: "unat SEGMENT_SIZE = 2 ^ 26"
  by (simp add: SEGMENT_SIZE_def)

lemma rolled_offset: "unat (current_offset (rolled s)) \<le> 2 ^ 26"
  using unat_SEGMENT_SIZE by (simp add: rolled_def not_less word_le_nat_alt)

lemma rolled_keeps:
  assumes "current_segment s \<noteq> - 1" and "blob_at E s key content loc"
  shows "blob_at E (rolled s) key content loc"
proof -
  have "current_segment s < current_segment s + 1"
    using unat_Suc_word [OF assms(1)] by (simp add: word_less_nat_alt)
  then show ?thesis
    by (intro blob_at_keep [OF _ assms(2)]) (auto simp: record_at_def rolled_def)
qed


lemma rolled_room: "current_segment s \<noteq> - 1 \<Longrightarrow> unat (current_segment (rolled s)) \<le> Suc (unat (current_segment s))"
  using unat_Suc_word [of "current_segment s"] by (auto simp: rolled_def)

definition roll_full :: "'b blob_store \<Rightarrow> bool" where
  "roll_full s \<longleftrightarrow> current_offset s > SEGMENT_SIZE \<and> current_segment s + 1 \<ge> MAX_SEGMENTS"

definition plain_location :: "'b ext \<Rightarrow> bytes \<Rightarrow> 'b blob_store \<Rightarrow> blob_location" where
  "plain_location E value s =
     \<lparr>shard = current_segment s, offset = current_offset s, blob_size = word_of_nat (length value),
      blake3 = blake3_hash E value, expires_at = None\<rparr>"

definition written :: "'b ext \<Rightarrow> bool \<Rightarrow> string \<Rightarrow> bytes \<Rightarrow> nat \<Rightarrow> 'b blob_store \<Rightarrow> 'b blob_store" where
  "written E z key write_value n s =
     (let p = segment_path (data_path s) (current_segment s)
      in s\<lparr>files := hm_insert p (write_at (unat (current_offset s)) (blob_record E z key write_value n)
                                   (file_content (files s) p)) (files s),
          current_offset := current_offset s + word_of_nat (28 + length key + length write_value)\<rparr>)"

lemma write_blob_eq:
  assumes "compress_value E (compression s) value = (wv, z)"
  shows "write_blob E key value s =
           (if roll_full s then (Inl (Internal ''Max segments reached''), rolled s)
            else (Inr (plain_location E value (rolled s)), written E z key wv (length value) (rolled s)))"
  using assms
  by (auto simp: write_blob_def write_blob_to_segment_def rolled_def roll_full_def plain_location_def written_def
      Let_def ac_simps)

lemma unat_written_offset:
  assumes "unat (current_offset s) \<le> 2 ^ 26" "length key < 2 ^ 32" "length v < 2 ^ 63"
  shows "unat (current_offset (written E z key v n s)) = unat (current_offset s) + 28 + length key + length v"
proof -
  have "unat (word_of_nat (28 + length key + length v) :: u64) = 28 + length key + length v"
    using assms by (intro unat_word_of_nat) simp
  then show ?thesis
    using assms unat_plus_no_wrap [of "current_offset s" "word_of_nat (28 + length key + length v)"]
    by (simp add: written_def Let_def)
qed

lemma written_frame [simp]:
  "data_path (written E z key v n s) = data_path s" "store_index (written E z key v n s) = store_index s"
  "bloom (written E z key v n s) = bloom s" "store_wal (written E z key v n s) = store_wal s"
  "compression (written E z key v n s) = compression s"
  "current_segment (written E z key v n s) = current_segment s"
  "sync_policy (written E z key v n s) = sync_policy s"
  by (simp_all add: written_def Let_def)

lemma written_new:
  assumes "unat (current_offset s) \<le> 2 ^ 26" "length key < 2 ^ 32" "length wv < 2 ^ 63"
  shows "blob_at E (written E z key wv n s) key (record_content E z wv n) (plain_location E v s)"
proof -
  have "record_at E (written E z key wv n s) key z wv n (plain_location E v s)"
    using assms unat_written_offset [OF assms, of E z n]
    by (auto simp: record_at_def plain_location_def written_def Let_def write_at_new)
  then show ?thesis unfolding blob_at_def by blast
qed

lemma blob_record_nonempty [simp]: "blob_record E z key v n \<noteq> []"
  using length_blob_record [of E z key v n] by (metis add_is_0 list.size(3) zero_neq_numeral)

lemma written_keeps_record:
  assumes "unat (current_offset s) \<le> 2 ^ 26" "length key < 2 ^ 32" "length v < 2 ^ 63"
    and at: "record_at E s k z' w m loc"
  shows "record_at E (written E z key v n s) k z' w m loc"
proof -
  obtain c r where c: "hm_get (files s) (segment_path (data_path s) (shard loc)) = Some c"
    "drop (unat (offset loc)) c = blob_record E z' k w m @ r"
    using at by (auto simp: record_at_def)
  show ?thesis
  proof (cases "shard loc = current_segment s")
    case True
    then have "unat (offset loc) + length (blob_record E z' k w m) \<le> unat (current_offset s)"
      using at by (simp add: record_at_def)
    then obtain r' where "drop (unat (offset loc)) (write_at (unat (current_offset s)) (blob_record E z key v n) c)
        = blob_record E z' k w m @ r'"
      using write_at_keep [OF c(2)] by fastforce
    then show ?thesis
      using at True c(1) unat_written_offset [OF assms(1-3), of E z n]
      by (auto simp: record_at_def written_def Let_def file_content_def)
  next
    case False
    then show ?thesis
      using at c unat_written_offset [OF assms(1-3), of E z n]
      by (auto simp: record_at_def written_def Let_def)
  qed
qed

lemma written_keeps:
  assumes "unat (current_offset s) \<le> 2 ^ 26" "length key < 2 ^ 32" "length v < 2 ^ 63"
    and "blob_at E s k content loc"
  shows "blob_at E (written E z key v n s) k content loc"
  by (rule blob_at_keep [OF written_keeps_record [OF assms(1-3)] assms(4)])

section \<open>The operations refine the map\<close>

lemma store_abs_at:
  "store_inv E s \<Longrightarrow> hm_get (store_index s) key = Some loc \<Longrightarrow> blob_at E s key content loc \<Longrightarrow>
     store_abs E s key = Some (content, expires_at loc)"
  by (cases content) (simp_all add: store_abs_def read_blob_at)

lemma store_inv_read:
  assumes "store_inv E s" and "hm_get (store_index s) key = Some loc"
  obtains c where "blob_at E s key c loc" "read_blob E s loc = map_sum id Some c"
    "store_abs E s key = Some (c, expires_at loc)"
  using assms by (metis read_blob_at store_abs_at store_inv_def)

lemma loc_expired_spec: "loc_expired now loc = spec_expired now (expires_at loc)"
  by (simp add: loc_expired_def spec_expired_def)

lemma get_refines:
  assumes "store_inv E s"
  shows "get E now s key = spec_get now (store_abs E s) key"
proof (cases "hm_get (store_index s) key")
  case None
  then show ?thesis
    by (simp add: get_def get_if_valid_def spec_get_def store_abs_def)
next
  case (Some loc)
  then obtain c where "read_blob E s loc = map_sum id Some c"
    "store_abs E s key = Some (c, expires_at loc)"
    using store_inv_read [OF assms] by blast
  moreover have "bloom_check E (bloom s) (key_hash_bytes E key)"
    using assms Some by (simp add: store_inv_def)
  ultimately show ?thesis
    using Some by (simp add: get_def get_if_valid_def is_expired_iff spec_get_def loc_expired_spec)
qed

text \<open>
  A state whose blobs all are still there, with one key's entry possibly replaced or
  removed, abstracts to the map with that key updated.
\<close>

lemma abs_frame:
  assumes "store_inv E s" and "hm_get (store_index s') key = hm_get (store_index s) key"
    and "\<And>k v loc. blob_at E s k v loc \<Longrightarrow> blob_at E s' k v loc"
  shows "store_abs E s' key = store_abs E s key"
proof (cases "hm_get (store_index s) key")
  case (Some loc)
  obtain c where "blob_at E s key c loc" "store_abs E s key = Some (c, expires_at loc)"
    using store_inv_read [OF assms(1) Some] by blast
  then show ?thesis
    using assms(2) Some read_blob_at [OF assms(3)] by (cases c) (simp_all add: store_abs_def)
qed (use assms(2) in \<open>simp add: store_abs_def\<close>)

lemma inv_frame:
  assumes "store_inv E s" and "hm_ok (store_index s')"
    and "\<And>k v loc. blob_at E s k v loc \<Longrightarrow> blob_at E s' k v loc"
    and "\<And>h. bloom_check E (bloom s) h \<Longrightarrow> bloom_check E (bloom s') h"
    and "\<And>k loc. hm_get (store_index s') k = Some loc \<Longrightarrow>
           hm_get (store_index s) k = Some loc \<or>
           bloom_check E (bloom s') (key_hash_bytes E k) \<and> (\<exists>v. blob_at E s' k v loc)"
  shows "store_inv E s'"
  using assms unfolding store_inv_def by metis

definition put_prepared :: "'b ext \<Rightarrow> string \<Rightarrow> bytes \<Rightarrow> 'b blob_store \<Rightarrow> 'b blob_store" where
  "put_prepared E key value s =
     s\<lparr>store_wal := snd (append_put (crc32_hash E) key value (store_wal s)),
       bloom := bloom_set E (key_hash_bytes E key) (bloom s)\<rparr>"

lemma put_prepared_frame [simp]:
  "files (put_prepared E key v s) = files s" "data_path (put_prepared E key v s) = data_path s"
  "store_index (put_prepared E key v s) = store_index s" "compression (put_prepared E key v s) = compression s"
  "current_segment (put_prepared E key v s) = current_segment s"
  "current_offset (put_prepared E key v s) = current_offset s"
  "bloom (put_prepared E key v s) = bloom_set E (key_hash_bytes E key) (bloom s)"
  by (simp_all add: put_prepared_def)

lemma put_prepared_at [simp]: "blob_at E (put_prepared E key v s) = blob_at E s"
  by (rule blob_at_cong) simp_all

lemma put_prepared_full [simp]: "roll_full (put_prepared E key v s) = roll_full s"
  by (simp add: roll_full_def)

lemma put_eq:
  assumes "compress_value E (compression s) value = (wv, z)"
  shows "put_with_ttl E now key value ttl s =
    (let s1 = rolled (put_prepared E key value s)
     in if roll_full s then (Inl (Internal ''Max segments reached''), s1)
        else (Inr (), (written E z key wv (length value) s1)
                \<lparr>store_index := hm_insert key ((plain_location E value s1)
                    \<lparr>expires_at := map_option (\<lambda>t. now + t) ttl\<rparr>) (store_index s)\<rparr>))"
proof -
  have "s\<lparr>store_wal := snd (append_put (crc32_hash E) key value (store_wal s)),
          bloom := bloom_set E (key_hash_bytes E key) (bloom s)\<rparr> = put_prepared E key value s"
    by (simp add: put_prepared_def)
  then show ?thesis
    using write_blob_eq [of E "put_prepared E key value s" "value" wv z key] assms
    by (auto simp: put_with_ttl_def Let_def index_insert_def plain_location_def split: option.splits)
qed

text \<open>
  Rust bounds every length by \<open>2^63\<close>; the record format bounds the length of a key, which
  is stored in 32 bits.
\<close>

definition put_ok :: "string \<Rightarrow> bytes \<Rightarrow> bool" where
  "put_ok key value \<longleftrightarrow> length key < 2 ^ 32 \<and> length value < 2 ^ 63"

text \<open>Before the record is written nothing is visible of a put, whether or not it fails.\<close>

lemma rolled_refines:
  assumes "bloom_laws E" and inv: "store_inv E s" and "current_segment s \<noteq> - 1"
    and s1_def: "s1 = rolled (put_prepared E key v s)"
  shows "store_inv E s1" and "store_abs E s1 = store_abs E s"
    and "bloom_check E (bloom s1) (key_hash_bytes E key)"
    and "unat (current_segment s1) \<le> Suc (unat (current_segment s))"
proof -
  have keep: "blob_at E s1 k w loc" if "blob_at E s k w loc" for k w loc
    using rolled_keeps [of "put_prepared E key v s"] assms(3) that by (simp add: s1_def)
  have frame: "store_index s1 = store_index s" "bloom s1 = bloom_set E (key_hash_bytes E key) (bloom s)"
    by (simp_all add: s1_def)
  have bl: "bloom_check E (bloom s) h \<Longrightarrow> bloom_check E (bloom s1) h" for h
    using assms(1) by (simp add: bloom_laws_def frame)
  show "store_inv E s1"
    by (rule inv_frame [OF inv _ keep bl]) (use inv frame in \<open>auto simp: store_inv_def\<close>)
  show "store_abs E s1 = store_abs E s"
    by (rule HOL.ext, rule abs_frame [OF inv _ keep]) (simp add: frame)
  show "bloom_check E (bloom s1) (key_hash_bytes E key)"
    using assms(1) by (simp add: bloom_laws_def frame)
  show "unat (current_segment s1) \<le> Suc (unat (current_segment s))"
    using rolled_room [of "put_prepared E key v s"] assms(3) by (simp add: s1_def)
qed

lemma written_refines:
  assumes inv: "store_inv E s" and bl: "bloom_check E (bloom s) (key_hash_bytes E key)"
    and len: "unat (current_offset s) \<le> 2 ^ 26" "length key < 2 ^ 32" "length wv < 2 ^ 63"
    and loc_def: "loc = (plain_location E v s)\<lparr>expires_at := e\<rparr>"
    and s2_def: "s2 = (written E z key wv n s)\<lparr>store_index := hm_insert key loc (store_index s)\<rparr>"
  shows "store_inv E s2" and "store_abs E s2 = (store_abs E s)(key \<mapsto> (record_content E z wv n, e))"
proof -
  have at': "blob_at E s2 = blob_at E (written E z key wv n s)"
    by (rule blob_at_cong) (simp_all add: s2_def)
  have new: "blob_at E s2 key (record_content E z wv n) loc"
    unfolding at' loc_def blob_at_expires by (rule written_new [OF len])
  have keep: "blob_at E s2 k w l" if "blob_at E s k w l" for k w l
    unfolding at' by (rule written_keeps [OF len that])
  show i: "store_inv E s2"
  proof (rule inv_frame [OF inv _ keep])
    fix k l assume "hm_get (store_index s2) k = Some l"
    then show "hm_get (store_index s) k = Some l \<or>
         bloom_check E (bloom s2) (key_hash_bytes E k) \<and> (\<exists>w. blob_at E s2 k w l)"
      using new bl by (auto simp: s2_def split: if_splits)
  qed (use inv in \<open>auto simp: s2_def store_inv_def\<close>)
  show "store_abs E s2 = (store_abs E s)(key \<mapsto> (record_content E z wv n, e))"
  proof
    fix k
    show "store_abs E s2 k = ((store_abs E s)(key \<mapsto> (record_content E z wv n, e))) k"
    proof (cases "k = key")
      case True
      then show ?thesis using store_abs_at [OF i _ new] by (simp add: s2_def loc_def)
    next
      case False
      then show ?thesis using abs_frame [OF inv _ keep, of k] by (simp add: s2_def)
    qed
  qed
qed

lemma put_refines:
  assumes laws: "bloom_laws E" and inv: "store_inv E s" and ok: "put_ok key v"
    and room: "current_segment s \<noteq> - 1"
    and put: "put_with_ttl E now key v ttl s = (r, s')"
  shows "store_inv E s'"
    and "store_abs E s' =
           (if is_ok r then spec_put now key (read_back E (compression s) v) ttl (store_abs E s) else store_abs E s)"
    and "unat (current_segment s') \<le> Suc (unat (current_segment s))"
    and "compression s' = compression s"
proof -
  let ?s1 = "rolled (put_prepared E key v s)"
  note r1 = rolled_refines [OF laws inv room refl, of key v]
  obtain wv z where cv: "compress_value E (compression s) v = (wv, z)" by fastforce
  have len: "length key < 2 ^ 32" "length wv < 2 ^ 63"
    and kept: "record_content E z wv (length v) = read_back E (compression s) v"
    using ok compress_value_content [OF cv] by (simp_all add: put_ok_def)
  note r2 = written_refines [OF r1(1,3) rolled_offset len refl refl, of "map_option (\<lambda>t. now + t) ttl"]
  note eq = put [unfolded put_eq [OF cv] Let_def]
  show "store_inv E s'"
    using eq r1 r2 by (auto split: if_splits)
  show "store_abs E s' =
      (if is_ok r then spec_put now key (read_back E (compression s) v) ttl (store_abs E s) else store_abs E s)"
    using eq r1 r2 kept by (auto simp: spec_put_def split: if_splits)
  show "unat (current_segment s') \<le> Suc (unat (current_segment s))"
    using eq r1 by (auto split: if_splits)
  show "compression s' = compression s"
    using eq by (auto split: if_splits)
qed

lemma delete_refines:
  assumes inv: "store_inv E s" and "delete E key s = (r, s')"
  shows "r = Inr ()" and "store_inv E s'" and "store_abs E s' = (store_abs E s)(key := None)"
    and "current_segment s' = current_segment s" "compression s' = compression s"
proof -
  have s': "r = Inr ()" "store_index s' = hm_remove key (store_index s)" "bloom s' = bloom s"
    "current_segment s' = current_segment s" "compression s' = compression s"
    and at: "blob_at E s' = blob_at E s"
    using assms(2) by (auto simp: delete_def index_remove_def Let_def intro: blob_at_cong)
  show "store_inv E s'"
    by (rule inv_frame [OF inv]) (use s' at inv in \<open>auto simp: store_inv_def split: if_splits\<close>)
  show "store_abs E s' = (store_abs E s)(key := None)"
  proof
    fix k
    show "store_abs E s' k = ((store_abs E s)(key := None)) k"
      using abs_frame [OF inv, of s' k] s' at by (cases "k = key") (auto simp: store_abs_def)
  qed
qed (use assms(2) in \<open>auto simp: delete_def Let_def\<close>)

lemma cleanup_count:
  assumes inv: "store_inv E s"
  shows "fst (cleanup_expired now (store_index s)) =
           card {k. \<exists>v e. store_abs E s k = Some (v, e) \<and> spec_expired now e}"
proof -
  let ?idx = "store_index s"
  have ok: "hm_ok ?idx" using inv by (simp add: store_inv_def)
  have "store_abs E s k = Some (v, e) \<Longrightarrow> \<exists>loc. (k, loc) \<in> set ?idx \<and> e = expires_at loc" for k v e
    using map_of_SomeD [of ?idx k] by (auto simp: store_abs_def split: option.splits sum.splits)
  moreover have "\<exists>v. store_abs E s k = Some (v, expires_at loc)" if "(k, loc) \<in> set ?idx" for k loc
    using store_inv_read [OF inv, of k loc] that ok by (metis hm_get_mem)
  ultimately have "{k. \<exists>v e. store_abs E s k = Some (v, e) \<and> spec_expired now e}
      = set (map fst (filter (\<lambda>(_, loc). loc_expired now loc) ?idx))"
    by (force simp: loc_expired_spec)
  moreover have "distinct (map fst (filter (\<lambda>(_, loc). loc_expired now loc) ?idx))"
    using ok by (simp add: hm_ok_def distinct_map_filter)
  ultimately show ?thesis
    by (simp only: distinct_card cleanup_expired_def Let_def length_map fst_conv)
qed

lemma cleanup_refines:
  assumes inv: "store_inv E s" and "store_cleanup_expired now s = (n, s')"
  shows "n = card {k. \<exists>v e. store_abs E s k = Some (v, e) \<and> spec_expired now e}"
    and "store_inv E s'" and "store_abs E s' = spec_cleanup now (store_abs E s)"
    and "current_segment s' = current_segment s" "compression s' = compression s"
proof -
  have ok: "hm_ok (store_index s)" using inv by (simp add: store_inv_def)
  have s': "n = fst (cleanup_expired now (store_index s))"
    "store_index s' = snd (cleanup_expired now (store_index s))" "bloom s' = bloom s"
    and at: "blob_at E s' = blob_at E s"
    using assms(2) by (auto simp: store_cleanup_expired_def intro: blob_at_cong split: prod.splits)
  have get': "hm_get (store_index s') k = get_if_valid now (store_index s) k" for k
    using cleanup_expired_get [OF ok] s' by simp
  show "n = card {k. \<exists>v e. store_abs E s k = Some (v, e) \<and> spec_expired now e}"
    using s'(1) cleanup_count [OF inv] by simp
  show "store_inv E s'"
    by (rule inv_frame [OF inv]) (use s' at ok get' in \<open>auto simp: get_if_valid_Some\<close>)
  show "store_abs E s' = spec_cleanup now (store_abs E s)"
  proof
    fix k
    show "store_abs E s' k = spec_cleanup now (store_abs E s) k"
    proof (cases "hm_get (store_index s) k")
      case None
      then show ?thesis using get' by (simp add: store_abs_def spec_cleanup_def get_if_valid_def)
    next
      case (Some loc)
      then obtain v where "store_abs E s k = Some (v, expires_at loc)"
        using store_inv_read [OF inv] by blast
      then show ?thesis
        using abs_frame [OF inv, of s' k] Some at get' [of k]
        by (auto simp: spec_cleanup_def get_if_valid_def is_expired_iff loc_expired_spec store_abs_def)
    qed
  qed
qed (use assms(2) in \<open>auto simp: store_cleanup_expired_def split: prod.splits\<close>)

section \<open>The engine as a whole\<close>

fun store_step :: "'b ext \<Rightarrow> u64 \<Rightarrow> kv_op \<Rightarrow> 'b blob_store \<Rightarrow> kv_out \<times> 'b blob_store" where
  "store_step E now (KvPut k v ttl) s = (let (r, s') = put_with_ttl E now k v ttl s in (OutUnit r, s'))"
| "store_step E now (KvGet k) s = (OutValue (get E now s k), s)"
| "store_step E now (KvDelete k) s = (let (r, s') = delete E k s in (OutUnit r, s'))"
| "store_step E now KvCleanup s = (let (n, s') = store_cleanup_expired now s in (OutCount n, s'))"

fun op_ok :: "kv_op \<Rightarrow> bool" where
  "op_ok (KvPut k v ttl) = put_ok k v"
| "op_ok _ = True"

text \<open>How many operations are certain not to exhaust the 64-bit segment counter.\<close>

definition segment_room :: "'b blob_store \<Rightarrow> nat" where
  "segment_room s = 2 ^ 64 - 1 - unat (current_segment s)"

lemma segment_room_pos: "0 < segment_room s \<Longrightarrow> current_segment s \<noteq> - 1"
  by (auto simp: segment_room_def unsigned_minus_1_eq_mask mask_eq_exp_minus_1)

lemma segment_room_Suc:
  "unat (current_segment s') \<le> Suc (unat (current_segment s)) \<Longrightarrow> segment_room s \<le> Suc (segment_room s')"
  by (simp add: segment_room_def)

definition engine_inv :: "'b ext \<Rightarrow> compression_mode \<Rightarrow> 'b blob_store \<Rightarrow> bool" where
  "engine_inv E mode s \<longleftrightarrow> bloom_laws E \<and> store_inv E s \<and> compression s = mode"

lemma store_step_simulates:
  assumes "engine_inv E mode s" and "op_ok x" and "0 < segment_room s"
    and "store_step E now x s = (out, s')"
  shows "engine_inv E mode s' \<and> segment_room s \<le> Suc (segment_room s') \<and>
         spec_step (read_back E mode) now x (store_abs E s) out (store_abs E s')"
proof (cases x)
  case (KvPut k v ttl)
  obtain r where r: "put_with_ttl E now k v ttl s = (r, s')" "out = OutUnit r"
    using assms(4) KvPut by (auto split: prod.splits)
  note p = put_refines [OF _ _ _ segment_room_pos [OF assms(3)] r(1)]
  have "spec_step (read_back E mode) now x (store_abs E s) out (store_abs E s')"
  proof (cases r)
    case (Inl e)
    then show ?thesis using p(2) assms(1,2) KvPut r(2) by (auto simp: engine_inv_def intro: spec_step.intros)
  next
    case (Inr u)
    then have "store_abs E s' = spec_put now k (read_back E mode v) ttl (store_abs E s)"
      using p(2) assms(1,2) KvPut by (simp add: engine_inv_def)
    then show ?thesis using Inr KvPut r(2) by (simp add: spec_step.put_ok)
  qed
  then show ?thesis
    using p(1,3,4) assms(1,2) KvPut by (auto simp: engine_inv_def intro: segment_room_Suc)
next
  case (KvGet k)
  then show ?thesis
    using assms get_refines [of E s now k] by (auto simp: engine_inv_def intro: spec_step.intros)
next
  case (KvDelete k)
  then obtain r where r: "delete E k s = (r, s')" "out = OutUnit r"
    using assms(4) by (auto split: prod.splits)
  then show ?thesis
    using delete_refines [OF _ r(1)] assms(1) KvDelete
    by (auto simp: engine_inv_def segment_room_def intro: spec_step.intros)
next
  case KvCleanup
  then obtain n where n: "store_cleanup_expired now s = (n, s')" "out = OutCount n"
    using assms(4) by (auto split: prod.splits)
  then show ?thesis
    using cleanup_refines [OF _ n(1)] assms(1) KvCleanup spec_step.cleanup_step [of "read_back E mode" now "store_abs E s"]
    by (auto simp: engine_inv_def segment_room_def)
qed

interpretation blob_engine: kv_engine
  "store_step E" "engine_inv E mode" segment_room op_ok "read_back E mode" "store_abs E" for E mode
  by unfold_locales (rule store_step_simulates)

text \<open>
  A concrete choice for the crates, for evaluating the model: constant checksums and
  hashes, a Bloom filter that always answers \<open>maybe\<close>, no compression.
\<close>

definition demo_ext :: "unit ext" where
  "demo_ext =
     \<lparr>crc32_hash = (\<lambda>_. 0), blake3_digest = (\<lambda>_. replicate 32 0),
      hash_display = (\<lambda>_. replicate 64 CHR ''0''), hex_decode = (\<lambda>_. Some (replicate 32 0)),
      bloom_new = (), bloom_set = (\<lambda>_ b. b), bloom_check = (\<lambda>_ _. True),
      bloom_to_bytes = (\<lambda>_. []), bloom_from_bytes = (\<lambda>_. Some ()),
      lz4_compress = (\<lambda>_ _. None), lz4_decompress = (\<lambda>_ _. None)\<rparr>"

definition demo_store :: "unit blob_store" where
  "demo_store =
     \<lparr>data_path = [''data''], store_index = [], bloom = (), store_wal = wal_open (\<lambda>_. 0) Always None,
      current_segment = 0, current_offset = 0, sync_policy = Always, compression = NoCompression,
      files = []\<rparr>"

lemma demo_laws [simp]: "bloom_laws demo_ext"
  by (simp add: bloom_laws_def demo_ext_def)

lemma demo_store_inv [simp]: "store_inv demo_ext demo_store" "engine_inv demo_ext NoCompression demo_store"
  by (simp_all add: store_inv_def demo_store_def engine_inv_def)

section \<open>Properties\<close>

text \<open>
  C1. The storage engine implements a map with expiry times: from a state that satisfies
  the invariant, any sequence of puts, gets, deletes and cleanups at any times yields
  exactly the outcomes that the abstract map yields, a put that fails changes nothing, and
  the invariant holds again at the end. What the map holds for a put is what reading the
  value back answers (\<open>read_back\<close>): the value itself, except in the mode LZ4 for a value of
  at least 128 bytes whose compressed form is shorter; there it is what the decoder makes
  of the stored bytes, a value or an error. The compression mode is the same throughout,
  and keys are shorter than the 4 GiB that the length field of a record can express.
\<close>

theorem store_run_refines:
  assumes "bloom_laws E" and "store_inv E s"
    and "list_all (\<lambda>(now, op). op_ok op) ops"
    and "unat (current_segment s) + length ops < 2 ^ 64"
    and "run_ops (store_step E) ops s = (outs, s')"
  shows "spec_trace (read_back E (compression s)) (store_abs E s) ops outs (store_abs E s') \<and> store_inv E s'"
  using blob_engine.run_simulates [of E "compression s" s ops outs s'] assms
  by (auto simp: engine_inv_def segment_room_def)

theorem store_run_refines_witness:
  "spec_trace Inr (store_abs demo_ext demo_store)
     [(5, KvPut ''a'' [1, 2] (Some 10)), (7, KvDelete ''b''), (15, KvGet ''a''), (16, KvCleanup)]
     (fst (run_ops (store_step demo_ext)
        [(5, KvPut ''a'' [1, 2] (Some 10)), (7, KvDelete ''b''), (15, KvGet ''a''), (16, KvCleanup)] demo_store))
     (store_abs demo_ext (snd (run_ops (store_step demo_ext)
        [(5, KvPut ''a'' [1, 2] (Some 10)), (7, KvDelete ''b''), (15, KvGet ''a''), (16, KvCleanup)] demo_store)))"
proof -
  have "read_back demo_ext (compression demo_store) = Inr" "current_segment demo_store = 0"
    by (auto simp: demo_store_def)
  then show ?thesis
    using store_run_refines [of demo_ext demo_store
      "[(5, KvPut ''a'' [1, 2] (Some 10)), (7, KvDelete ''b''), (15, KvGet ''a''), (16, KvCleanup)]"]
    by (simp add: put_ok_def del: run_ops.simps)
qed

text \<open>
  C12. Read your writes: after a put that succeeded, and any further operations that do
  not write this key and happen before it expires, a get before it expires answers what
  reading that value back answers. This is exactly the value put whenever it is stored
  uncompressed, so always in the default mode and for every value of less than 128 bytes.
  A value that LZ4 made shorter is answered by what the decoder makes of the stored bytes.
\<close>

theorem store_read_your_writes:
  assumes "bloom_laws E" and "store_inv E s" and "put_ok key v"
    and "put_with_ttl E now key v ttl s = (Inr (), s1)"
    and "list_all (\<lambda>(t, op). op_ok op \<and> \<not> op_writes op key \<and>
                     \<not> spec_expired t (map_option (\<lambda>d. now + d) ttl)) ops"
    and "unat (current_segment s) + length ops + 2 < 2 ^ 64"
    and "run_ops (store_step E) ops s1 = (outs, s2)"
    and "\<not> spec_expired later (map_option (\<lambda>d. now + d) ttl)"
  shows "get E later s2 key = map_sum id Some (read_back E (compression s) v) \<and>
         (compression s = NoCompression \<or> length v < 128 \<longrightarrow> get E later s2 key = Inr (Some v))"
proof -
  have seg: "current_segment s \<noteq> - 1"
    using assms(6) by (intro segment_room_pos) (simp add: segment_room_def)
  note p = put_refines [OF assms(1,2,3) seg assms(4)]
  have "fst (store_step E later (KvGet key) s2) = OutValue (map_sum id Some (read_back E (compression s) v))"
    using assms p by (intro blob_engine.get_after_run [where s = s1 and ops = ops and outs = outs
          and e = "map_option (\<lambda>d. now + d) ttl" and mode = "compression s"])
      (auto simp: engine_inv_def segment_room_def spec_put_def)
  then show ?thesis by auto
qed

lemma put_fst:
  "fst (put_with_ttl E now key v ttl s) =
     (if roll_full s then Inl (Internal ''Max segments reached'') else Inr ())"
  by (cases "compress_value E (compression s) v") (simp add: put_eq Let_def)

theorem store_read_your_writes_witness:
  "get demo_ext 15
     (snd (run_ops (store_step demo_ext) [(6, KvPut ''b'' [2] None)]
        (snd (put_with_ttl demo_ext 5 ''a'' [1] (Some 10) demo_store)))) ''a'' = Inr (Some [1])"
proof -
  have "fst (put_with_ttl demo_ext 5 ''a'' [1] (Some 10) demo_store) = Inr ()"
    by (simp add: put_fst) (simp add: demo_store_def roll_full_def SEGMENT_SIZE_def)
  then have put: "put_with_ttl demo_ext 5 ''a'' [1] (Some 10) demo_store
          = (Inr (), snd (put_with_ttl demo_ext 5 ''a'' [1] (Some 10) demo_store))"
    by (metis prod.collapse)
  have "compression demo_store = NoCompression" "current_segment demo_store = 0"
    by (simp_all add: demo_store_def)
  then show ?thesis
    using store_read_your_writes [OF demo_laws demo_store_inv(1) _ put _ _ surjective_pairing,
        of "[(6, KvPut ''b'' [2] None)]" 15]
    by (simp add: put_ok_def spec_expired_def del: run_ops.simps)
qed

section \<open>Compaction\<close>

lemma is_prefix_refl_append [simp]: "is_prefix p (p @ q)"
  by (simp add: is_prefix_def)

lemma segment_path_prefix [simp]: "is_prefix p (segment_path p n)"
  by (simp add: segment_path_def)

lemma segment_not_in_temp: "\<not> is_prefix (base @ [''compact_temp'']) (segment_path base n)"
proof
  assume "is_prefix (base @ [''compact_temp'']) (segment_path base n)"
  then have "pad0 2 (show_nat (unat (n mod 100))) = ''compact_temp''"
    by (simp add: is_prefix_def segment_path_def)
  then show False
    using pad0_show_nat_digits [of "CHR ''c''" 2 "unat (n mod 100)"] by (simp add: digit_val_def)
qed

lemma compact_loop_frame:
  assumes "compact_loop E temp es acc s = (acc', s')"
  shows "\<exists>fs. s' = s\<lparr>files := fs\<rparr> \<and> (\<forall>p. \<not> is_prefix temp p \<longrightarrow> hm_get fs p = hm_get (files s) p)"
  using assms
proof (induction es arbitrary: acc s)
  case Nil
  then show ?case by (intro exI [of _ "files s"]) simp
next
  case (Cons x es)
  obtain key loc idx seg off where x: "x = (key, loc)" "acc = (idx, seg, off)"
    by (metis prod.collapse)
  show ?case
  proof (cases "\<exists>v. read_blob E s loc = Inr (Some v)")
    case True
    then obtain v where v: "read_blob E s loc = Inr (Some v)" by blast
    obtain l n fs where w: "write_blob_to_segment E (compression s) temp seg off key v (files s) = ((l, n), fs)"
      by (metis prod.collapse)
    then have fs: "\<not> is_prefix temp p \<Longrightarrow> hm_get fs p = hm_get (files s) p" for p
      by (auto simp: write_blob_to_segment_def Let_def split: prod.splits)
    obtain acc1 where "compact_loop E temp es acc1 (s\<lparr>files := fs\<rparr>) = (acc', s')"
      using Cons.prems v w x by (auto simp: Let_def)
    from Cons.IH [OF this] show ?thesis using fs by auto
  next
    case False
    then have "compact_loop E temp es acc s = (acc', s')"
      using Cons.prems x by (auto split: sum.splits option.splits)
    from Cons.IH [OF this] show ?thesis .
  qed
qed

text \<open>
  C40. Compaction never succeeds and never harms: \<open>compact\<close> renames the data directory
  into one of its own subdirectories, which the operating system refuses, so it returns
  an I/O error on every store; the index, the log and the write position are as before,
  the invariant still holds and every key still has its value. No space is reclaimed and
  the log is never truncated.
\<close>

theorem compact_always_refused:
  assumes "store_inv E s" and "compact E s = (r, s')"
  shows "r = Inl (Io InvalidInput) \<and> store_inv E s' \<and> store_abs E s' = store_abs E s \<and>
         store_index s' = store_index s \<and> store_wal s' = store_wal s \<and>
         current_segment s' = current_segment s \<and> current_offset s' = current_offset s"
proof -
  let ?temp = "data_path s @ [''compact_temp'']"
  obtain acc fs where loop: "compact_loop E ?temp (store_index s) (index_new, 0, 0) s = (acc, s\<lparr>files := fs\<rparr>)"
    and fs: "\<And>p. \<not> is_prefix ?temp p \<Longrightarrow> hm_get fs p = hm_get (files s) p"
    using compact_loop_frame [OF surjective_pairing, of E ?temp "store_index s" "(index_new, 0, 0)" s]
    by (metis surjective_pairing)
  have r: "r = Inl (Io InvalidInput)" "s' = s\<lparr>files := fs\<rparr>"
    using assms(2) loop by (auto simp: compact_def rename_dir_def Let_def split: prod.splits)
  have keep: "blob_at E s' k v loc" if "blob_at E s k v loc" for k v loc
    by (rule blob_at_keep [OF _ that]) (use fs [OF segment_not_in_temp] r(2) in \<open>simp add: record_at_def\<close>)
  have "store_inv E s'"
    by (rule inv_frame [OF assms(1) _ keep]) (use assms(1) r(2) in \<open>auto simp: store_inv_def\<close>)
  moreover have "store_abs E s' = store_abs E s"
    by (rule HOL.ext, rule abs_frame [OF assms(1) _ keep]) (use r(2) in simp)
  ultimately show ?thesis using r by simp
qed

theorem compact_always_refused_witness:
  "fst (compact demo_ext (snd (put demo_ext 0 ''a'' [1] demo_store))) = Inl (Io InvalidInput)"
proof -
  have "store_inv demo_ext (snd (put demo_ext 0 ''a'' [1] demo_store))"
    unfolding put_def
    by (rule put_refines(1) [OF demo_laws demo_store_inv(1) _ _ surjective_pairing])
      (simp_all add: demo_store_def put_ok_def)
  then show ?thesis
    using compact_always_refused [OF _ surjective_pairing] by blast
qed

section \<open>The segment limit\<close>

text \<open>
  The segment limit is not enforced: a put that would open segment 1000 or later
  fails, after it has been logged and after the write position has moved to the new
  segment; the next put finds room there and is stored in a segment beyond the limit.
\<close>

theorem segment_limit_bypassed:
  assumes "current_offset s > SEGMENT_SIZE" and "current_segment s + 1 \<ge> MAX_SEGMENTS"
    and "put_with_ttl E now key v ttl s = (r, s1)" and "put_with_ttl E later key v ttl s1 = (r', s2)"
  shows "r = Inl (Internal ''Max segments reached'') \<and> store_index s1 = store_index s \<and>
         wal_content (store_wal s1) = wal_content (store_wal s) @
           wal_encode (crc32_hash E) \<lparr>sequence = next_sequence (store_wal s), op = Put key v\<rparr> \<and>
         r' = Inr () \<and>
         (\<exists>loc. index_get (store_index s2) key = Some loc \<and> shard loc \<ge> MAX_SEGMENTS)"
proof -
  obtain wv z where cv: "compress_value E (compression s) v = (wv, z)" by fastforce
  have full: "roll_full s" using assms(1,2) by (simp add: roll_full_def)
  have s1: "r = Inl (Internal ''Max segments reached'')" "s1 = rolled (put_prepared E key v s)"
    using assms(3) full by (auto simp: put_eq [OF cv] Let_def)
  have pos: "current_segment s1 = current_segment s + 1" "current_offset s1 = 0"
    "compression s1 = compression s"
    using assms(1) s1(2) by (simp_all add: rolled_def)
  then have nf: "\<not> roll_full s1" "rolled (put_prepared E key v s1) = put_prepared E key v s1"
    by (simp_all add: roll_full_def rolled_def)
  have w: "wal_content (store_wal s1) = wal_content (store_wal s) @
      wal_encode (crc32_hash E) \<lparr>sequence = next_sequence (store_wal s), op = Put key v\<rparr>"
    using content_append_op [of "crc32_hash E" "Put key v" "store_wal s"]
    by (simp add: s1(2) put_prepared_def)
  have "r' = Inr ()" "\<exists>loc. index_get (store_index s2) key = Some loc \<and> shard loc \<ge> MAX_SEGMENTS"
    using assms(2,4) cv pos nf by (auto simp: put_eq [of E s1] Let_def index_get_def plain_location_def)
  then show ?thesis using s1 w by simp
qed

theorem segment_limit_bypassed_witness:
  "fst (put_with_ttl demo_ext 0 ''a'' [1] None
     (demo_store\<lparr>current_segment := 999, current_offset := 2 ^ 27\<rparr>)) = Inl (Internal ''Max segments reached'')"
  using segment_limit_bypassed
    [of "demo_store\<lparr>current_segment := 999, current_offset := 2 ^ 27\<rparr>", OF _ _ surjective_pairing surjective_pairing,
     of demo_ext 0 "''a''" "[1]" None]
  by (simp add: SEGMENT_SIZE_def MAX_SEGMENTS_def)

section \<open>Expiry\<close>

text \<open>
  Existence, reads and remaining lifetimes agree: on a store that satisfies the
  invariant, a key exists exactly when a get does not answer that it is absent, and when a remaining
  lifetime \<open>d\<close> is reported, the key is still there \<open>d\<close> milliseconds later and gone
  at every time after that.
\<close>

theorem ttl_reports_lifetime:
  assumes "store_inv E s"
  shows "(store_exists now s key \<longleftrightarrow> get E now s key \<noteq> Inr None) \<and>
         (\<forall>d. get_ttl now s key = Some d \<longrightarrow>
            store_exists (now + d) s key \<and> (\<forall>t > now + d. \<not> store_exists t s key))"
proof -
  have "store_exists now s key \<longleftrightarrow> get E now s key \<noteq> Inr None"
  proof (cases "hm_get (store_index s) key")
    case None
    then show ?thesis
      using get_refines [OF assms, of now key]
      by (simp add: store_exists_def get_if_valid_def spec_get_def store_abs_def)
  next
    case (Some loc)
    obtain c where "store_abs E s key = Some (c, expires_at loc)"
      using store_inv_read [OF assms Some] by blast
    then show ?thesis
      using get_refines [OF assms, of now key] Some
      by (cases c) (simp_all add: store_exists_def get_if_valid_def is_expired_iff spec_get_def loc_expired_spec)
  qed
  moreover have "store_exists (now + d) s key \<and> (\<forall>t > now + d. \<not> store_exists t s key)"
    if "get_ttl now s key = Some d" for d
    using that
    by (auto simp: get_ttl_def index_get_def store_exists_def get_if_valid_def is_expired_def
        split: option.splits if_splits)
  ultimately show ?thesis by blast
qed

theorem ttl_reports_lifetime_witness:
  "get_ttl 7 (snd (put_with_ttl demo_ext 5 ''a'' [1] (Some 10) demo_store)) ''a'' = Some 8 \<and>
   store_exists 15 (snd (put_with_ttl demo_ext 5 ''a'' [1] (Some 10) demo_store)) ''a'' \<and>
   \<not> store_exists 16 (snd (put_with_ttl demo_ext 5 ''a'' [1] (Some 10) demo_store)) ''a''"
proof -
  let ?s = "snd (put_with_ttl demo_ext 5 ''a'' [1] (Some 10) demo_store)"
  have "store_inv demo_ext ?s"
    by (rule put_refines(1) [OF demo_laws demo_store_inv(1) _ _ surjective_pairing])
      (simp_all add: demo_store_def put_ok_def)
  moreover have "get_ttl 7 ?s ''a'' = Some 8"
    by (subst put_eq [where z = False and wv = "[1]"])
      (simp_all add: compress_value_def demo_store_def roll_full_def SEGMENT_SIZE_def Let_def
        get_ttl_def index_get_def)
  ultimately show ?thesis
    using ttl_reports_lifetime [of demo_ext ?s 7 "''a''"] by simp
qed

section \<open>Compression\<close>

text \<open>
  What the crate \<open>lz4\<close> documents of its block functions: with \<open>prepend_size\<close> the
  result is the block preceded by the 32-bit little-endian length of the input, and
  decompression takes the size from there only when it is given none.
\<close>

definition lz4_laws :: "'b ext \<Rightarrow> bool" where
  "lz4_laws E \<longleftrightarrow>
     (\<forall>v. lz4_compress E v True
            = map_option (\<lambda>b. u32_to_le (word_of_nat (length v)) @ b) (lz4_compress E v False)) \<and>
     (\<forall>v b. lz4_compress E v False = Some b \<longrightarrow>
        lz4_decompress E b (Some (int (length v))) = Some v \<and>
        lz4_decompress E (u32_to_le (word_of_nat (length v)) @ b) None = Some v)"

lemma compress_value_True:
  "compress_value E mode v = (c, True) \<Longrightarrow> lz4_compress E v True = Some c \<and> length c < length v"
  by (auto simp: compress_value_def split: if_splits option.splits)

lemma i32_of_length:
  assumes "n < 2 ^ 31"
  shows "i32_of_u64 (word_of_nat n) = int n"
proof -
  have "uint (ucast (word_of_nat n :: u64) :: 32 word) = int n"
    using assms by (simp add: uint_nat unsigned_ucast_eq take_bit_nat_eq_self)
  then show ?thesis
    using assms by (simp add: i32_of_u64_def sint_uint signed_take_bit_int_eq_self_iff)
qed

text \<open>
  C39. A compressed value is not what is read back: when compression is on and pays off,
  the size prefix that the compressor put in front is stored with the block, and a get
  hands both to the block decoder together with an explicit size. The decoder would
  restore the value from the block alone; what it makes of the prefix decides the get.
\<close>

theorem compressed_get_decodes_prefix:
  assumes "bloom_laws E" and "lz4_laws E" and "compress_value E (compression s) v = (c, True)"
    and "length key < 2 ^ 32" and "length v < 2 ^ 31"
    and "put E now key v s = (Inr (), s')"
  shows "\<exists>b. lz4_decompress E b (Some (int (length v))) = Some v \<and>
           c = u32_to_le (word_of_nat (length v)) @ b \<and>
           get E later s' key =
             (case lz4_decompress E (u32_to_le (word_of_nat (length v)) @ b) (Some (int (length v))) of
                Some d \<Rightarrow> Inr (Some d)
              | None \<Rightarrow> Inl (Corrupted ''LZ4 decompression failed''))"
proof -
  let ?s1 = "rolled (put_prepared E key v s)"
  have c: "lz4_compress E v True = Some c" "length c < length v"
    using compress_value_True [OF assms(3)] by auto
  obtain b where b: "lz4_compress E v False = Some b" "c = u32_to_le (word_of_nat (length v)) @ b"
    using c(1) assms(2) by (auto simp: lz4_laws_def)
  have len: "length key < 2 ^ 32" "length c < 2 ^ 64"
    using assms(4,5) c(2) by simp_all
  have s': "s' = (written E True key c (length v) ?s1)\<lparr>store_index :=
      hm_insert key ((plain_location E v ?s1)\<lparr>expires_at := None\<rparr>) (store_index s)\<rparr>"
    using assms(6) by (auto simp: put_def put_eq [OF assms(3)] Let_def split: if_splits)
  have "read_blob E s' ((plain_location E v ?s1)\<lparr>expires_at := None\<rparr>)
      = read_record E (blob_record E True key c (length v) @
          drop (unat (current_offset ?s1) + length (blob_record E True key c (length v)))
            (file_content (files ?s1) (segment_path (data_path ?s1) (current_segment ?s1))))"
    by (simp add: s' read_blob_def plain_location_def written_def Let_def write_at_new del: rolled_frame)
  moreover have "bloom_check E (bloom s') (key_hash_bytes E key)"
    using assms(1) by (simp add: s' bloom_laws_def)
  ultimately have "get E later s' key =
      (case lz4_decompress E c (Some (i32_of_u64 (word_of_nat (length v)))) of
         Some d \<Rightarrow> Inr (Some d) | None \<Rightarrow> Inl (Corrupted ''LZ4 decompression failed''))"
    using read_record_content [OF len, of E True "length v"]
    by (simp add: get_def get_if_valid_def is_expired_def s' record_content_def lz4_content_def split: option.splits)
  then show ?thesis
    using b assms(2) i32_of_length [OF assms(5)] by (auto simp: lz4_laws_def)
qed

text \<open>
  A run-length coder for blocks of zeros that obeys the documented laws: a block of
  zeros is the single byte zero, and nothing else can be decoded.
\<close>

definition zero_lz4_ext :: "unit ext" where
  "zero_lz4_ext = demo_ext
     \<lparr>lz4_compress := (\<lambda>v prepend. if v = replicate (length v) 0 \<and> length v < 2 ^ 32
         then Some ((if prepend then u32_to_le (word_of_nat (length v)) else []) @ [0]) else None),
      lz4_decompress := (\<lambda>d n. case n of
         Some k \<Rightarrow> if d = [0] then Some (replicate (nat k) 0) else None
       | None \<Rightarrow> if length d = 5 \<and> d ! 4 = 0 then Some (replicate (unat (u32_from_le (take 4 d))) 0) else None)\<rparr>"

lemma zero_lz4_laws: "bloom_laws zero_lz4_ext" "lz4_laws zero_lz4_ext"
  by (auto simp: bloom_laws_def zero_lz4_ext_def demo_ext_def lz4_laws_def nth_append split: if_splits)

theorem compressed_get_decodes_prefix_witness:
  "fst (put zero_lz4_ext 0 ''a'' (replicate 200 0) (set_compression Lz4 demo_store)) = Inr () \<and>
   get zero_lz4_ext 1 (snd (put zero_lz4_ext 0 ''a'' (replicate 200 0) (set_compression Lz4 demo_store))) ''a''
     = Inl (Corrupted ''LZ4 decompression failed'')"
proof -
  let ?s = "set_compression Lz4 demo_store"
  have ok: "fst (put zero_lz4_ext 0 ''a'' (replicate 200 0) ?s) = Inr ()"
    by (simp add: put_def put_fst) (simp add: demo_store_def roll_full_def SEGMENT_SIZE_def set_compression_def)
  have c: "compress_value zero_lz4_ext (compression ?s) (replicate 200 0)
      = (u32_to_le (word_of_nat (length (replicate 200 (0 :: byte)))) @ [0], True)"
    by (simp add: compress_value_def zero_lz4_ext_def set_compression_def COMPRESSION_THRESHOLD_def)
  have "put zero_lz4_ext 0 ''a'' (replicate 200 0) ?s
      = (Inr (), snd (put zero_lz4_ext 0 ''a'' (replicate 200 0) ?s))"
    using ok by (metis prod.collapse)
  from compressed_get_decodes_prefix [OF zero_lz4_laws c _ _ this, of 1]
  show ?thesis using ok by (auto simp: zero_lz4_ext_def)
qed
end
