(* ===== verification/BlobRecovery.thy ===== *)
theory BlobRecovery
  imports BlobStore
begin

text \<open>
  Opening a volume (\<open>BlobStore::open\<close> and the functions it calls in
  \<open>src/src/volume/blob.rs\<close>): the index comes from the snapshot, or from scanning the
  segment files when there is none; the write-ahead log is replayed over it; the write
  position is found from the segment files. The scan follows the code's positions and
  its relative seek exactly, so it may fail to end on a damaged file, which the model
  shows as \<open>None\<close>. The lemmas characterise what a reopened store holds, and from that
  what a restart loses, resurrects or refuses.
\<close>

section \<open>The model\<close>

text \<open>
  \<open>Path::file_stem\<close> and \<open>Path::extension\<close>: a name is split at its last dot, unless
  it has none or its only dot is the first character.
\<close>

definition split_name :: "string \<Rightarrow> string \<times> string option" where
  "split_name name =
     (let ext = takeWhile (\<lambda>c. c \<noteq> CHR ''.'') (rev name);
          stem = rev (drop (length ext + 1) (rev name))
      in if length ext = length name \<or> stem = [] then (name, None) else (stem, Some (rev ext)))"

definition strip_prefix :: "string \<Rightarrow> string \<Rightarrow> string option" where
  "strip_prefix p s = (if take (length p) s = p then Some (drop (length p) s) else None)"

definition segment_of_name :: "string \<Rightarrow> u64" where
  "segment_of_name name =
     (case strip_prefix ''seg_'' (fst (split_name name)) of
        None \<Rightarrow> 0
      | Some s \<Rightarrow> (case parse_u64 s of None \<Rightarrow> 0 | Some n \<Rightarrow> n))"

text \<open>
  The files that the nested \<open>read_dir\<close> loops visit: those exactly two directories
  below the data path whose extension is \<open>blob\<close>.
\<close>

definition is_segment_path :: "path \<Rightarrow> path \<Rightarrow> bool" where
  "is_segment_path base p \<longleftrightarrow>
     is_prefix base p \<and> length p = length base + 3 \<and> snd (split_name (last p)) = Some ''blob''"

definition segment_files :: "path \<Rightarrow> fs \<Rightarrow> fs" where
  "segment_files base fs = filter (\<lambda>(p, _). is_segment_path base p) fs"

text \<open>
  One turn of the loop of \<open>scan_segment\<close> after the magic. The value is skipped with a
  relative seek, whose distance is \<open>val_len as i64\<close>: a length of 2^63 or more seeks
  backwards. A seek to before the start of the file fails, one past its end is noticed by
  the read that follows; for a target beyond every possible file the operating system
  reports an error of its own in place of the end of the file. The result is the key, the
  original length, the length of the record as the code computes it, and the new position.
\<close>

definition scan_record :: "bytes \<Rightarrow> nat \<Rightarrow> (string \<times> u64 \<times> u64 \<times> nat) result" where
  "scan_record c pos =
     rbind (read_io 4 (drop pos c)) (\<lambda>(key_len_bytes, _).
     rbind (read_io 8 (drop (pos + 4) c)) (\<lambda>(val_len_bytes, _).
     rbind (read_io 8 (drop (pos + 12) c)) (\<lambda>(orig_len_bytes, _).
       let key_len = u32_from_le key_len_bytes;
           val_len = u64_from_le val_len_bytes
       in rbind (read_io (unat key_len) (drop (pos + 20) c)) (\<lambda>(key_bytes, _).
            let key = of_bytes (utf8_lossy key_bytes);
                target = int (pos + 20 + unat key_len) + sint val_len
            in if target < 0 then Inl (Io InvalidInput)
               else rbind (read_io 4 (drop (nat target) c)) (\<lambda>(_, _).
                 Inr (key, u64_from_le orig_len_bytes,
                      4 + 4 + 8 + 8 + ucast key_len + val_len + 4, nat target + 4))))))"

text \<open>The loop of \<open>scan_segment\<close>; \<open>None\<close> is a loop that does not end.\<close>

partial_function (option) scan_loop ::
  "'b ext \<Rightarrow> u64 \<Rightarrow> bytes \<Rightarrow> nat \<Rightarrow> u64 \<Rightarrow> index \<times> 'b \<Rightarrow> (index \<times> 'b) result option" where
  "scan_loop E segment c pos off st =
     (case read_exact 4 (drop pos c) of
        Inl UnexpectedEof \<Rightarrow> Some (Inr st)
      | Inl e \<Rightarrow> Some (Inl (Io e))
      | Inr (magic, _) \<Rightarrow>
          if magic \<noteq> BLOB_MAGIC \<and> magic \<noteq> BLOB_MAGIC_COMPRESSED then Some (Inr st)
          else (case scan_record c (pos + 4) of
                  Inl e \<Rightarrow> Some (Inl e)
                | Inr (key, orig_len, len, pos') \<Rightarrow>
                    scan_loop E segment c pos' (off + len)
                      (index_insert key
                         \<lparr>shard = segment, offset = off, blob_size = orig_len,
                          blake3 = blake3_hash E (as_bytes key), expires_at = None\<rparr> (fst st),
                       bloom_set E (key_hash_bytes E key) (snd st))))"

definition scan_segment ::
  "'b ext \<Rightarrow> path \<Rightarrow> bytes \<Rightarrow> index \<times> 'b \<Rightarrow> (index \<times> 'b) result option" where
  "scan_segment E p c st = scan_loop E (segment_of_name (last p)) c 0 0 st"

fun rebuild_loop :: "'b ext \<Rightarrow> fs \<Rightarrow> index \<times> 'b \<Rightarrow> (index \<times> 'b) result option" where
  "rebuild_loop E [] st = Some (Inr st)"
| "rebuild_loop E ((p, c) # fs) st =
     (case scan_segment E p c st of
        None \<Rightarrow> None
      | Some (Inl e) \<Rightarrow> Some (Inl e)
      | Some (Inr st') \<Rightarrow> rebuild_loop E fs st')"

definition rebuild_index_from_segments ::
  "'b ext \<Rightarrow> path \<Rightarrow> fs \<Rightarrow> index \<times> 'b \<Rightarrow> (index \<times> 'b) result option" where
  "rebuild_index_from_segments E base fs st = rebuild_loop E (segment_files base fs) st"

definition position_step :: "path \<times> bytes \<Rightarrow> u64 \<times> u64 \<Rightarrow> u64 \<times> u64" where
  "position_step f m =
     (let segment = segment_of_name (last (fst f));
          size = word_of_nat (length (snd f));
          (max_segment, max_offset) = m
      in if segment > max_segment \<or> (segment = max_segment \<and> size > max_offset)
         then (segment, size) else m)"

definition find_current_position :: "path \<Rightarrow> fs \<Rightarrow> u64 \<times> u64" where
  "find_current_position base fs = fold position_step (segment_files base fs) (0, 0)"

text \<open>The callback \<open>BlobStore::open\<close> gives to the replay of the log.\<close>

definition open_callback :: "'b ext \<Rightarrow> wal_entry \<Rightarrow> index \<times> 'b \<Rightarrow> (index \<times> 'b) result" where
  "open_callback E e st =
     (case op e of
        Put key _ \<Rightarrow> Inr (fst st, bloom_set E (key_hash_bytes E key) (snd st))
      | Delete key \<Rightarrow> Inr (snd (index_remove key (fst st)), snd st))"

definition open_bloom :: "'b ext \<Rightarrow> bytes option \<Rightarrow> 'b" where
  "open_bloom E file =
     (case file of
        Some b \<Rightarrow> (case bloom_from_bytes E b of Some x \<Rightarrow> x | None \<Rightarrow> bloom_new E)
      | None \<Rightarrow> bloom_new E)"

definition bloom_keys :: "'b ext \<Rightarrow> index \<times> 'b \<Rightarrow> index \<times> 'b" where
  "bloom_keys E st =
     (fst st, fold (\<lambda>key. bloom_set E (key_hash_bytes E key)) (index_keys (fst st)) (snd st))"

definition store_open ::
  "'b ext \<Rightarrow> path \<Rightarrow> wal_sync_policy \<Rightarrow> fs \<Rightarrow> bytes option \<Rightarrow> 'b blob_store result option" where
  "store_open E base policy fs wal_log =
     (let snapshot = hm_get fs (base @ [''index.snap''])
      in case (if snapshot \<noteq> None then load_snapshot snapshot else Inr index_new) of
           Inl e \<Rightarrow> Some (Inl e)
         | Inr idx \<Rightarrow>
             let b = open_bloom E (hm_get fs (base @ [''bloom.filter'']));
                 w = wal_open (crc32_hash E) policy wal_log
             in case replay (crc32_hash E) (open_callback E) (Some (wal_file w)) (idx, b) of
                  Inl e \<Rightarrow> Some (Inl e)
                | Inr st \<Rightarrow>
                    (case (if snapshot = None then rebuild_index_from_segments E base fs st
                           else Some (Inr (bloom_keys E st))) of
                       None \<Rightarrow> None
                     | Some (Inl e) \<Rightarrow> Some (Inl e)
                     | Some (Inr (idx, b)) \<Rightarrow>
                         let (segment, off) = find_current_position base fs
                         in Some (Inr \<lparr>data_path = base, store_index = idx, bloom = b, store_wal = w,
                                       current_segment = segment, current_offset = off,
                                       sync_policy = policy, compression = NoCompression,
                                       files = fs\<rparr>)))"

definition open_with_compression ::
  "'b ext \<Rightarrow> path \<Rightarrow> wal_sync_policy \<Rightarrow> compression_mode \<Rightarrow> fs \<Rightarrow> bytes option \<Rightarrow>
     'b blob_store result option" where
  "open_with_compression E base policy mode fs wal_log =
     (case store_open E base policy fs wal_log of
        Some (Inr s) \<Rightarrow> Some (Inr (s\<lparr>compression := mode\<rparr>))
      | r \<Rightarrow> r)"

section \<open>Names of segment files\<close>

lemma takeWhile_rev_name:
  "CHR ''.'' \<notin> set ys \<Longrightarrow> takeWhile (\<lambda>c. c \<noteq> CHR ''.'') (rev (xs @ CHR ''.'' # ys)) = rev ys"
  using takeWhile_append2 [of "rev ys" "\<lambda>c. c \<noteq> CHR ''.''" "CHR ''.'' # rev xs"] by auto

lemma split_name_dot:
  assumes "xs \<noteq> []" and "CHR ''.'' \<notin> set ys"
  shows "split_name (xs @ CHR ''.'' # ys) = (xs, Some ys)"
  unfolding split_name_def takeWhile_rev_name [OF assms(2)] using assms(1) by simp

lemma segment_name_split:
  "split_name (''seg_'' @ pad0 4 (show_nat n) @ ''.blob'') = (''seg_'' @ pad0 4 (show_nat n), Some ''blob'')"
  using split_name_dot [of "''seg_'' @ pad0 4 (show_nat n)" "''blob''"] by simp

lemma last_segment_path [simp]: "last (segment_path base s) = ''seg_'' @ pad0 4 (show_nat (unat s)) @ ''.blob''"
  by (simp add: segment_path_def)

lemma segment_of_segment_path [simp]: "segment_of_name (last (segment_path base s)) = s"
  unfolding last_segment_path segment_of_name_def segment_name_split
  by (simp add: strip_prefix_def)

lemma is_segment_path_segment [simp]: "is_segment_path base (segment_path base s)"
  unfolding is_segment_path_def last_segment_path segment_name_split
  by (simp add: segment_path_def is_prefix_def)

lemma not_segment_top [simp]: "\<not> is_segment_path base (base @ [n])"
  by (simp add: is_segment_path_def)

section \<open>Scanning a segment\<close>

type_synonym kv = "string \<times> bytes"

definition kv_ok :: "kv \<Rightarrow> bool" where
  "kv_ok e \<longleftrightarrow> rust_string (fst e) \<and> length (fst e) < 2 ^ 32 \<and> length (snd e) < 2 ^ 63"

definition kv_record :: "'b ext \<Rightarrow> kv \<Rightarrow> bytes" where
  "kv_record E e = blob_record E False (fst e) (snd e) (length (snd e))"

definition kv_bytes :: "'b ext \<Rightarrow> kv list \<Rightarrow> bytes" where
  "kv_bytes E es = concat (map (kv_record E) es)"

fun scan_entries :: "'b ext \<Rightarrow> u64 \<Rightarrow> u64 \<Rightarrow> kv list \<Rightarrow> index \<times> 'b \<Rightarrow> index \<times> 'b" where
  "scan_entries E seg off [] st = st"
| "scan_entries E seg off (e # es) st =
     scan_entries E seg (off + word_of_nat (length (kv_record E e))) es
       (index_insert (fst e)
          \<lparr>shard = seg, offset = off, blob_size = word_of_nat (length (snd e)),
           blake3 = blake3_hash E (as_bytes (fst e)), expires_at = None\<rparr> (fst st),
        bloom_set E (key_hash_bytes E (fst e)) (snd st))"

lemma length_kv_record [simp]: "length (kv_record E e) = 28 + length (fst e) + length (snd e)"
  by (simp add: kv_record_def)

lemma drop_length_add [simp]: "drop (length pre + n) (pre @ c) = drop n c"
  by (simp add: add.commute)

lemma sint_length: "n < 2 ^ 63 \<Longrightarrow> sint (word_of_nat n :: u64) = int n"
  by (simp add: sint_uint uint_nat signed_take_bit_int_eq_self_iff)

lemma scan_record_encode:
  assumes "kv_ok e"
  shows "scan_record (pre @ kv_record E e @ r) (length pre + 4)
    = Inr (fst e, word_of_nat (length (snd e)), word_of_nat (length (kv_record E e)),
           length pre + length (kv_record E e))"
proof -
  let ?k = "word_of_nat (length (fst e)) :: u32" and ?v = "word_of_nat (length (snd e)) :: u64"
  have len: "length (fst e) < 2 ^ 32" "length (snd e) < 2 ^ 63" "utf8_valid (as_bytes (fst e))"
    using assms by (simp_all add: kv_ok_def rust_string_def)
  have k: "unat ?k = length (fst e)" "uint ?k = int (length (fst e))" "sint ?v = int (length (snd e))"
    using len by (simp_all add: sint_length uint_nat)
  have target: "nat (int (length pre) + (24 + (int (length (fst e)) + int (length (snd e)))))
      = length pre + (24 + (length (fst e) + length (snd e)))"
    by simp
  have ck: "ucast ?k = (word_of_nat (length (fst e)) :: u64)"
    using len by (intro word_unat_eq_iff [THEN iffD2]) (simp add: unsigned_ucast_eq take_bit_nat_eq_self)
  show ?thesis
    using len
    by (simp add: scan_record_def kv_record_def blob_record_def blob_checksum_data_def Let_def add.assoc
      codec_simps k ck target)
qed

lemma read_magic_record:
  "read_exact 4 (kv_record E e @ r) = Inr (BLOB_MAGIC, blob_checksum_data (fst e) (snd e) (length (snd e)) @
     u32_to_le (crc32_hash E (blob_checksum_data (fst e) (snd e) (length (snd e)))) @ r)"
  by (simp add: kv_record_def blob_record_def Let_def read_exact_append)

lemma scan_loop_records:
  assumes "list_all kv_ok es"
  shows "scan_loop E seg (pre @ kv_bytes E es @ r) (length pre) off st
    = scan_loop E seg (pre @ kv_bytes E es @ r) (length pre + length (kv_bytes E es))
        (off + word_of_nat (length (kv_bytes E es))) (scan_entries E seg off es st)"
  using assms
proof (induction es arbitrary: pre off st)
  case Nil
  then show ?case by (simp add: kv_bytes_def)
next
  case (Cons e es)
  let ?c = "pre @ kv_bytes E (e # es) @ r"
  have c: "?c = pre @ kv_record E e @ kv_bytes E es @ r" "?c = (pre @ kv_record E e) @ kv_bytes E es @ r"
    by (simp_all add: kv_bytes_def)
  have rec: "scan_record ?c (length pre + 4) = Inr (fst e, word_of_nat (length (snd e)),
      word_of_nat (length (kv_record E e)), length (pre @ kv_record E e))"
    unfolding c(1) using Cons.prems by (subst scan_record_encode) simp_all
  let ?st = "(index_insert (fst e) \<lparr>shard = seg, offset = off, blob_size = word_of_nat (length (snd e)),
           blake3 = blake3_hash E (as_bytes (fst e)), expires_at = None\<rparr> (fst st),
        bloom_set E (key_hash_bytes E (fst e)) (snd st))"
  have "scan_loop E seg ?c (length pre) off st
      = scan_loop E seg ?c (length (pre @ kv_record E e)) (off + word_of_nat (length (kv_record E e))) ?st"
    by (subst scan_loop.simps, subst c(1)) (simp add: read_magic_record rec del: length_append length_kv_record)
  also have "\<dots> = scan_loop E seg ?c (length (pre @ kv_record E e) + length (kv_bytes E es))
      (off + word_of_nat (length (kv_record E e)) + word_of_nat (length (kv_bytes E es)))
      (scan_entries E seg (off + word_of_nat (length (kv_record E e))) es ?st)"
    unfolding c(2) using Cons by (intro Cons.IH) simp
  finally show ?case
    by (simp add: kv_bytes_def add.assoc del: length_kv_record)
qed

lemma scan_loop_end: "length c - pos < 4 \<Longrightarrow> scan_loop E seg c pos off st = Some (Inr st)"
  by (subst scan_loop.simps) (simp add: read_exact_def)

lemma scan_segment_records:
  "list_all kv_ok es \<Longrightarrow>
     scan_segment E p (kv_bytes E es) st = Some (Inr (scan_entries E (segment_of_name (last p)) 0 es st))"
  using scan_loop_records [of es E "segment_of_name (last p)" "[]" "[]" 0 st]
  by (simp add: scan_segment_def scan_loop_end)

section \<open>Damaged segments\<close>

lemma take_append_ge: "length xs \<le> n \<Longrightarrow> take n (xs @ ys) = xs @ take (n - length xs) ys"
  by simp

lemma scan_record_torn:
  assumes "kv_ok e" and "4 \<le> n" and "n < length (kv_record E e)"
  shows "scan_record (pre @ take n (kv_record E e)) (length pre + 4) = Inl (Io UnexpectedEof)"
proof -
  let ?k = "word_of_nat (length (fst e)) :: u32" and ?v = "word_of_nat (length (snd e)) :: u64"
  have len: "length (fst e) < 2 ^ 32" "length (snd e) < 2 ^ 63"
    using assms by (simp_all add: kv_ok_def)
  have k: "unat ?k = length (fst e)" "uint ?k = int (length (fst e))" "sint ?v = int (length (snd e))"
    using len by (simp_all add: sint_length uint_nat)
  have target: "nat (int (length pre) + (24 + (int (length (fst e)) + int (length (snd e)))))
      = length pre + (24 + (length (fst e) + length (snd e)))"
    by simp
  note defs = scan_record_def kv_record_def blob_record_def blob_checksum_data_def Let_def add.assoc
      codec_simps k target
  consider "n < 8" | "8 \<le> n" "n < 16" | "16 \<le> n" "n < 24" | "24 \<le> n" "n < 24 + length (fst e)"
    | "24 + length (fst e) \<le> n"
    by linarith
  then show ?thesis
  proof cases
    case 5
    have "n - (24 + length (fst e)) < length (snd e) + 4"
      using assms(3) 5 by simp
    then show ?thesis using 5 assms len by (simp add: defs)
  qed (use assms len in \<open>simp_all add: defs\<close>)
qed

lemma scan_loop_torn:
  assumes "list_all kv_ok es" and "kv_ok e" and "4 \<le> n" and "n < length (kv_record E e)"
  shows "scan_loop E seg (kv_bytes E es @ take n (kv_record E e)) 0 0 st = Some (Inl (Io UnexpectedEof))"
proof -
  have "scan_loop E seg (kv_bytes E es @ take n (kv_record E e)) 0 0 st =
    scan_loop E seg (kv_bytes E es @ take n (kv_record E e)) (length (kv_bytes E es))
      (word_of_nat (length (kv_bytes E es))) (scan_entries E seg 0 es st)"
    using scan_loop_records [OF assms(1), of E seg "[]" "take n (kv_record E e)" 0 st] by simp
  also have "\<dots> = Some (Inl (Io UnexpectedEof))"
  proof -
    have "read_exact 4 (take n (kv_record E e)) = Inr (BLOB_MAGIC, drop 4 (take n (kv_record E e)))"
      using assms(3) by (simp add: kv_record_def blob_record_def Let_def read_exact_append)
    then show ?thesis
      using scan_record_torn [OF assms(2-4), of "kv_bytes E es"]
      by (subst scan_loop.simps) simp
  qed
  finally show ?thesis .
qed

text \<open>
  A record header whose value length is \<open>2^64 - 28\<close>: skipping the value moves the
  reader back to just before the checksum of the previous record, and the next turn of
  the loop starts at the same header again.
\<close>

definition loop_header :: "u64 \<Rightarrow> bytes" where
  "loop_header orig = BLOB_MAGIC @ u32_to_le 0 @ u64_to_le (- 28) @ u64_to_le orig"

lemma scan_record_loops:
  assumes "4 \<le> length pre"
  shows "\<exists>key len. scan_record (pre @ loop_header orig @ r) (length pre + 4) = Inr (key, orig, len, length pre)"
proof -
  have t: "nat (int (length pre + 4 + 20) + (- 28)) = length pre - 4" "\<not> int (length pre + 4 + 20) + (- 28) < 0"
    using assms by simp_all
  have "read_io 4 (drop (length pre - 4) pre @ loop_header orig @ r)
      = Inr (drop (length pre - 4) pre, loop_header orig @ r)"
    using assms by (intro read_io_append) simp
  then show ?thesis
    using assms t
    by (simp add: scan_record_def loop_header_def codec_simps Let_def)
qed

lemma scan_loop_diverges:
  assumes "4 \<le> length pre"
  shows "scan_loop E seg (pre @ loop_header orig @ r) (length pre) off st = None"
proof -
  have "\<not> (c = pre @ loop_header orig @ r \<and> pos = length pre)"
    if "scan_loop E seg c pos off st = Some y" for E :: "'a ext" and seg c pos off st y
    using that
  proof (rule scan_loop.raw_induct [rotated, where
        P = "\<lambda>E seg c pos off st y. \<not> (c = pre @ loop_header orig @ r \<and> pos = length pre)"], goal_cases)
    case (1 loop E seg c pos off st y)
    obtain key len where "scan_record (pre @ loop_header orig @ r) (length pre + 4) = Inr (key, orig, len, length pre)"
      using scan_record_loops [OF assms] by blast
    moreover have "\<exists>q. read_exact 4 (loop_header orig @ r) = Inr (BLOB_MAGIC, q)"
      by (simp add: loop_header_def read_exact_append)
    ultimately show ?case
      using 1(2) by (auto split: if_splits dest!: 1(1))
  qed
  then show ?thesis by (metis option.exhaust)
qed

section \<open>The index that a scan builds\<close>

lemma kv_bytes_snoc: "kv_bytes E (es @ [e]) = kv_bytes E es @ kv_record E e"
  by (simp add: kv_bytes_def)

lemma scan_entries_append:
  "scan_entries E seg off (es @ fs) st =
     scan_entries E seg (off + word_of_nat (length (kv_bytes E es))) fs (scan_entries E seg off es st)"
  by (induction es arbitrary: off st) (simp_all add: kv_bytes_def add.assoc del: length_kv_record)

text \<open>Each key is mapped to the place of its last record.\<close>

lemma scan_entries_get:
  assumes "length (kv_bytes E es) < 2 ^ 64"
  shows "case map_of (rev es) k of
           None \<Rightarrow> hm_get (fst (scan_entries E seg 0 es ([], b))) k = None
         | Some v \<Rightarrow> \<exists>loc p q. hm_get (fst (scan_entries E seg 0 es ([], b))) k = Some loc \<and>
             shard loc = seg \<and> expires_at loc = None \<and>
             kv_bytes E es = p @ kv_record E (k, v) @ q \<and> unat (offset loc) = length p"
  using assms
proof (induction es rule: rev_induct)
  case Nil
  then show ?case by simp
next
  case (snoc e es)
  then have len: "length (kv_bytes E es) < 2 ^ 64"
    by (simp add: kv_bytes_snoc)
  show ?case
  proof (cases "fst e = k")
    case True
    then have e: "e = (k, snd e)" by auto
    let ?loc = "\<lparr>shard = seg, offset = word_of_nat (length (kv_bytes E es)), blob_size = word_of_nat (length (snd e)),
      blake3 = blake3_hash E (as_bytes k), expires_at = None\<rparr>"
    have get: "hm_get (fst (scan_entries E seg 0 (es @ [e]) ([], b))) k = Some ?loc"
      using True by (simp add: scan_entries_append index_insert_def)
    have bytes: "kv_bytes E (es @ [e]) = kv_bytes E es @ kv_record E (k, snd e) @ []"
      using e by (metis append_Nil2 kv_bytes_snoc)
    have last: "map_of (rev (es @ [e])) k = Some (snd e)"
      by (subst e) simp
    show ?thesis
      unfolding last option.case
      by (rule exI [of _ ?loc], rule exI [of _ "kv_bytes E es"], rule exI [of _ "[]"])
        (use get bytes len in simp)
  next
    case False
    then have get: "hm_get (fst (scan_entries E seg 0 (es @ [e]) ([], b))) k
        = hm_get (fst (scan_entries E seg 0 es ([], b))) k" "map_of (rev (es @ [e])) k = map_of (rev es) k"
      by (cases e, simp add: scan_entries_append index_insert_def)+
    show ?thesis
      using snoc.IH [OF len] unfolding get by (fastforce simp: kv_bytes_snoc split: option.splits)
  qed
qed

lemma hm_ok_scan_entries: "hm_ok (fst st) \<Longrightarrow> hm_ok (fst (scan_entries E seg off es st))"
  by (induction es arbitrary: off st) (simp_all add: index_insert_def)

lemma scan_entries_bloom_mono:
  assumes "bloom_laws E"
  shows "bloom_check E (snd st) h \<Longrightarrow> bloom_check E (snd (scan_entries E seg off es st)) h"
  using assms by (induction es arbitrary: off st) (simp_all add: bloom_laws_def)

lemma scan_entries_bloom:
  assumes "bloom_laws E"
  shows "k \<in> fst ` set es \<Longrightarrow> bloom_check E (snd (scan_entries E seg off es st)) (key_hash_bytes E k)"
proof (induction es arbitrary: off st)
  case (Cons e es)
  then show ?case
  proof (cases "k \<in> fst ` set es")
    case False
    then have "fst e = k" using Cons.prems by auto
    then show ?thesis
      using assms by (auto simp: bloom_laws_def intro!: scan_entries_bloom_mono [OF assms])
  qed (simp add: Cons.IH)
qed simp

section \<open>Replaying the log over an index\<close>

definition deleted_keys :: "wal_entry list \<Rightarrow> string set" where
  "deleted_keys es = {k. \<exists>e \<in> set es. op e = Delete k}"

definition replay_entry :: "'b ext \<Rightarrow> wal_entry \<Rightarrow> index \<times> 'b \<Rightarrow> index \<times> 'b" where
  "replay_entry E e st =
     (case op e of
        Put key _ \<Rightarrow> (fst st, bloom_set E (key_hash_bytes E key) (snd st))
      | Delete key \<Rightarrow> (hm_remove key (fst st), snd st))"

lemma replay_fold: "fold_res (open_callback E) es st = Inr (fold (replay_entry E) es st)"
proof (induction es arbitrary: st)
  case (Cons e es)
  have "open_callback E e st = Inr (replay_entry E e st)"
    by (simp add: open_callback_def replay_entry_def index_remove_def split: wal_op.splits)
  with Cons show ?case by simp
qed simp

lemma replay_index:
  "hm_get (fst (fold (replay_entry E) es st)) k = (if k \<in> deleted_keys es then None else hm_get (fst st) k)"
proof (induction es arbitrary: st)
  case (Cons e es)
  have "k \<in> deleted_keys (e # es) \<longleftrightarrow> op e = Delete k \<or> k \<in> deleted_keys es"
    by (auto simp: deleted_keys_def)
  with Cons show ?case by (cases "op e") (auto simp: replay_entry_def)
qed (simp add: deleted_keys_def)

lemma replay_ok: "hm_ok (fst st) \<Longrightarrow> hm_ok (fst (fold (replay_entry E) es st))"
  by (induction es arbitrary: st) (simp_all add: replay_entry_def split: wal_op.splits)

lemma replay_empty: "fst st = [] \<Longrightarrow> fst (fold (replay_entry E) es st) = []"
  by (induction es arbitrary: st) (simp_all add: replay_entry_def split: wal_op.splits)

section \<open>Stores that fit one segment\<close>

fun puts_of :: "(u64 \<times> kv_op) list \<Rightarrow> kv list" where
  "puts_of [] = []"
| "puts_of ((now, KvPut k v ttl) # ops) = (k, v) # puts_of ops"
| "puts_of (_ # ops) = puts_of ops"

text \<open>A directory that holds the records \<open>es\<close> in its first segment and nothing else.\<close>

definition one_segment :: "'b ext \<Rightarrow> path \<Rightarrow> kv list \<Rightarrow> fs" where
  "one_segment E base es = (if es = [] then [] else [(segment_path base 0, kv_bytes E es)])"

definition single_segment :: "'b ext \<Rightarrow> kv list \<Rightarrow> 'b blob_store \<Rightarrow> bool" where
  "single_segment E es s \<longleftrightarrow>
     current_segment s = 0 \<and> compression s = NoCompression \<and>
     unat (current_offset s) = length (kv_bytes E es) \<and> files s = one_segment E (data_path s) es"

lemma write_at_end: "write_at (length c) d c = c @ d"
  by (simp add: write_at_def)

lemma single_segment_put:
  assumes "single_segment E es s" and "length (kv_bytes E es) \<le> 2 ^ 26" and "kv_ok (key, v)"
    and "put_with_ttl E now key v ttl s = (r, s')"
  shows "r = Inr ()" and "single_segment E (es @ [(key, v)]) s'" and "data_path s' = data_path s"
proof -
  let ?s1 = "put_prepared E key v s"
  have off: "unat (current_offset s) \<le> 2 ^ 26"
    using assms(1,2) by (simp add: single_segment_def)
  then have nr: "\<not> current_offset s > SEGMENT_SIZE"
    using unat_SEGMENT_SIZE by (simp add: word_less_nat_alt)
  then have roll: "rolled ?s1 = ?s1" "\<not> roll_full s"
    by (simp_all add: rolled_def roll_full_def)
  have cv: "compress_value E (compression s) v = (v, False)"
    using assms(1) by (simp add: single_segment_def compress_value_def)
  have eq: "r = Inr ()" "\<exists>idx. s' = (written E False key v (length v) ?s1)\<lparr>store_index := idx\<rparr>"
    using assms(4) roll by (auto simp: put_eq [OF cv] Let_def)
  then obtain idx where s': "s' = (written E False key v (length v) ?s1)\<lparr>store_index := idx\<rparr>" by blast
  show "r = Inr ()" "data_path s' = data_path s" using eq(1) s' by simp_all
  have len: "length key < 2 ^ 32" "length v < 2 ^ 63" using assms(3) by (simp_all add: kv_ok_def)
  have "unat (current_offset s') = length (kv_bytes E (es @ [(key, v)]))"
    using unat_written_offset [of ?s1 key v E False "length v"] off len assms(1)
    by (simp add: s' kv_bytes_snoc single_segment_def)
  moreover have "files s' = one_segment E (data_path s) (es @ [(key, v)])"
    using assms(1)
    by (simp add: s' written_def Let_def single_segment_def one_segment_def file_content_def write_at_end
        kv_bytes_snoc kv_record_def) (simp add: kv_bytes_def write_at_def)
  ultimately show "single_segment E (es @ [(key, v)]) s'"
    using assms(1) s' by (simp add: single_segment_def)
qed

fun journal_op_ok :: "kv_op \<Rightarrow> bool" where
  "journal_op_ok (KvPut k v ttl) = kv_ok (k, v)"
| "journal_op_ok _ = True"

lemma single_segment_step:
  assumes "single_segment E es s" and "journal_op_ok x" and "length (kv_bytes E es) \<le> 2 ^ 26"
    and "store_step E now x s = (out, s')"
  shows "single_segment E (es @ puts_of [(now, x)]) s' \<and> data_path s' = data_path s"
proof (cases x)
  case (KvPut k v ttl)
  then obtain r where "put_with_ttl E now k v ttl s = (r, s')"
    using assms(4) by (auto split: prod.splits)
  then show ?thesis
    using single_segment_put [OF assms(1,3)] assms(2) KvPut by simp
next
  case (KvGet k)
  then show ?thesis using assms by simp
next
  case (KvDelete k)
  then show ?thesis using assms by (auto simp: delete_def Let_def single_segment_def)
next
  case KvCleanup
  then show ?thesis using assms by (auto simp: store_cleanup_expired_def single_segment_def split: prod.splits)
qed

lemma puts_of_Cons: "puts_of (x # ops) = puts_of [x] @ puts_of ops"
  by (cases x, cases "snd x") auto

lemma single_segment_run:
  assumes "single_segment E es s" and "list_all (\<lambda>(now, x). journal_op_ok x) ops"
    and "length (kv_bytes E (es @ puts_of ops)) \<le> 2 ^ 26"
    and "run_ops (store_step E) ops s = (outs, s')"
  shows "single_segment E (es @ puts_of ops) s' \<and> data_path s' = data_path s"
  using assms
proof (induction ops arbitrary: es s outs s')
  case Nil
  then show ?case by simp
next
  case (Cons y ops)
  obtain now x where y: "y = (now, x)" by fastforce
  obtain out s1 where s1: "store_step E now x s = (out, s1)" by fastforce
  obtain outs' s2 where s2: "run_ops (store_step E) ops s1 = (outs', s2)" by fastforce
  have "length (kv_bytes E es) \<le> 2 ^ 26"
    using Cons.prems(3) by (simp add: kv_bytes_def)
  then have 1: "single_segment E (es @ puts_of [y]) s1" "data_path s1 = data_path s"
    using single_segment_step [OF Cons.prems(1) _ _ s1] Cons.prems(2) y by auto
  have "single_segment E ((es @ puts_of [y]) @ puts_of ops) s2 \<and> data_path s2 = data_path s1"
    using Cons.prems(2,3) puts_of_Cons [of y ops] by (intro Cons.IH [OF 1(1) _ _ s2]) auto
  then show ?case
    using 1(2) Cons.prems(4) y s1 s2 puts_of_Cons [of y ops] by auto
qed

section \<open>Opening without a snapshot\<close>

lemma replay_open: "replay crc (open_callback E) (Some f) st = Inr (fold (replay_entry E) (wal_entries crc f) st)"
  by (simp add: replay_def replay_loop_fold replay_fold)

definition log_of :: "bytes option \<Rightarrow> bytes" where
  "log_of wal_log = (case wal_log of Some b \<Rightarrow> b | None \<Rightarrow> [])"

lemma wal_file_open: "wal_file (wal_open crc p f) = log_of f"
  by (simp add: wal_open_def log_of_def Let_def)

definition replayed_bloom :: "'b ext \<Rightarrow> path \<Rightarrow> fs \<Rightarrow> bytes option \<Rightarrow> 'b" where
  "replayed_bloom E base fs wal_log =
     snd (fold (replay_entry E) (wal_entries (crc32_hash E) (log_of wal_log))
       ([], open_bloom E (hm_get fs (base @ [''bloom.filter'']))))"

lemma open_without_snapshot:
  assumes "hm_get fs (base @ [''index.snap'']) = None"
  shows "store_open E base policy fs wal_log =
    (case rebuild_index_from_segments E base fs ([], replayed_bloom E base fs wal_log) of
       None \<Rightarrow> None
     | Some (Inl e) \<Rightarrow> Some (Inl e)
     | Some (Inr (idx, b)) \<Rightarrow>
         Some (Inr \<lparr>data_path = base, store_index = idx, bloom = b,
                    store_wal = wal_open (crc32_hash E) policy wal_log,
                    current_segment = fst (find_current_position base fs),
                    current_offset = snd (find_current_position base fs),
                    sync_policy = policy, compression = NoCompression, files = fs\<rparr>))"
proof -
  let ?st = "fold (replay_entry E) (wal_entries (crc32_hash E) (log_of wal_log))
               ([], open_bloom E (hm_get fs (base @ [''bloom.filter''])))"
  have st: "?st = ([], replayed_bloom E base fs wal_log)"
    using replay_empty [of "([], open_bloom E (hm_get fs (base @ [''bloom.filter''])))" E] by (simp add: replayed_bloom_def prod_eq_iff)
  show ?thesis
    using assms(1)
    by (cases "find_current_position base fs")
      (simp add: store_open_def replay_open wal_file_open index_new_def Let_def st split: option.splits sum.splits)
qed

lemma segment_files_one [simp]: "segment_files base (one_segment E base es) = one_segment E base es"
  by (simp add: segment_files_def one_segment_def)

lemma position_one_segment:
  assumes "length (kv_bytes E es) < 2 ^ 64"
  shows "find_current_position base (one_segment E base es) = (0, word_of_nat (length (kv_bytes E es)))"
proof (cases "es = []")
  case True
  then show ?thesis by (simp add: find_current_position_def one_segment_def segment_files_def kv_bytes_def)
next
  case False
  then have "0 < length (kv_bytes E es)"
    by (cases es) (simp_all add: kv_bytes_def)
  then have "word_of_nat (length (kv_bytes E es)) > (0 :: u64)"
    using assms by (simp add: word_less_nat_alt)
  then show ?thesis
    using False unfolding find_current_position_def segment_files_one
    by (simp add: one_segment_def position_step_def Let_def del: last_segment_path)
qed

lemma rebuild_one_segment:
  assumes "list_all kv_ok es"
  shows "rebuild_index_from_segments E base (one_segment E base es) st = Some (Inr (scan_entries E 0 0 es st))"
proof (cases "es = []")
  case True
  then show ?thesis by (simp add: rebuild_index_from_segments_def one_segment_def segment_files_def)
next
  case False
  then show ?thesis
    using assms unfolding rebuild_index_from_segments_def segment_files_one
    by (simp add: one_segment_def scan_segment_records del: last_segment_path)
qed

text \<open>What a scanned store holds: for every key the value of its last record, without an expiry time.\<close>

lemma scanned_store:
  assumes laws: "bloom_laws E" and ok: "list_all kv_ok es" and len: "length (kv_bytes E es) < 2 ^ 64"
    and s: "store_index s = fst (scan_entries E 0 0 es ([], b))" "bloom s = snd (scan_entries E 0 0 es ([], b))"
      "current_segment s = 0" "current_offset s = word_of_nat (length (kv_bytes E es))"
      "files s = one_segment E (data_path s) es"
  shows "store_inv E s" and "store_abs E s = (\<lambda>k. map_option (\<lambda>v. (Inr v, None)) (map_of (rev es) k))"
proof -
  have at: "blob_at E s k (Inr v) loc \<and> expires_at loc = None"
    if m: "map_of (rev es) k = Some v" and get: "hm_get (store_index s) k = Some loc" for k v loc
  proof -
    obtain p q where loc: "shard loc = 0" "expires_at loc = None"
      "kv_bytes E es = p @ kv_record E (k, v) @ q" "unat (offset loc) = length p"
      using scan_entries_get [OF len, of 0 b k] m get s(1) by auto
    have mem: "(k, v) \<in> set es" using map_of_SomeD [OF m] by simp
    then have kv: "kv_ok (k, v)" "es \<noteq> []" using ok by (auto simp: list_all_iff)
    have "unat (current_offset s) = length (kv_bytes E es)"
      using s(4) len by simp
    then have "unat (offset loc) + 28 + length k + length v \<le> unat (current_offset s)"
      by (simp add: loc(3,4))
    then have "record_at E s k False v (length v) loc"
      using loc kv s(3,5) by (auto simp: record_at_def kv_ok_def one_segment_def kv_record_def)
    then show ?thesis using loc(2) by (force simp: blob_at_def record_content_def)
  qed
  have none: "hm_get (store_index s) k = None \<longleftrightarrow> map_of (rev es) k = None" for k
    using scan_entries_get [OF len, of 0 b k] s(1) by (auto split: option.splits)
  have key: "bloom_check E (bloom s) (key_hash_bytes E k)" if "map_of (rev es) k \<noteq> None" for k
    using that scan_entries_bloom [OF laws, of k es] s(2) by (auto simp: map_of_eq_None_iff)
  have hm: "hm_ok (store_index s)" using s(1) by (simp add: hm_ok_scan_entries)
  show inv: "store_inv E s"
    unfolding store_inv_def
  proof (intro conjI allI impI)
    fix k loc assume get: "hm_get (store_index s) k = Some loc"
    then obtain v where "map_of (rev es) k = Some v" using none [of k] by (cases "map_of (rev es) k") auto
    then show "bloom_check E (bloom s) (key_hash_bytes E k)" "\<exists>c. blob_at E s k c loc"
      using key at [OF _ get] by auto
  qed (rule hm)
  show "store_abs E s = (\<lambda>k. map_option (\<lambda>v. (Inr v, None)) (map_of (rev es) k))"
  proof
    fix k
    show "store_abs E s k = map_option (\<lambda>v. (Inr v, None)) (map_of (rev es) k)"
    proof (cases "map_of (rev es) k")
      case None
      then show ?thesis using none [of k] by (simp add: store_abs_def)
    next
      case (Some v)
      then obtain loc where get: "hm_get (store_index s) k = Some loc" using none [of k] by (cases "hm_get (store_index s) k") auto
      then show ?thesis using store_abs_at [OF inv get] at Some by auto
    qed
  qed
qed


lemma open_one_segment:
  assumes "bloom_laws E" and ok: "list_all kv_ok es" and len: "length (kv_bytes E es) < 2 ^ 64"
    and fs: "fs = one_segment E base es"
  shows "\<exists>s. store_open E base policy fs wal_log = Some (Inr s) \<and> store_inv E s \<and>
           store_abs E s = (\<lambda>k. map_option (\<lambda>v. (Inr v, None)) (map_of (rev es) k))"
proof -
  have none: "hm_get fs (base @ [''index.snap'']) = None"
    by (simp add: fs one_segment_def)
  show ?thesis
    unfolding open_without_snapshot [OF none]
    using scanned_store [OF assms(1) ok len, of _ "replayed_bloom E base fs wal_log"]
      rebuild_one_segment [OF ok, of E base] position_one_segment [OF len, of base]
    by (simp add: fs split_def)
qed

lemma puts_of_ok: "list_all (\<lambda>(now, x). journal_op_ok x) ops \<Longrightarrow> list_all kv_ok (puts_of ops)"
  by (induction ops rule: puts_of.induct) auto

section \<open>Properties\<close>

text \<open>
  C3. A restart without a snapshot restores the puts: a store that started empty, ran any
  operations and still fits its first segment is reopened from its segment file as the
  map that holds for every key the value of its last put, without an expiry time,
  whatever the log holds and in whatever order operations came. The opening always
  returns, and the reopened store satisfies the invariant.
\<close>

theorem reopen_recovers_puts:
  assumes "bloom_laws E" and "single_segment E [] s"
    and "list_all (\<lambda>(now, x). journal_op_ok x) ops"
    and "length (kv_bytes E (puts_of ops)) \<le> 2 ^ 26"
    and "run_ops (store_step E) ops s = (outs, s')"
  shows "\<exists>s''. store_open E (data_path s') policy (files s') wal_log = Some (Inr s'') \<and> store_inv E s'' \<and>
           store_abs E s'' = (\<lambda>k. map_option (\<lambda>v. (Inr v, None)) (map_of (rev (puts_of ops)) k))"
proof (rule open_one_segment [OF assms(1) puts_of_ok [OF assms(3)]])
  show "files s' = one_segment E (data_path s') (puts_of ops)"
    using single_segment_run [OF assms(2,3) _ assms(5)] assms(4) by (simp add: single_segment_def)
qed (use assms(4) in simp)

lemma demo_single [simp]: "single_segment demo_ext [] demo_store"
  by (simp add: single_segment_def demo_store_def kv_bytes_def one_segment_def)

theorem reopen_recovers_puts_witness:
  "\<exists>s''. store_open demo_ext
       (data_path (snd (run_ops (store_step demo_ext) [(1, KvPut ''a'' [7] (Some 3)), (2, KvDelete ''a'')] demo_store)))
       Always
       (files (snd (run_ops (store_step demo_ext) [(1, KvPut ''a'' [7] (Some 3)), (2, KvDelete ''a'')] demo_store)))
       None = Some (Inr s'') \<and> store_abs demo_ext s'' ''a'' = Some (Inr [7], None)"
  using reopen_recovers_puts [OF demo_laws demo_single _ _ surjective_pairing,
      of "[(1, KvPut ''a'' [7] (Some 3)), (2, KvDelete ''a'')]" Always None]
  by (auto simp: kv_ok_def string_eval kv_bytes_def simp del: run_ops.simps)

text \<open>
  C36. A crash in the middle of a write keeps the volume from opening: when the segment
  file ends in a record that is cut off anywhere after its magic, opening the directory
  without a snapshot fails with an end-of-file error, although every record before it is
  intact.
\<close>

theorem torn_segment_blocks_open:
  assumes "list_all kv_ok es" and "kv_ok e" and "4 \<le> n" and "n < length (kv_record E e)"
  shows "store_open E base policy [(segment_path base 0, kv_bytes E es @ take n (kv_record E e))] wal_log
           = Some (Inl (Io UnexpectedEof))"
  using scan_loop_torn [OF assms, of 0]
  by (subst open_without_snapshot)
    (simp_all add: rebuild_index_from_segments_def segment_files_def scan_segment_def del: last_segment_path)

theorem torn_segment_blocks_open_witness:
  "store_open demo_ext [''data''] Always
     [(segment_path [''data''] 0, kv_bytes demo_ext [(''a'', [1])] @ take 20 (kv_record demo_ext (''b'', [2])))] None
   = Some (Inl (Io UnexpectedEof))"
  by (rule torn_segment_blocks_open) (simp_all add: kv_ok_def string_eval)

text \<open>
  C37. A damaged length keeps the volume from opening forever: a segment file that holds at
  least one record and then a header whose value length is \<open>2^64 - 28\<close> makes the scan
  seek backwards to that same header without end, so that opening the directory does not
  return.
\<close>

theorem damaged_length_hangs_open:
  assumes "list_all kv_ok es" and "es \<noteq> []"
  shows "store_open E base policy [(segment_path base 0, kv_bytes E es @ loop_header orig @ r)] wal_log = None"
proof -
  have "4 \<le> length (kv_bytes E es)"
    using assms(2) by (cases es) (simp_all add: kv_bytes_def)
  then have "scan_loop E 0 (kv_bytes E es @ loop_header orig @ r) 0 0 st = None" for st
    using scan_loop_records [OF assms(1), of E 0 "[]" "loop_header orig @ r" 0 st]
    by (simp add: scan_loop_diverges)
  then show ?thesis
    by (subst open_without_snapshot)
      (simp_all add: rebuild_index_from_segments_def segment_files_def scan_segment_def del: last_segment_path)
qed

theorem damaged_length_hangs_open_witness:
  "store_open demo_ext [''data''] Always
     [(segment_path [''data''] 0, kv_bytes demo_ext [(''a'', [1])] @ loop_header 0 @ [])] None = None"
  by (rule damaged_length_hangs_open) (simp_all add: kv_ok_def string_eval)

section \<open>Opening with a snapshot\<close>

lemma open_with_snapshot:
  assumes "hm_get fs (base @ [''index.snap'']) = Some (save_snapshot idx)"
    and "hm_ok idx" and "list_all snap_ok idx" and "length idx < 2 ^ 64"
  shows "\<exists>s. store_open E base policy fs wal_log = Some (Inr s) \<and> data_path s = base \<and> files s = fs \<and>
           (\<forall>k. hm_get (store_index s) k =
              (if k \<in> deleted_keys (wal_entries (crc32_hash E) (log_of wal_log)) then None else hm_get idx k))"
proof -
  let ?b = "open_bloom E (hm_get fs (base @ [''bloom.filter'']))"
  let ?st = "fold (replay_entry E) (wal_entries (crc32_hash E) (log_of wal_log)) (idx, ?b)"
  have "hm_get (fst (bloom_keys E ?st)) k = (if k \<in> deleted_keys (wal_entries (crc32_hash E) (log_of wal_log))
          then None else hm_get idx k)" for k
    by (simp add: bloom_keys_def replay_index)
  then show ?thesis
    using assms load_saved_index [OF assms(2-4)]
    by (auto simp: store_open_def replay_open wal_file_open Let_def split_def)
qed

text \<open>Saving a snapshot touches no segment file.\<close>

lemma save_snapshot_frame [simp]:
  "store_index (save_store_snapshot E s) = store_index s" "bloom (save_store_snapshot E s) = bloom s"
  "data_path (save_store_snapshot E s) = data_path s" "store_wal (save_store_snapshot E s) = store_wal s"
  "compression (save_store_snapshot E s) = compression s"
  "current_segment (save_store_snapshot E s) = current_segment s"
  by (simp_all add: save_store_snapshot_def Let_def)

lemma save_snapshot_at: "blob_at E (save_store_snapshot E s) = blob_at E s"
  by (intro HOL.ext) (simp add: blob_at_def record_at_def save_store_snapshot_def Let_def)

lemma save_snapshot_inv: "store_inv E s \<Longrightarrow> store_inv E (save_store_snapshot E s)"
  by (simp add: store_inv_def save_snapshot_at)

lemma save_snapshot_file:
  "hm_get (files (save_store_snapshot E s)) (data_path s @ [''index.snap'']) = Some (save_snapshot (store_index s))"
  by (simp add: save_store_snapshot_def Let_def)

lemma put_keeps_snapshot:
  assumes "put_with_ttl E now key v ttl s = (r, s')"
  shows "hm_get (files s') (data_path s @ [n]) = hm_get (files s) (data_path s @ [n])" "data_path s' = data_path s"
proof -
  obtain wv z where cv: "compress_value E (compression s) v = (wv, z)" by fastforce
  show "hm_get (files s') (data_path s @ [n]) = hm_get (files s) (data_path s @ [n])" "data_path s' = data_path s"
    using assms by (auto simp: put_eq [OF cv] Let_def written_def split: if_splits)
qed

definition index_saved :: "'b blob_store \<Rightarrow> bool" where
  "index_saved s \<longleftrightarrow> list_all snap_ok (store_index s) \<and> length (store_index s) < 2 ^ 64"

text \<open>
  C11. What a restart from a snapshot restores: opening a directory whose snapshot was
  saved from an index restores exactly the entries of that index whose keys have no
  delete anywhere in the log. Puts in the log restore nothing, and a delete in the log
  removes a key even if the snapshot is newer than the delete.
\<close>

theorem reopen_from_snapshot:
  assumes "store_inv E s" and "index_saved s"
    and "hm_get fs (base @ [''index.snap'']) =
           hm_get (files (save_store_snapshot E s)) (data_path s @ [''index.snap''])"
  shows "\<exists>s'. store_open E base policy fs wal_log = Some (Inr s') \<and> files s' = fs \<and>
           (\<forall>k. index_get (store_index s') k =
              (if k \<in> deleted_keys (wal_entries (crc32_hash E) (log_of wal_log)) then None
               else index_get (store_index s) k))"
  using open_with_snapshot [of fs base "store_index s" E policy wal_log] assms
  by (auto simp: save_snapshot_file index_get_def store_inv_def index_saved_def)

lemma append_put_content:
  "wal_content (snd (append_put crc k v w)) = wal_content w @ wal_encode crc \<lparr>sequence = next_sequence w, op = Put k v\<rparr>"
  using content_append_op [of crc "Put k v" w] by simp

lemma append_delete_content:
  "wal_content (snd (append_delete crc k w)) = wal_content w @ wal_encode crc \<lparr>sequence = next_sequence w, op = Delete k\<rparr>"
  using content_append_op [of crc "Delete k" w] by simp

lemma put_wal:
  "put_with_ttl E now key v ttl s = (r, s') \<Longrightarrow>
     store_wal s' = snd (append_put (crc32_hash E) key v (store_wal s))"
  by (cases "compress_value E (compression s) v")
    (auto simp: put_eq Let_def put_prepared_def split: if_splits)

lemma utf8_valid_zeros [simp]: "utf8_valid (replicate n 0x30)"
  by (induction n) (simp_all add: utf8_step_def)

text \<open>Two keys are put, the second one with a lifetime, the index is saved, and the first key is deleted.\<close>

definition demo_pair :: "unit blob_store" where
  "demo_pair = snd (put_with_ttl demo_ext 5 ''b'' [2] (Some 10) (snd (put_with_ttl demo_ext 5 ''a'' [1] None demo_store)))"

lemma demo_pair_inv: "store_inv demo_ext demo_pair"
proof -
  let ?s = "snd (put_with_ttl demo_ext 5 ''a'' [1] None demo_store)"
  have inv: "store_inv demo_ext ?s"
    by (rule put_refines(1) [OF demo_laws demo_store_inv(1) _ _ surjective_pairing])
      (simp_all add: put_ok_def demo_store_def)
  have seg: "current_segment ?s \<noteq> - 1"
    using put_refines(3) [OF demo_laws demo_store_inv(1) _ _ surjective_pairing, of "''a''" "[1]" 5 None]
    by (auto simp: put_ok_def demo_store_def unsigned_minus_1_eq_mask mask_eq_exp_minus_1)
  have "put_ok ''b'' [2]" by (simp add: put_ok_def)
  then show ?thesis
    unfolding demo_pair_def by (rule put_refines(1) [OF demo_laws inv _ seg surjective_pairing])
qed

lemma demo_pair_eval:
  "data_path demo_pair = [''data'']"
  "store_index demo_pair =
     [(''a'', \<lparr>shard = 0, offset = 0, blob_size = 1, blake3 = replicate 64 CHR ''0'', expires_at = None\<rparr>),
      (''b'', \<lparr>shard = 0, offset = 30, blob_size = 1, blake3 = replicate 64 CHR ''0'', expires_at = Some 15\<rparr>)]"
proof -
  have cv: "compress_value demo_ext NoCompression v = (v, False)" for v
    by (simp add: compress_value_def)
  show "data_path demo_pair = [''data'']"
    by (simp add: demo_pair_def put_with_ttl_def write_blob_def write_blob_to_segment_def cv demo_store_def
        SEGMENT_SIZE_def Let_def)
  show "store_index demo_pair =
     [(''a'', \<lparr>shard = 0, offset = 0, blob_size = 1, blake3 = replicate 64 CHR ''0'', expires_at = None\<rparr>),
      (''b'', \<lparr>shard = 0, offset = 30, blob_size = 1, blake3 = replicate 64 CHR ''0'', expires_at = Some 15\<rparr>)]"
    by (simp add: demo_pair_def put_with_ttl_def write_blob_def write_blob_to_segment_def cv demo_store_def
        SEGMENT_SIZE_def index_insert_def blake3_hash_def Let_def) (simp add: demo_ext_def)
qed

lemma demo_pair_log:
  "\<exists>m n. wal_entries (crc32_hash demo_ext) (wal_content (store_wal (snd (delete demo_ext ''a'' demo_pair))))
     = [\<lparr>sequence = 0, op = Put ''a'' [1]\<rparr>, \<lparr>sequence = m, op = Put ''b'' [2]\<rparr>, \<lparr>sequence = n, op = Delete ''a''\<rparr>]"
proof -
  let ?s = "snd (put_with_ttl demo_ext 5 ''a'' [1] None demo_store)"
  let ?es = "[\<lparr>sequence = 0, op = Put ''a'' [1]\<rparr>, \<lparr>sequence = next_sequence (store_wal ?s), op = Put ''b'' [2]\<rparr>,
    \<lparr>sequence = next_sequence (store_wal demo_pair), op = Delete ''a''\<rparr>]"
  have wal: "store_wal ?s = snd (append_put (crc32_hash demo_ext) ''a'' [1] (store_wal demo_store))"
    by (rule put_wal [OF surjective_pairing])
  have wal': "store_wal demo_pair = snd (append_put (crc32_hash demo_ext) ''b'' [2] (store_wal ?s))"
    unfolding demo_pair_def by (rule put_wal [OF surjective_pairing])
  have "wal_content (store_wal demo_store) = []" "next_sequence (store_wal demo_store) = 0"
    by (simp_all add: demo_store_def)
  then have "wal_content (store_wal (snd (delete demo_ext ''a'' demo_pair)))
      = concat (map (wal_encode (crc32_hash demo_ext)) ?es)"
    by (simp add: delete_def Let_def append_delete_content wal' wal append_put_content)
  moreover have "list_all wal_ok ?es" by (simp add: wal_ok_def string_eval)
  ultimately show ?thesis using wal_log.read_all_records [of ?es "crc32_hash demo_ext"] by simp
qed

theorem reopen_from_snapshot_witness:
  "\<exists>s'. store_open demo_ext [''data''] Always (files (save_store_snapshot demo_ext demo_pair))
       (Some (wal_content (store_wal (snd (delete demo_ext ''a'' demo_pair))))) = Some (Inr s') \<and>
     index_get (store_index demo_pair) ''a'' \<noteq> None \<and> index_get (store_index s') ''a'' = None \<and>
     index_get (store_index s') ''b'' = Some \<lparr>shard = 0, offset = 30, blob_size = 1,
       blake3 = replicate 64 CHR ''0'', expires_at = Some 15\<rparr>"
proof -
  have saved: "index_saved demo_pair"
    by (simp add: index_saved_def demo_pair_eval snap_ok_def string_eval)
  have "deleted_keys (wal_entries (crc32_hash demo_ext)
      (wal_content (store_wal (snd (delete demo_ext ''a'' demo_pair))))) = {''a''}"
    using demo_pair_log by (auto simp: deleted_keys_def)
  then obtain s' where s': "store_open demo_ext [''data''] Always (files (save_store_snapshot demo_ext demo_pair))
       (Some (wal_content (store_wal (snd (delete demo_ext ''a'' demo_pair))))) = Some (Inr s')"
    "\<And>k. index_get (store_index s') k = (if k \<in> {''a''} then None else index_get (store_index demo_pair) k)"
    using reopen_from_snapshot [OF demo_pair_inv saved, of "files (save_store_snapshot demo_ext demo_pair)" "[''data'']"
        Always "Some (wal_content (store_wal (snd (delete demo_ext ''a'' demo_pair))))"] demo_pair_eval(1)
    unfolding log_of_def option.case by metis
  then show ?thesis
    using demo_pair_eval(2) by (intro exI [of _ s']) (simp add: index_get_def)
qed

text \<open>
  Writes after a snapshot are lost on restart: when a store saves a snapshot and then
  a new key is put successfully, gets answer it; after reopening the directory with its own
  complete log, the key is absent at every time.
\<close>

theorem put_after_snapshot_lost:
  assumes "bloom_laws E" and "store_inv E s" and "index_saved s" and "hm_get (store_index s) key = None"
    and "put_ok key v" and "current_segment s \<noteq> - 1"
    and "put E now key v (save_store_snapshot E s) = (Inr (), s2)"
  shows "get E t s2 key = map_sum id Some (read_back E (compression s) v) \<and>
         (\<exists>s3. store_open E (data_path s2) policy (files s2) (Some (wal_content (store_wal s2))) = Some (Inr s3) \<and>
               (\<forall>t. get E t s3 key = Inr None))"
proof -
  let ?s1 = "save_store_snapshot E s"
  note put = assms(7) [unfolded put_def]
  have p: "store_inv E s2" "store_abs E s2 key = Some (read_back E (compression s) v, None)"
    using put_refines [OF assms(1) save_snapshot_inv [OF assms(2)] _ _ put] assms(5,6)
    by (simp_all add: spec_put_def)
  have snap: "hm_get (files s2) (data_path s2 @ [''index.snap'']) = Some (save_snapshot (store_index s))"
    using put_keeps_snapshot [OF put] save_snapshot_file [of E s] by simp
  have idx: "hm_ok (store_index s)" "list_all snap_ok (store_index s)" "length (store_index s) < 2 ^ 64"
    using assms(2,3) by (simp_all add: store_inv_def index_saved_def)
  obtain s3 where s3: "store_open E (data_path s2) policy (files s2) (Some (wal_content (store_wal s2))) = Some (Inr s3)"
    "hm_get (store_index s3) key = None"
    using open_with_snapshot [OF snap idx, of E policy "Some (wal_content (store_wal s2))"] assms(4) by auto
  then have "get E t s3 key = Inr None" for t
    by (simp add: get_def get_if_valid_def)
  moreover have "get E t s2 key = map_sum id Some (read_back E (compression s) v)"
    using get_refines [OF p(1)] p(2) by (simp add: spec_get_def spec_expired_def)
  ultimately show ?thesis using s3(1) by blast
qed

theorem put_after_snapshot_lost_witness:
  "\<exists>s3. store_open demo_ext (data_path (snd (put demo_ext 0 ''a'' [1] (save_store_snapshot demo_ext demo_store)))) Always
       (files (snd (put demo_ext 0 ''a'' [1] (save_store_snapshot demo_ext demo_store))))
       (Some (wal_content (store_wal (snd (put demo_ext 0 ''a'' [1] (save_store_snapshot demo_ext demo_store))))))
     = Some (Inr s3) \<and> get demo_ext 5 s3 ''a'' = Inr None"
proof -
  let ?s = "save_store_snapshot demo_ext demo_store"
  have "fst (put demo_ext 0 ''a'' [1] ?s) = Inr ()"
    by (simp add: put_def put_fst)
      (simp add: roll_full_def save_store_snapshot_def demo_store_def SEGMENT_SIZE_def Let_def)
  then have put: "put demo_ext 0 ''a'' [1] ?s = (Inr (), snd (put demo_ext 0 ''a'' [1] ?s))"
    by (metis prod.collapse)
  have "index_saved demo_store" "hm_get (store_index demo_store) ''a'' = None"
    "put_ok ''a'' [1]" "current_segment demo_store \<noteq> - 1"
    by (simp_all add: index_saved_def demo_store_def put_ok_def)
  from put_after_snapshot_lost [OF demo_laws demo_store_inv(1) this put, of 0 Always]
  show ?thesis by blast
qed

text \<open>
  An old delete destroys a newer value on restart: when a key is deleted, put again
  successfully and the store saves a snapshot, gets answer the new value and the snapshot
  holds the key; after reopening the directory with its own log, which still holds the
  delete, the key is absent at every time.
\<close>

theorem stale_delete_after_snapshot:
  assumes "bloom_laws E" and "store_inv E s" and "current_segment s \<noteq> - 1"
    and "wal_content (store_wal s) = concat (map (wal_encode (crc32_hash E)) es)" and "list_all wal_ok es"
    and "kv_ok (key, v)" and "length v < 2 ^ 32" and "put_ok key v"
    and "delete E key s = (r, s1)" and "put E now key v s1 = (Inr (), s2)" and "index_saved s2"
  shows "get E t (save_store_snapshot E s2) key = map_sum id Some (read_back E (compression s) v) \<and>
         (\<exists>s3. store_open E (data_path s2) policy (files (save_store_snapshot E s2))
                 (Some (wal_content (store_wal s2))) = Some (Inr s3) \<and> (\<forall>t. get E t s3 key = Inr None))"
proof -
  note put = assms(10) [unfolded put_def]
  have s1: "store_inv E s1" "current_segment s1 = current_segment s" "compression s1 = compression s"
    using delete_refines [OF assms(2,9)] by simp_all
  have p: "store_inv E s2" "store_abs E s2 key = Some (read_back E (compression s) v, None)"
    using put_refines [OF assms(1) s1(1) _ _ put] s1 assms(3,8) by (simp_all add: spec_put_def)
  have sn: "store_inv E (save_store_snapshot E s2)" "store_abs E (save_store_snapshot E s2) key = Some (read_back E (compression s) v, None)"
    using save_snapshot_inv [OF p(1)] abs_frame [OF p(1), of "save_store_snapshot E s2" key] p(2)
    by (simp_all add: save_snapshot_at)
  let ?d = "\<lparr>sequence = next_sequence (store_wal s), op = Delete key\<rparr>"
  let ?p = "\<lparr>sequence = next_sequence (store_wal s1), op = Put key v\<rparr>"
  have w1: "wal_content (store_wal s1) = wal_content (store_wal s) @ wal_encode (crc32_hash E) ?d"
    using assms(9) by (auto simp: delete_def Let_def append_delete_content)
  have "wal_content (store_wal s2) = concat (map (wal_encode (crc32_hash E)) (es @ [?d, ?p]))"
    using put_wal [OF put] w1 assms(4) by (simp add: append_put_content)
  moreover have "list_all wal_ok (es @ [?d, ?p])"
    using assms(5,6,7) by (simp add: wal_ok_def kv_ok_def)
  ultimately have log: "wal_entries (crc32_hash E) (wal_content (store_wal s2)) = es @ [?d, ?p]"
    using wal_log.read_all_records by metis
  have idx: "hm_ok (store_index s2)" "list_all snap_ok (store_index s2)" "length (store_index s2) < 2 ^ 64"
    using p(1) assms(11) by (simp_all add: store_inv_def index_saved_def)
  obtain s3 where s3: "store_open E (data_path s2) policy (files (save_store_snapshot E s2))
      (Some (wal_content (store_wal s2))) = Some (Inr s3)" "hm_get (store_index s3) key = None"
    using open_with_snapshot [OF save_snapshot_file [of E s2] idx, where E = E and policy = policy
        and wal_log = "Some (wal_content (store_wal s2))"] log
    by (auto simp: deleted_keys_def log_of_def)
  then have "get E t s3 key = Inr None" for t
    by (simp add: get_def get_if_valid_def)
  moreover have "get E t (save_store_snapshot E s2) key = map_sum id Some (read_back E (compression s) v)"
    using get_refines [OF sn(1)] sn(2) by (simp add: spec_get_def spec_expired_def)
  ultimately show ?thesis using s3(1) by blast
qed

theorem stale_delete_after_snapshot_witness:
  "\<exists>s2 s3. put demo_ext 0 ''a'' [1] (snd (delete demo_ext ''a'' demo_store)) = (Inr (), s2) \<and>
     store_open demo_ext (data_path s2) Always (files (save_store_snapshot demo_ext s2))
       (Some (wal_content (store_wal s2))) = Some (Inr s3) \<and> get demo_ext 5 s3 ''a'' = Inr None"
proof -
  let ?s1 = "snd (delete demo_ext ''a'' demo_store)" and ?s2 = "snd (put demo_ext 0 ''a'' [1] (snd (delete demo_ext ''a'' demo_store)))"
  have "fst (put demo_ext 0 ''a'' [1] ?s1) = Inr ()"
    by (simp add: put_def put_fst) (simp add: roll_full_def delete_def demo_store_def SEGMENT_SIZE_def Let_def)
  then have put: "put demo_ext 0 ''a'' [1] ?s1 = (Inr (), ?s2)"
    by (metis prod.collapse)
  have c: "current_segment demo_store \<noteq> - 1"
    "wal_content (store_wal demo_store) = concat (map (wal_encode (crc32_hash demo_ext)) [])" "list_all wal_ok []"
    "kv_ok (''a'', [1])" "length [1 :: byte] < 2 ^ 32" "put_ok ''a'' [1]"
    by (simp_all add: demo_store_def put_ok_def kv_ok_def string_eval)
  have cv: "compress_value demo_ext (compression ?s1) [1] = ([1], False)"
    by (simp add: compress_value_def delete_def demo_store_def Let_def)
  have "index_saved ?s2"
    by (simp add: put_def put_eq [OF cv] Let_def)
      (simp add: roll_full_def delete_def demo_store_def SEGMENT_SIZE_def index_saved_def index_remove_def
        snap_ok_def string_eval plain_location_def blake3_hash_def demo_ext_def Let_def)
  from stale_delete_after_snapshot [OF demo_laws demo_store_inv(1) c surjective_pairing put this, of 0 Always]
  show ?thesis using put by blast
qed

end
