(* ===== verification/VolumeService.thy ===== *)
theory VolumeService
  imports BlobRecovery
begin

text \<open>
  The server of a volume: \<open>src/src/volume/grpc.rs\<close>, \<open>src/src/volume/server.rs\<close>,
  \<open>src/src/volume/http.rs\<close>, \<open>src/src/volume/compaction.rs\<close> and the client of the
  coordinator, \<open>src/src/coordinator/volume_client.rs\<close>. A call of the service is a request,
  its result a gRPC status or a response; the transport between client and service is a
  parameter. \<open>to_string\<close> is the text of an error.
\<close>

section \<open>Messages and service\<close>

datatype volume_request =
    PrepareRequest (pr_key: string) (pr_upload_id: string) (pr_expected_size: u64) (pr_expected_blake3: string)
  | CommitRequest (cr_upload_id: string) (cr_key: string)
  | AbortRequest (ab_upload_id: string)
  | PullRequest (pl_key: string) (pl_source_url: string)
  | DeleteRequest (dr_key: string)
  | PingRequest
  | StatsRequest

datatype volume_response =
    PrepareResponse bool string
  | CommitResponse bool string
  | AbortResponse bool
  | DeleteResponse bool string
  | PingResponse string u64 u64 u64
  | StatsResponse u64 u64 u64 "u64 list"

definition grpc_prepare :: "string \<Rightarrow> volume_response" where
  "grpc_prepare key =
     (if key = [] then PrepareResponse False ''key cannot be empty'' else PrepareResponse True [])"

definition grpc_commit :: volume_response where
  "grpc_commit = CommitResponse True []"

definition grpc_abort :: volume_response where
  "grpc_abort = AbortResponse True"

definition grpc_pull :: "grpc_status + volume_response" where
  "grpc_pull = Inl \<lparr>st_code = CodeUnimplemented, st_message = ''Pull not implemented'', st_metadata = []\<rparr>"

definition grpc_delete :: "(error \<Rightarrow> string) \<Rightarrow> 'b ext \<Rightarrow> string \<Rightarrow> 'b blob_store \<Rightarrow> volume_response \<times> 'b blob_store" where
  "grpc_delete to_string E key s =
     (case delete E key s of
        (Inr _, s') \<Rightarrow> (DeleteResponse True [], s')
      | (Inl e, s') \<Rightarrow> (DeleteResponse False (to_string e), s'))"

definition grpc_ping :: volume_response where
  "grpc_ping = PingResponse ''vol-1'' 0 0 0"

definition grpc_stats :: volume_response where
  "grpc_stats = StatsResponse 0 0 0 []"

fun volume_serve ::
  "(error \<Rightarrow> string) \<Rightarrow> 'b ext \<Rightarrow> volume_request \<Rightarrow> 'b blob_store \<Rightarrow> (grpc_status + volume_response) \<times> 'b blob_store" where
  "volume_serve to_string E (PrepareRequest key uid n b3) s = (Inr (grpc_prepare key), s)"
| "volume_serve to_string E (CommitRequest uid key) s = (Inr grpc_commit, s)"
| "volume_serve to_string E (AbortRequest uid) s = (Inr grpc_abort, s)"
| "volume_serve to_string E (PullRequest key url) s = (grpc_pull, s)"
| "volume_serve to_string E (DeleteRequest key) s = (case grpc_delete to_string E key s of (r, s') \<Rightarrow> (Inr r, s'))"
| "volume_serve to_string E PingRequest s = (Inr grpc_ping, s)"
| "volume_serve to_string E StatsRequest s = (Inr grpc_stats, s)"

section \<open>The client\<close>

text \<open>\<open>net\<close> is the channel: it delivers a request and brings back the status or the response.\<close>

definition client_prepare ::
  "(volume_request \<Rightarrow> 's \<Rightarrow> (grpc_status + volume_response) \<times> 's) \<Rightarrow> string \<Rightarrow> string \<Rightarrow> u64 \<Rightarrow> string \<Rightarrow> 's
     \<Rightarrow> (grpc_status + volume_response) \<times> 's" where
  "client_prepare net key upload_id expected_size expected_blake3 =
     net (PrepareRequest key upload_id expected_size expected_blake3)"

definition client_commit ::
  "(volume_request \<Rightarrow> 's \<Rightarrow> (grpc_status + volume_response) \<times> 's) \<Rightarrow> string \<Rightarrow> string \<Rightarrow> 's
     \<Rightarrow> (grpc_status + volume_response) \<times> 's" where
  "client_commit net upload_id key = net (CommitRequest upload_id key)"

definition client_abort ::
  "(volume_request \<Rightarrow> 's \<Rightarrow> (grpc_status + volume_response) \<times> 's) \<Rightarrow> string \<Rightarrow> 's
     \<Rightarrow> (grpc_status + volume_response) \<times> 's" where
  "client_abort net upload_id = net (AbortRequest upload_id)"

section \<open>The server\<close>

record 'b volume_server = vs_store :: "'b blob_store"

text \<open>\<open>Path::with_file_name\<close>: the last component is replaced.\<close>

definition with_file_name :: "path \<Rightarrow> string \<Rightarrow> path" where
  "with_file_name p name = butlast p @ [name]"

text \<open>\<open>logs\<close> gives the content of the log file in a directory.\<close>

definition volume_server_new ::
  "'b ext \<Rightarrow> path \<Rightarrow> fs \<Rightarrow> (path \<Rightarrow> bytes option) \<Rightarrow> 'b volume_server result option" where
  "volume_server_new E base fs logs =
     (let wal_path = with_file_name base ''wal''
      in map_option (\<lambda>r. rbind r (\<lambda>store. Inr \<lparr>vs_store = store\<rparr>)) (store_open E base Always fs (logs wal_path)))"

definition volume_server_serve :: "'b volume_server \<Rightarrow> unit result \<times> string list" where
  "volume_server_serve server = (Inr (), [''Volume server running...''])"

text \<open>The executable: what \<open>main\<close> returns and prints; \<open>None\<close> is an opening that does not return.\<close>

definition volume_main :: "'b ext \<Rightarrow> fs \<Rightarrow> (path \<Rightarrow> bytes option) \<Rightarrow> (unit result \<times> string list) option" where
  "volume_main E fs logs =
     map_option (\<lambda>r. case r of Inl e \<Rightarrow> (Inl e, []) | Inr server \<Rightarrow> volume_server_serve server)
       (volume_server_new E [''volume_data''] fs logs)"

definition compact_store :: "'b ext \<Rightarrow> 'b blob_store \<Rightarrow> unit result \<times> 'b blob_store" where
  "compact_store E s = compact E s"

record location =
  lc_size :: nat
  lc_blake3 :: bytes

definition get_location :: "'b blob_store \<Rightarrow> string + location" where
  "get_location s = Inr \<lparr>lc_size = 0, lc_blake3 = replicate 32 0\<rparr>"

section \<open>Runs of the service\<close>

fun volume_run ::
  "(error \<Rightarrow> string) \<Rightarrow> 'b ext \<Rightarrow> volume_request list \<Rightarrow> 'b blob_store
     \<Rightarrow> (grpc_status + volume_response) list \<times> 'b blob_store" where
  "volume_run to_string E [] s = ([], s)"
| "volume_run to_string E (q # qs) s =
     (case volume_serve to_string E q s of
        (r, s') \<Rightarrow> (case volume_run to_string E qs s' of (rs, s'') \<Rightarrow> (r # rs, s'')))"

text \<open>What each request is answered, whatever the store holds, written out.\<close>

fun volume_answer :: "volume_request \<Rightarrow> grpc_status + volume_response" where
  "volume_answer (PrepareRequest key uid n b3) =
     (if key = [] then Inr (PrepareResponse False ''key cannot be empty'') else Inr (PrepareResponse True []))"
| "volume_answer (CommitRequest uid key) = Inr (CommitResponse True [])"
| "volume_answer (AbortRequest uid) = Inr (AbortResponse True)"
| "volume_answer (PullRequest key url) =
     Inl \<lparr>st_code = CodeUnimplemented, st_message = ''Pull not implemented'', st_metadata = []\<rparr>"
| "volume_answer (DeleteRequest key) = Inr (DeleteResponse True [])"
| "volume_answer PingRequest = Inr (PingResponse ''vol-1'' 0 0 0)"
| "volume_answer StatsRequest = Inr (StatsResponse 0 0 0 [])"

lemma volume_serve_effect:
  assumes "store_inv E s" "volume_serve to_string E q s = (r, s')"
  shows "store_inv E s' \<and> r = volume_answer q \<and>
    store_abs E s' = (case q of DeleteRequest key \<Rightarrow> (store_abs E s)(key := None) | _ \<Rightarrow> store_abs E s)"
proof (cases q)
  case (DeleteRequest key)
  obtain u s1 where d: "delete E key s = (u, s1)" by fastforce
  have "u = Inr ()" by (rule delete_refines(1) [OF assms(1) d])
  then show ?thesis
    using assms(2) d DeleteRequest delete_refines(2,3) [OF assms(1) d] by (auto simp: grpc_delete_def)
qed (use assms in \<open>auto simp: grpc_prepare_def grpc_commit_def grpc_abort_def grpc_pull_def grpc_ping_def grpc_stats_def\<close>)

section \<open>Properties\<close>

text \<open>
  C15. What a volume's service does: after any requests the store holds what it held before
  without the keys that were deleted, so no key is ever added by preparing and committing
  it, although every commit is answered with success. A prepare is refused exactly for an
  empty key, every abort and delete succeeds, a pull is unimplemented, and ping and stats
  answer with fixed numbers whatever the store holds.
\<close>

theorem volume_service_effect:
  assumes "store_inv E s" and "volume_run to_string E qs s = (rs, s')"
  shows "store_inv E s' \<and> rs = map volume_answer qs \<and>
    store_abs E s' = (\<lambda>k. if DeleteRequest k \<in> set qs then None else store_abs E s k)"
  using assms
proof (induction qs arbitrary: s rs)
  case (Cons q qs)
  obtain r s1 where q: "volume_serve to_string E q s = (r, s1)" by fastforce
  obtain rs1 where qs: "volume_run to_string E qs s1 = (rs1, s')" "rs = r # rs1"
    using Cons.prems(2) q by (auto split: prod.splits)
  note e = volume_serve_effect [OF Cons.prems(1) q]
  have "store_abs E s' = (\<lambda>k. if DeleteRequest k \<in> set qs then None else store_abs E s1 k)"
    "store_inv E s'" "rs1 = map volume_answer qs"
    using Cons.IH [OF _ qs(1)] e by simp_all
  then show ?case using e qs(2) by (cases q) auto
qed simp

theorem volume_service_effect_witness:
  "volume_run (\<lambda>e. []) demo_ext [PrepareRequest [] ''u'' 5 ''h'', PrepareRequest ''k'' ''u'' 5 ''h'', CommitRequest ''u'' ''k'',
       DeleteRequest ''a''] demo_pair =
     ([Inr (PrepareResponse False ''key cannot be empty''), Inr (PrepareResponse True []), Inr (CommitResponse True []),
       Inr (DeleteResponse True [])],
      snd (delete demo_ext ''a'' demo_pair)) \<and>
   store_abs demo_ext demo_pair ''a'' \<noteq> None \<and>
   (\<forall>k. store_abs demo_ext (snd (delete demo_ext ''a'' demo_pair)) k
      = (if k = ''a'' then None else store_abs demo_ext demo_pair k))"
proof -
  let ?qs = "[PrepareRequest [] ''u'' 5 ''h'', PrepareRequest ''k'' ''u'' 5 ''h'', CommitRequest ''u'' ''k'', DeleteRequest ''a'']"
  have state: "snd (volume_run (\<lambda>e. []) demo_ext ?qs demo_pair) = snd (delete demo_ext ''a'' demo_pair)"
    by (cases "delete demo_ext ''a'' demo_pair") (simp add: grpc_delete_def split: sum.splits)
  note e = volume_service_effect [OF demo_pair_inv surjective_pairing, of "\<lambda>e. []" ?qs]
  have "fst (volume_run (\<lambda>e. []) demo_ext ?qs demo_pair) = map volume_answer ?qs"
    and abs: "store_abs demo_ext (snd (delete demo_ext ''a'' demo_pair))
      = (\<lambda>k. if DeleteRequest k \<in> set ?qs then None else store_abs demo_ext demo_pair k)"
    using e state by (simp_all del: volume_run.simps)
  then have "volume_run (\<lambda>e. []) demo_ext ?qs demo_pair = (map volume_answer ?qs, snd (delete demo_ext ''a'' demo_pair))"
    using state by (simp add: prod_eq_iff del: volume_run.simps)
  moreover obtain loc where "hm_get (store_index demo_pair) ''a'' = Some loc" by (simp add: demo_pair_eval)
  then have "store_abs demo_ext demo_pair ''a'' \<noteq> None"
    using store_inv_read [OF demo_pair_inv] by (metis option.distinct(1))
  ultimately show ?thesis using abs by (simp del: volume_run.simps)
qed

text \<open>
  Volumes in sibling directories share one log: when a volume deletes a key and its log
  is the one of the common parent directory, opening a volume beside it loses the key
  too, although its own snapshot holds the key and reads returned its value.
\<close>

theorem sibling_delete_spills:
  assumes "store_inv E s" and "index_saved s" and "data_path s = d @ [b]" and "data_path sa = d @ [a]"
    and "store_abs E s key = Some (Inr v, None)"
    and "wal_content (store_wal sa) = concat (map (wal_encode (crc32_hash E)) es)" and "list_all wal_ok es"
    and "kv_ok (key, v)" and "delete E key sa = (r, sa')"
    and "logs (with_file_name (d @ [a]) ''wal'') = Some (wal_content (store_wal sa'))"
  shows "get E t s key = Inr (Some v) \<and>
    (\<exists>vs. volume_server_new E (d @ [b]) (files (save_store_snapshot E s)) logs = Some (Inr vs) \<and>
       (\<forall>t. get E t (vs_store vs) key = Inr None))"
proof -
  let ?d = "\<lparr>sequence = next_sequence (store_wal sa), op = Delete key\<rparr>"
  have "wal_content (store_wal sa') = concat (map (wal_encode (crc32_hash E)) (es @ [?d]))"
    using assms(6,9) by (auto simp: delete_def Let_def append_delete_content)
  moreover have "list_all wal_ok (es @ [?d])" using assms(7,8) by (simp add: wal_ok_def kv_ok_def)
  ultimately have log: "wal_entries (crc32_hash E) (wal_content (store_wal sa')) = es @ [?d]"
    using wal_log.read_all_records by metis
  have idx: "hm_ok (store_index s)" "list_all snap_ok (store_index s)" "length (store_index s) < 2 ^ 64"
    using assms(1,2) by (simp_all add: store_inv_def index_saved_def)
  obtain s3 where s3: "store_open E (d @ [b]) Always (files (save_store_snapshot E s)) (Some (wal_content (store_wal sa'))) = Some (Inr s3)"
    "hm_get (store_index s3) key = None"
    using open_with_snapshot [OF save_snapshot_file [of E s, unfolded assms(3)] idx, where E = E and policy = Always
        and wal_log = "Some (wal_content (store_wal sa'))"] log
    by (auto simp: deleted_keys_def log_of_def)
  have "logs (with_file_name (d @ [b]) ''wal'') = Some (wal_content (store_wal sa'))"
    using assms(10) by (simp add: with_file_name_def)
  then have "volume_server_new E (d @ [b]) (files (save_store_snapshot E s)) logs = Some (Inr \<lparr>vs_store = s3\<rparr>)"
    using s3(1) by (simp add: volume_server_new_def res_simps)
  moreover have "get E t s3 key = Inr None" for t
    using s3(2) by (simp add: get_def get_if_valid_def)
  moreover have "get E t s key = Inr (Some v)"
    using get_refines [OF assms(1)] assms(5) by (simp add: spec_get_def spec_expired_def)
  ultimately show ?thesis by auto
qed

theorem sibling_delete_spills_witness:
  "\<exists>vs. volume_server_new demo_ext [''data''] (files (save_store_snapshot demo_ext (snd (put demo_ext 0 ''a'' [1] demo_store))))
      (\<lambda>p. if p = [''wal''] then Some (wal_content (store_wal (snd (delete demo_ext ''a'' (demo_store\<lparr>data_path := [''other'']\<rparr>))))) else None)
    = Some (Inr vs) \<and> get demo_ext 5 (vs_store vs) ''a'' = Inr None"
proof -
  let ?s = "snd (put demo_ext 0 ''a'' [1] demo_store)" and ?sa = "demo_store\<lparr>data_path := [''other'']\<rparr>"
  let ?logs = "\<lambda>p. if p = [''wal''] then Some (wal_content (store_wal (snd (delete demo_ext ''a'' ?sa)))) else None"
  have "fst (put demo_ext 0 ''a'' [1] demo_store) = Inr ()"
    by (simp add: put_def put_fst) (simp add: roll_full_def demo_store_def SEGMENT_SIZE_def)
  then have put: "put_with_ttl demo_ext 0 ''a'' [1] None demo_store = (Inr (), ?s)"
    by (metis prod.collapse put_def)
  have c: "current_segment demo_store \<noteq> - 1" "put_ok ''a'' [1]"
    by (simp_all add: demo_store_def put_ok_def)
  have p: "store_inv demo_ext ?s" "store_abs demo_ext ?s ''a'' = Some (Inr [1], None)"
    using put_refines [OF demo_laws demo_store_inv(1) c(2,1) put] by (simp_all add: spec_put_def)
  have cv: "compress_value demo_ext (compression demo_store) [1] = ([1], False)"
    by (simp add: compress_value_def demo_store_def)
  have saved: "index_saved ?s" "data_path ?s = [] @ [''data'']"
    by (simp_all add: put_def put_eq [OF cv] Let_def)
      (simp_all add: roll_full_def demo_store_def SEGMENT_SIZE_def index_saved_def put_prepared_def rolled_def written_def
        snap_ok_def string_eval plain_location_def blake3_hash_def demo_ext_def Let_def)
  have sa: "data_path ?sa = [] @ [''other'']"
    "wal_content (store_wal ?sa) = concat (map (wal_encode (crc32_hash demo_ext)) [])" "list_all wal_ok []"
    "kv_ok (''a'', [1])"
    by (simp_all add: demo_store_def kv_ok_def string_eval)
  have "?logs (with_file_name ([] @ [''other'']) ''wal'') = Some (wal_content (store_wal (snd (delete demo_ext ''a'' ?sa))))"
    by (simp add: with_file_name_def)
  from sibling_delete_spills [where d = "[]" and logs = ?logs, OF p(1) saved sa(1) p(2) sa(2-4) surjective_pairing this, of 0] show ?thesis
    by auto
qed

end
