(* ===== verification/Raft.thy ===== *)
theory Raft
  imports Errors
begin

text \<open>
  \<open>src/src/coordinator/raft_node.rs\<close> with the message types of
  \<open>src/src/common/raft.rs\<close>, and the Raft handlers of \<open>src/src/coordinator/grpc.rs\<close>.
  A \<open>RaftNode\<close> is a record of the values behind its mutexes; a method that locks,
  changes and unlocks is a function on that record. The two asynchronous methods that
  talk to the peers are split where they await, into a part before the calls and a part
  after them, and composed with the network as a parameter. Nothing in the sources
  delivers a message to \<open>handle_request_vote\<close>, and only tests call
  \<open>handle_append_entries\<close>: calls of the peers reach the service of \<open>grpc.rs\<close>, whose
  handlers are at the end of the model. Lengths of vectors are
  below \<open>2^64\<close>.
\<close>

section \<open>Messages\<close>

record log_entry =
  le_term :: u64
  le_index :: u64
  le_data :: bytes

record vote_request =
  vq_term :: u64
  vq_candidate_id :: string
  vq_last_log_index :: u64
  vq_last_log_term :: u64

record vote_response =
  vr_term :: u64
  vr_vote_granted :: bool

record append_request =
  aq_term :: u64
  aq_leader_id :: string
  aq_prev_log_index :: u64
  aq_prev_log_term :: u64
  aq_entries :: "log_entry list"
  aq_leader_commit :: u64

record append_response =
  ar_term :: u64
  ar_success :: bool
  ar_conflict_index :: u64

section \<open>The node\<close>

datatype raft_role = Follower | Candidate | Leader

record raft_node =
  node_id :: string
  role :: raft_role
  current_term :: u64
  voted_for :: "string option"
  leader_id :: "string option"
  log :: "log_entry list"
  peers :: "string list"
  commit_index :: u64
  last_applied :: u64
  snapshot :: "bytes option"

fun raft_role_display :: "raft_role \<Rightarrow> string" where
  "raft_role_display Follower = ''follower''"
| "raft_role_display Candidate = ''candidate''"
| "raft_role_display Leader = ''leader''"

definition raft_new :: "string \<Rightarrow> raft_node" where
  "raft_new nid =
     \<lparr>node_id = nid, role = Follower, current_term = 0, voted_for = None, leader_id = None, log = [],
      peers = [], commit_index = 0, last_applied = 0, snapshot = None\<rparr>"

definition is_leader :: "raft_node \<Rightarrow> bool" where
  "is_leader n \<longleftrightarrow> role n = Leader"

definition become_leader :: "raft_node \<Rightarrow> raft_node" where
  "become_leader n = n\<lparr>role := Leader, leader_id := Some (node_id n)\<rparr>"

definition step_down :: "u64 \<Rightarrow> string option \<Rightarrow> raft_node \<Rightarrow> raft_node" where
  "step_down new_term lid n =
     n\<lparr>role := Follower, current_term := new_term, leader_id := lid, voted_for := None\<rparr>"

definition start_election :: "raft_node \<Rightarrow> u64 \<times> raft_node" where
  "start_election n =
     (let new_term = current_term n + 1
      in (new_term, n\<lparr>current_term := new_term, role := Candidate, voted_for := Some (node_id n),
                      leader_id := None\<rparr>))"

definition grant_vote :: "u64 \<Rightarrow> string \<Rightarrow> raft_node \<Rightarrow> bool \<times> raft_node" where
  "grant_vote t candidate n =
     (if t < current_term n then (False, n)
      else let n = (if t > current_term n then n\<lparr>current_term := t, voted_for := None\<rparr> else n)
           in if voted_for n = None \<or> voted_for n = Some candidate
              then (True, n\<lparr>voted_for := Some candidate\<rparr>)
              else (False, n))"

definition handle_request_vote :: "vote_request \<Rightarrow> raft_node \<Rightarrow> vote_response \<times> raft_node" where
  "handle_request_vote req n =
     (let (vote_granted, n') =
        (if vq_term req < current_term n then (False, n)
         else let n = (if vq_term req > current_term n then n\<lparr>current_term := vq_term req, voted_for := None\<rparr> else n)
              in if voted_for n = None \<or> voted_for n = Some (vq_candidate_id req)
                 then (True, n\<lparr>voted_for := Some (vq_candidate_id req)\<rparr>)
                 else (False, n))
      in (\<lparr>vr_term = current_term n', vr_vote_granted = vote_granted\<rparr>, n'))"

definition last_index :: "log_entry list \<Rightarrow> u64" where
  "last_index l = (if l = [] then 0 else le_index (last l))"

definition last_term :: "log_entry list \<Rightarrow> u64" where
  "last_term l = (if l = [] then 0 else le_term (last l))"

definition handle_append_entries :: "append_request \<Rightarrow> raft_node \<Rightarrow> append_response \<times> raft_node" where
  "handle_append_entries req n =
     (let (success, conflict_index, n') =
        (if aq_term req < current_term n then (False, 0, n)
         else let n = (if aq_term req > current_term n then n\<lparr>current_term := aq_term req\<rparr> else n)
              in if unat (aq_prev_log_index req) \<le> length (log n)
                 then let n = n\<lparr>log := log n @ aq_entries req\<rparr>;
                          n = (if aq_leader_commit req > commit_index n
                               then n\<lparr>commit_index := min (aq_leader_commit req) (last_index (log n))\<rparr>
                               else n)
                      in (True, 0, n)
                 else (False, word_of_nat (length (log n)), n))
      in (\<lparr>ar_term = current_term n', ar_success = success, ar_conflict_index = conflict_index\<rparr>, n'))"

definition raft_save_snapshot :: "bytes \<Rightarrow> raft_node \<Rightarrow> raft_node" where
  "raft_save_snapshot d n = n\<lparr>snapshot := Some d\<rparr>"

definition apply_snapshot :: "bytes \<Rightarrow> u64 \<Rightarrow> u64 \<Rightarrow> raft_node \<Rightarrow> raft_node" where
  "apply_snapshot d last_included_index last_included_term n =
     (let n = raft_save_snapshot d n
      in n\<lparr>log := filter (\<lambda>e. le_index e > last_included_index) (log n),
           commit_index := last_included_index, last_applied := last_included_index,
           current_term := last_included_term\<rparr>)"

definition recover :: "raft_node \<Rightarrow> raft_node" where
  "recover n = n\<lparr>last_applied := commit_index n\<rparr>"

section \<open>Talking to the peers\<close>

definition heartbeat_request :: "raft_node \<Rightarrow> append_request" where
  "heartbeat_request n =
     \<lparr>aq_term = current_term n, aq_leader_id = node_id n, aq_prev_log_index = last_index (log n),
      aq_prev_log_term = last_term (log n), aq_entries = [], aq_leader_commit = last_index (log n)\<rparr>"

text \<open>\<open>(peers.len() + 1).div_ceil(2)\<close>, for a cluster of \<open>n\<close> nodes with this one.\<close>

definition majority :: "nat \<Rightarrow> nat" where
  "majority n = (n + 1) div 2"

definition vote_request_of :: "u64 \<Rightarrow> raft_node \<Rightarrow> vote_request" where
  "vote_request_of new_term n =
     \<lparr>vq_term = new_term, vq_candidate_id = node_id n, vq_last_log_index = last_index (log n),
      vq_last_log_term = last_term (log n)\<rparr>"

definition finish_election :: "u64 \<Rightarrow> nat \<Rightarrow> nat \<Rightarrow> raft_node \<Rightarrow> bool \<times> raft_node" where
  "finish_election new_term n_peers votes n =
     (if votes \<ge> majority (n_peers + 1) then (True, become_leader n)
      else (False, step_down new_term None n))"

text \<open>
  The whole method, with the network as \<open>rpc\<close>: \<open>None\<close> is a call that fails.
\<close>

definition start_election_and_collect_votes ::
  "(string \<Rightarrow> vote_request \<Rightarrow> vote_response option) \<Rightarrow> string list \<Rightarrow> raft_node \<Rightarrow> bool \<times> raft_node" where
  "start_election_and_collect_votes rpc ps n =
     (let (new_term, n) = start_election n;
          req = vote_request_of new_term n;
          votes = 1 + length (filter (\<lambda>p. case rpc p req of Some r \<Rightarrow> vr_vote_granted r | None \<Rightarrow> False) ps)
      in finish_election new_term (length ps) votes n)"

definition replicate_begin :: "bytes \<Rightarrow> raft_node \<Rightarrow> (log_entry \<times> raft_node) result" where
  "replicate_begin d n =
     (if \<not> is_leader n
      then Inl (NotLeader (case leader_id n of Some l \<Rightarrow> l | None \<Rightarrow> ''unknown''))
      else let entry = \<lparr>le_term = current_term n, le_index = (if log n = [] then 1 else le_index (last (log n)) + 1),
                        le_data = d\<rparr>
           in Inr (entry, n\<lparr>log := log n @ [entry]\<rparr>))"

definition replicate_request :: "log_entry \<Rightarrow> raft_node \<Rightarrow> append_request" where
  "replicate_request e n =
     \<lparr>aq_term = le_term e, aq_leader_id = node_id n, aq_prev_log_index = le_index e - 1,
      aq_prev_log_term = le_term e, aq_entries = [e], aq_leader_commit = le_index e\<rparr>"

function apply_loop :: "u64 \<Rightarrow> u64 \<Rightarrow> u64" where
  "apply_loop applied commit = (if applied < commit then apply_loop (applied + 1) commit else applied)"
  by pat_completeness auto
termination
proof (relation "measure (\<lambda>(applied, commit). unat commit - unat applied)")
  fix applied commit :: u64
  assume "applied < commit"
  then have "applied \<noteq> - 1" by auto
  from unat_Suc_word [OF this] \<open>applied < commit\<close>
  show "((applied + 1, commit), applied, commit) \<in> measure (\<lambda>(applied, commit). unat commit - unat applied)"
    by (simp add: word_less_nat_alt)
qed simp

declare apply_loop.simps [simp del]

definition replicate_finish :: "log_entry \<Rightarrow> nat \<Rightarrow> nat \<Rightarrow> raft_node \<Rightarrow> unit result \<times> raft_node" where
  "replicate_finish e n_peers ack_count n =
     (if ack_count \<ge> majority (n_peers + 1)
      then (Inr (), n\<lparr>commit_index := le_index e, last_applied := apply_loop (last_applied n) (le_index e)\<rparr>)
      else (Inl (Internal ''Raft: no majority for commit''), n))"

definition raft_replicate ::
  "(string \<Rightarrow> append_request \<Rightarrow> append_response option) \<Rightarrow> bytes \<Rightarrow> raft_node \<Rightarrow> unit result \<times> raft_node" where
  "raft_replicate rpc d n =
     (case replicate_begin d n of
        Inl e \<Rightarrow> (Inl e, n)
      | Inr (entry, n) \<Rightarrow>
          let req = replicate_request entry n;
              acks = 1 + length (filter (\<lambda>p. case rpc p req of Some r \<Rightarrow> ar_success r | None \<Rightarrow> False) (peers n))
          in replicate_finish entry (length (peers n)) acks n)"

section \<open>The handlers that the gRPC service runs\<close>

text \<open>The service has no state: it answers from the constant term 1.\<close>

definition grpc_request_vote :: "vote_request \<Rightarrow> vote_response" where
  "grpc_request_vote req = \<lparr>vr_term = 1, vr_vote_granted = (vq_term req \<ge> 1)\<rparr>"

definition grpc_append_entries :: "append_request \<Rightarrow> append_response" where
  "grpc_append_entries req = \<lparr>ar_term = 1, ar_success = (aq_term req \<ge> 1), ar_conflict_index = 0\<rparr>"

section \<open>Votes of one node\<close>

lemma handle_request_vote_grant:
  assumes "handle_request_vote req n = (r, n')"
  shows "current_term n \<le> current_term n'"
    and "vr_vote_granted r \<Longrightarrow> current_term n' = vq_term req \<and> voted_for n' = Some (vq_candidate_id req)"
    and "vr_vote_granted r \<Longrightarrow> current_term n = vq_term req \<Longrightarrow>
           voted_for n = None \<or> voted_for n = Some (vq_candidate_id req)"
    and "current_term n' = current_term n \<Longrightarrow> voted_for n \<noteq> None \<Longrightarrow> voted_for n' = voted_for n"
    and "node_id n' = node_id n" "role n' = role n" "log n' = log n" "peers n' = peers n"
  using assms by (auto simp: handle_request_vote_def Let_def split: if_splits)

lemma handle_request_vote_term:
  "handle_request_vote req n = (r, n') \<Longrightarrow> current_term n' = max (current_term n) (vq_term req)"
  by (auto simp: handle_request_vote_def Let_def max_def split: if_splits)

lemma handle_append_frame:
  assumes "handle_append_entries req n = (r, n')"
  shows "current_term n' = max (current_term n) (aq_term req)" and "voted_for n' = voted_for n"
    and "node_id n' = node_id n" "role n' = role n" "peers n' = peers n"
  using assms by (auto simp: handle_append_entries_def Let_def max_def split: if_splits)

lemma handle_append_accepted:
  assumes "handle_append_entries req n = (r, n')" and "ar_success r"
  shows "\<not> aq_term req < current_term n" "unat (aq_prev_log_index req) \<le> length (log n)"
    "log n' = log n @ aq_entries req" "current_term n' = aq_term req"
  using assms by (auto simp: handle_append_entries_def Let_def split: if_splits)

lemma handle_append_accepts:
  assumes "\<not> aq_term req < current_term n" "unat (aq_prev_log_index req) \<le> length (log n)"
  shows "ar_success (fst (handle_append_entries req n))"
    "log (snd (handle_append_entries req n)) = log n @ aq_entries req"
    "commit_index (snd (handle_append_entries req n)) =
       (if aq_leader_commit req > commit_index n
        then min (aq_leader_commit req) (last_index (log n @ aq_entries req)) else commit_index n)"
  using assms by (simp_all add: handle_append_entries_def Let_def)

text \<open>
  What a node may do in the life of its term counter, with the votes it casts. Stepping
  down and installing a snapshot, which set the term, are not among these steps.
\<close>

inductive node_step :: "raft_node \<Rightarrow> (u64 \<times> string) list \<Rightarrow> raft_node \<Rightarrow> bool" where
  request_vote:
    "handle_request_vote req n = (r, n') \<Longrightarrow>
       node_step n (if vr_vote_granted r then [(vq_term req, vq_candidate_id req)] else []) n'"
| granting: "grant_vote t c n = (g, n') \<Longrightarrow> node_step n (if g then [(t, c)] else []) n'"
| starting:
    "current_term n \<noteq> - 1 \<Longrightarrow> start_election n = (t, n') \<Longrightarrow> node_step n [(t, node_id n)] n'"
| appending: "handle_append_entries req n = (r, n') \<Longrightarrow> node_step n [] n'"
| leading: "node_step n [] (become_leader n)"
| replicating: "raft_replicate rpc d n = (res, n') \<Longrightarrow> node_step n [] n'"
| recovering: "node_step n [] (recover n)"
| saving: "node_step n [] (raft_save_snapshot d n)"

inductive node_run :: "raft_node \<Rightarrow> (u64 \<times> string) list \<Rightarrow> raft_node \<Rightarrow> bool" where
  run_Nil: "node_run n [] n"
| run_snoc: "node_run n vs n' \<Longrightarrow> node_step n' ws n'' \<Longrightarrow> node_run n (vs @ ws) n''"

definition votes_ok :: "(u64 \<times> string) list \<Rightarrow> raft_node \<Rightarrow> bool" where
  "votes_ok vs n \<longleftrightarrow>
     (\<forall>(t, c) \<in> set vs. t \<le> current_term n \<and> (t = current_term n \<longrightarrow> voted_for n = Some c)) \<and>
     (\<forall>(t, c) \<in> set vs. \<forall>(t', c') \<in> set vs. t = t' \<longrightarrow> c = c')"

lemma votes_ok_keep:
  assumes "votes_ok vs n" and "current_term n \<le> current_term n'"
    and "current_term n' = current_term n \<Longrightarrow> voted_for n \<noteq> None \<Longrightarrow> voted_for n' = voted_for n"
  shows "votes_ok vs n'"
  using assms unfolding votes_ok_def by (fastforce split: prod.splits)

lemma votes_ok_add:
  assumes "votes_ok vs n" and "current_term n \<le> current_term n'" and "current_term n' = t"
    and "voted_for n' = Some c"
    and "current_term n = t \<Longrightarrow> voted_for n = None \<or> voted_for n = Some c"
  shows "votes_ok (vs @ [(t, c)]) n'"
proof -
  have old: "t' \<le> t \<and> (t' = t \<longrightarrow> c' = c)" if "(t', c') \<in> set vs" for t' c'
  proof -
    have "t' \<le> current_term n" "t' = current_term n \<longrightarrow> voted_for n = Some c'"
      using assms(1) that by (auto simp: votes_ok_def)
    then show ?thesis using assms(2,3,5) by auto
  qed
  show ?thesis
    using assms(1,3,4) old unfolding votes_ok_def by fastforce
qed

lemma start_election_frame:
  assumes "start_election n = (t, n')" and "current_term n \<noteq> - 1"
  shows "t = current_term n + 1" "current_term n' = t" "voted_for n' = Some (node_id n)"
    "current_term n < t" "node_id n' = node_id n" "log n' = log n" "peers n' = peers n"
  using assms unat_Suc_word [OF assms(2)]
  by (auto simp: start_election_def Let_def word_less_nat_alt)

lemma replicate_finish_frame:
  "replicate_finish e k a n = (res, n') \<Longrightarrow> current_term n' = current_term n \<and> voted_for n' = voted_for n"
  by (auto simp: replicate_finish_def split: if_splits)

lemma raft_replicate_frame:
  assumes "raft_replicate rpc d n = (res, n')"
  shows "current_term n' = current_term n" "voted_for n' = voted_for n"
proof -
  have "current_term n' = current_term n \<and> voted_for n' = voted_for n"
  proof (cases "replicate_begin d n")
    case (Inl e)
    then show ?thesis using assms by (simp add: raft_replicate_def)
  next
    case (Inr x)
    obtain e n1 where x: "x = (e, n1)" by fastforce
    have "current_term n1 = current_term n" "voted_for n1 = voted_for n"
      using Inr x by (auto simp: replicate_begin_def Let_def split: if_splits)
    then show ?thesis
      using assms Inr x by (simp add: raft_replicate_def Let_def replicate_finish_frame)
  qed
  then show "current_term n' = current_term n" "voted_for n' = voted_for n" by simp_all
qed

lemma node_step_votes:
  assumes "votes_ok vs n" and "node_step n ws n'"
  shows "votes_ok (vs @ ws) n'"
  using assms(2)
proof cases
  case (request_vote req r)
  note h = handle_request_vote_grant [OF request_vote(2)]
  show ?thesis
  proof (cases "vr_vote_granted r")
    case True
    then show ?thesis
      using votes_ok_add [OF assms(1) h(1), of "vq_term req" "vq_candidate_id req"] h(2,3) request_vote(1) by simp
  next
    case False
    then show ?thesis
      using votes_ok_keep [OF assms(1) h(1)] h(4) request_vote(1) by simp
  qed
next
  case (granting t c g)
  then show ?thesis
    using votes_ok_add [OF assms(1), of n' t c] votes_ok_keep [OF assms(1), of n']
    by (auto simp: grant_vote_def Let_def split: if_splits)
next
  case (starting t)
  note s = start_election_frame [OF starting(3,2)]
  show ?thesis
    using votes_ok_add [OF assms(1), of n' t "node_id n"] s starting(1) by auto
next
  case (appending req r)
  then show ?thesis
    using votes_ok_keep [OF assms(1), of n'] handle_append_frame [OF appending(2)] by simp
next
  case (replicating rpc d res)
  show ?thesis
    using votes_ok_keep [OF assms(1), of n'] raft_replicate_frame [OF replicating(2)] replicating(1) by simp
qed (use votes_ok_keep [OF assms(1), of n'] in
      \<open>simp_all add: become_leader_def recover_def raft_save_snapshot_def\<close>)

lemma node_run_votes:
  assumes "node_run n vs n'"
  shows "votes_ok vs n'"
  using assms
proof (induction rule: node_run.induct)
  case (run_Nil n)
  then show ?case by (simp add: votes_ok_def)
qed (rule node_step_votes)

section \<open>Properties\<close>

text \<open>
  One vote per term: whatever requests a node answers, elections it starts, entries it
  appends and leadership it assumes, in any order, it never votes for two different
  candidates in the same term, its own candidacy included.
\<close>

theorem one_vote_per_term:
  assumes "node_run n vs n'" and "(t, c) \<in> set vs" and "(t, c') \<in> set vs"
  shows "c = c'"
  using node_run_votes [OF assms(1)] assms(2,3) by (auto simp: votes_ok_def)


theorem one_vote_per_term_witness:
  "\<exists>vs n'. node_run (raft_new ''a'') vs n' \<and> (1, ''b'') \<in> set vs \<and> (\<forall>c. (1, c) \<in> set vs \<longrightarrow> c = ''b'')"
proof -
  let ?q = "\<lambda>c. \<lparr>vq_term = 1, vq_candidate_id = c, vq_last_log_index = 0, vq_last_log_term = 0\<rparr>"
  let ?n1 = "snd (handle_request_vote (?q ''b'') (raft_new ''a''))"
  have s1: "node_step (raft_new ''a'') [(1, ''b'')] ?n1"
    using node_step.request_vote [of "?q ''b''" "raft_new ''a''", OF surjective_pairing]
    by (simp add: handle_request_vote_def raft_new_def)
  have s2: "node_step ?n1 [] (snd (handle_request_vote (?q ''c'') ?n1))"
    using node_step.request_vote [of "?q ''c''" ?n1, OF surjective_pairing]
    by (simp add: handle_request_vote_def raft_new_def)
  have "node_run (raft_new ''a'') (([] @ [(1, ''b'')]) @ []) (snd (handle_request_vote (?q ''c'') ?n1))"
    by (rule run_snoc [OF run_snoc [OF run_Nil s1] s2])
  then have "node_run (raft_new ''a'') [(1, ''b'')] (snd (handle_request_vote (?q ''c'') ?n1))"
    by simp
  with one_vote_per_term [OF this, of 1 "''b''"] show ?thesis by force
qed

text \<open>
  A lost election gives the vote away twice: a node whose election does not reach the
  majority steps down in the term of that election and forgets that it voted for itself,
  so the next candidate that asks in the same term gets its vote as well.
\<close>

theorem lost_election_votes_again:
  assumes "start_election_and_collect_votes rpc ps n = (False, n')"
    and "vq_term req = current_term n + 1"
  shows "voted_for (snd (start_election n)) = Some (node_id n) \<and> current_term n' = current_term n + 1 \<and>
         vr_vote_granted (fst (handle_request_vote req n'))"
  using assms
  by (auto simp: start_election_and_collect_votes_def finish_election_def start_election_def step_down_def
      handle_request_vote_def Let_def split: if_splits)

theorem lost_election_votes_again_witness:
  "vr_vote_granted (fst (handle_request_vote
     \<lparr>vq_term = 1, vq_candidate_id = ''b'', vq_last_log_index = 0, vq_last_log_term = 0\<rparr>
     (snd (start_election_and_collect_votes (\<lambda>_ _. None) [''b'', ''c''] (raft_new ''a'')))))"
proof -
  have "start_election_and_collect_votes (\<lambda>_ _. None) [''b'', ''c''] (raft_new ''a'')
     = (False, snd (start_election_and_collect_votes (\<lambda>_ _. None) [''b'', ''c''] (raft_new ''a'')))"
    by (simp add: start_election_and_collect_votes_def start_election_def finish_election_def majority_def Let_def)
  from lost_election_votes_again [OF this,
      of "\<lparr>vq_term = 1, vq_candidate_id = ''b'', vq_last_log_index = 0, vq_last_log_term = 0\<rparr>"]
  show ?thesis by (simp add: raft_new_def)
qed

text \<open>
  A deposed leader keeps its role: a leader that is asked for its vote in a newer term
  grants it and adopts the term, but remains a leader, now of that term.
\<close>

theorem deposed_leader_keeps_role:
  assumes "is_leader n" and "current_term n < vq_term req" and "handle_request_vote req n = (r, n')"
  shows "vr_vote_granted r \<and> is_leader n' \<and> current_term n' = vq_term req"
  using assms by (auto simp: handle_request_vote_def is_leader_def Let_def split: if_splits)

theorem deposed_leader_keeps_role_witness:
  "is_leader (snd (handle_request_vote \<lparr>vq_term = 2, vq_candidate_id = ''b'', vq_last_log_index = 0, vq_last_log_term = 0\<rparr>
     (become_leader (raft_new ''a''))))"
  using deposed_leader_keeps_role [OF _ _ surjective_pairing, of "become_leader (raft_new ''a'')"
      "\<lparr>vq_term = 2, vq_candidate_id = ''b'', vq_last_log_index = 0, vq_last_log_term = 0\<rparr>"]
  by (simp add: become_leader_def raft_new_def is_leader_def)

lemma odd_majorities_meet:
  assumes "odd (length ids)" and "A \<subseteq> set ids" and "B \<subseteq> set ids"
    and "majority (length ids) \<le> card A" and "majority (length ids) \<le> card B"
  shows "A \<inter> B \<noteq> {}"
proof
  assume "A \<inter> B = {}"
  moreover have "finite A" "finite B" using assms(2,3) finite_subset by auto
  ultimately have "card A + card B = card (A \<union> B)" by (simp add: card_Un_disjoint)
  also have "\<dots> \<le> card (set ids)" using assms(2,3) by (intro card_mono) auto
  also have "\<dots> \<le> length ids" by (rule card_length)
  finally have "majority (length ids) + majority (length ids) \<le> length ids" using assms(4,5) by linarith
  then show False using assms(1) by (auto simp: majority_def elim!: oddE)
qed

text \<open>
  The majority of the code and even clusters: any two sets of nodes that reach the
  computed majority have a node in common exactly when the number of nodes is odd. In
  every cluster of even size two disjoint halves both count as a majority.
\<close>

theorem majorities_meet_iff_odd:
  assumes "distinct ids" and "ids \<noteq> []"
  shows "(\<forall>A B. A \<subseteq> set ids \<and> B \<subseteq> set ids \<and> majority (length ids) \<le> card A \<and> majority (length ids) \<le> card B
            \<longrightarrow> A \<inter> B \<noteq> {}) \<longleftrightarrow> odd (length ids)"
proof
  assume meet: "\<forall>A B. A \<subseteq> set ids \<and> B \<subseteq> set ids \<and> majority (length ids) \<le> card A \<and> majority (length ids) \<le> card B
    \<longrightarrow> A \<inter> B \<noteq> {}"
  show "odd (length ids)"
  proof
    assume even: "even (length ids)"
    let ?m = "length ids div 2"
    have m: "majority (length ids) = ?m" "?m + ?m = length ids"
      using even by (auto simp: majority_def)
    have m3: "length ids - ?m = ?m" using m(2) by linarith
    have "card (set (take ?m ids)) = ?m" "card (set (drop ?m ids)) = ?m"
      using assms(1) m(2) m3 distinct_card [of "take ?m ids"] distinct_card [of "drop ?m ids"] by auto
    moreover have "set (take ?m ids) \<inter> set (drop ?m ids) = {}"
      using assms(1) by (rule set_take_disj_set_drop_if_distinct) simp
    ultimately show False
      using meet m(1) set_take_subset [of ?m ids] set_drop_subset [of ?m ids] by (metis order_refl)
  qed
next
  assume "odd (length ids)"
  then show "\<forall>A B. A \<subseteq> set ids \<and> B \<subseteq> set ids \<and> majority (length ids) \<le> card A \<and> majority (length ids) \<le> card B
    \<longrightarrow> A \<inter> B \<noteq> {}"
    using odd_majorities_meet by blast
qed

theorem majorities_meet_iff_odd_witness:
  "\<not> (\<forall>A B. A \<subseteq> set [''a'', ''b''] \<and> B \<subseteq> set [''a'', ''b''] \<and> majority (length [''a'', ''b'']) \<le> card A \<and>
        majority (length [''a'', ''b'']) \<le> card B \<longrightarrow> A \<inter> B \<noteq> {})"
  using majorities_meet_iff_odd [of "[''a'', ''b'']"] by simp

text \<open>
  A node with one peer needs no vote: in a cluster of two nodes the majority that the
  code computes is one, so an election is won without any answer.
\<close>

theorem two_nodes_elect_alone:
  "fst (start_election_and_collect_votes rpc [p] n) \<and> is_leader (snd (start_election_and_collect_votes rpc [p] n))"
  by (simp add: start_election_and_collect_votes_def start_election_def finish_election_def majority_def
      become_leader_def is_leader_def Let_def)

text \<open>
  A repeated append is stored twice: whenever a node accepts a request to append
  entries, delivering the same request again is accepted too and stores the entries a
  second time behind the first, although their indices are already taken.
\<close>

theorem repeated_append_duplicates:
  assumes "handle_append_entries req n = (r, n')" and "ar_success r"
  shows "ar_success (fst (handle_append_entries req n')) \<and>
         log (snd (handle_append_entries req n')) = log n @ aq_entries req @ aq_entries req"
proof -
  have "\<not> aq_term req < current_term n" "unat (aq_prev_log_index req) \<le> length (log n)"
    "log n' = log n @ aq_entries req" "current_term n' = aq_term req"
    using handle_append_accepted [OF assms] by simp_all
  then show ?thesis using handle_append_accepts [of req n'] by simp
qed

theorem repeated_append_duplicates_witness:
  "log (snd (handle_append_entries
      \<lparr>aq_term = 1, aq_leader_id = ''a'', aq_prev_log_index = 0, aq_prev_log_term = 0,
       aq_entries = [\<lparr>le_term = 1, le_index = 1, le_data = [7]\<rparr>], aq_leader_commit = 0\<rparr>
      (snd (handle_append_entries
        \<lparr>aq_term = 1, aq_leader_id = ''a'', aq_prev_log_index = 0, aq_prev_log_term = 0,
         aq_entries = [\<lparr>le_term = 1, le_index = 1, le_data = [7]\<rparr>], aq_leader_commit = 0\<rparr> (raft_new ''b'')))))
   = [\<lparr>le_term = 1, le_index = 1, le_data = [7]\<rparr>, \<lparr>le_term = 1, le_index = 1, le_data = [7]\<rparr>]"
  using repeated_append_duplicates [OF surjective_pairing,
      of "\<lparr>aq_term = 1, aq_leader_id = ''a'', aq_prev_log_index = 0, aq_prev_log_term = 0,
       aq_entries = [\<lparr>le_term = 1, le_index = 1, le_data = [7]\<rparr>], aq_leader_commit = 0\<rparr>" "raft_new ''b''"]
  by (simp add: handle_append_entries_def raft_new_def)

section \<open>Replication\<close>

text \<open>The log of a node that only ever replicated: its indices count up from one.\<close>

definition log_contiguous :: "log_entry list \<Rightarrow> bool" where
  "log_contiguous l \<longleftrightarrow> length l < 2 ^ 63 \<and> (\<forall>i < length l. unat (le_index (l ! i)) = i + 1)"

lemma log_contiguous_last: "log_contiguous l \<Longrightarrow> unat (last_index l) = length l"
  by (auto simp: log_contiguous_def last_index_def last_conv_nth)

lemma replicate_begin_index:
  assumes "log_contiguous (log n)" and "replicate_begin d n = Inr (e, n')"
  shows "unat (le_index e) = length (log n) + 1" and "unat (le_index e - 1) = length (log n)"
    and "log n' = log n @ [e]" and "le_term e = current_term n" and "current_term n' = current_term n"
    and "node_id n' = node_id n" "last_applied n' = last_applied n" "commit_index n' = commit_index n"
proof -
  have e: "le_index e = last_index (log n) + 1" "log n' = log n @ [e]" "le_term e = current_term n"
    "current_term n' = current_term n" "node_id n' = node_id n" "last_applied n' = last_applied n"
    "commit_index n' = commit_index n"
    using assms(2) by (auto simp: replicate_begin_def last_index_def Let_def split: if_splits)
  have "unat (last_index (log n)) + 1 < 2 ^ 64"
    using log_contiguous_last [OF assms(1)] assms(1) by (simp add: log_contiguous_def)
  then have "unat (last_index (log n) + 1) = unat (last_index (log n)) + 1"
    using unat_plus_no_wrap [of "last_index (log n)" 1] by simp
  then show "unat (le_index e) = length (log n) + 1" "unat (le_index e - 1) = length (log n)"
    using log_contiguous_last [OF assms(1)] e(1) by simp_all
qed (use assms(2) in \<open>auto simp: replicate_begin_def Let_def split: if_splits\<close>)

lemma apply_loop_max: "apply_loop a c = max a c"
proof (induction a c rule: apply_loop.induct)
  case (1 a c)
  show ?case
  proof (cases "a < c")
    case True
    then have "a \<noteq> - 1" by auto
    then have "a + 1 \<le> c" using unat_Suc_word [of a] True by (simp add: word_less_nat_alt word_le_nat_alt)
    then show ?thesis using 1 True by (subst apply_loop.simps) (auto simp: max_def)
  next
    case False
    then show ?thesis by (subst apply_loop.simps) simp
  qed
qed

text \<open>
  Replication to a follower in step: when a leader whose log counts up from one
  replicates an entry to a follower with the same log and no newer term, the follower
  accepts it, its log again equals the leader's, and the indices still count up. But the
  follower takes the entry as committed at once: the request already announces it as
  committed, also when the leader reaches too few followers and reports that there is no
  majority.
\<close>

theorem replicate_in_step_commits_early:
  assumes "log_contiguous (log n)" and "length (log n) + 1 < 2 ^ 63"
    and "log f = log n" and "current_term f \<le> current_term n" and "unat (commit_index f) \<le> length (log f)"
    and "replicate_begin d n = Inr (e, n')"
    and "handle_append_entries (replicate_request e n') f = (r, f')"
  shows "ar_success r \<and> log f' = log n' \<and> log_contiguous (log n') \<and> commit_index f' = le_index e \<and>
         (2 < majority (k + 1) \<longrightarrow> fst (replicate_finish e k 2 n') = Inl (Internal ''Raft: no majority for commit'') \<and>
            commit_index (snd (replicate_finish e k 2 n')) = commit_index n)"
proof -
  note e = replicate_begin_index [OF assms(1,6)]
  have "commit_index f < le_index e"
    using e(1) assms(3,5) by (simp add: word_less_nat_alt)
  then have f': "ar_success r" "log f' = log n'" "commit_index f' = le_index e"
    using assms(3,4) e handle_append_accepts [of "replicate_request e n'" f] assms(7)
    by (simp_all add: replicate_request_def last_index_def)
  have "log_contiguous (log n')"
    using assms(1,2) e(1,3) by (auto simp: log_contiguous_def nth_append less_Suc_eq)
  then show ?thesis
    using f' e(8) by (simp add: replicate_finish_def)
qed

theorem replicate_in_step_commits_early_witness:
  "commit_index (snd (handle_append_entries
     (replicate_request \<lparr>le_term = 0, le_index = 1, le_data = [7]\<rparr>
        (become_leader (raft_new ''a'')\<lparr>log := [\<lparr>le_term = 0, le_index = 1, le_data = [7]\<rparr>]\<rparr>)) (raft_new ''b''))) = 1 \<and>
   fst (replicate_finish \<lparr>le_term = 0, le_index = 1, le_data = [7]\<rparr> 4 2
      (become_leader (raft_new ''a'')\<lparr>log := [\<lparr>le_term = 0, le_index = 1, le_data = [7]\<rparr>]\<rparr>))
     = Inl (Internal ''Raft: no majority for commit'')"
  using replicate_in_step_commits_early [of "become_leader (raft_new ''a'')" "raft_new ''b''" "[7]"
      "\<lparr>le_term = 0, le_index = 1, le_data = [7]\<rparr>"
      "become_leader (raft_new ''a'')\<lparr>log := [\<lparr>le_term = 0, le_index = 1, le_data = [7]\<rparr>]\<rparr>", OF _ _ _ _ _ _ surjective_pairing, of 4]
  by (simp add: raft_new_def become_leader_def log_contiguous_def replicate_begin_def is_leader_def majority_def Let_def)

text \<open>
  C21. Replication on the leader: only a leader replicates; others refuse with the leader
  they know, or \<open>unknown\<close>, and change nothing. A leader whose log counts up from one always
  stores the entry at the next index. It reports success exactly when the acknowledgements
  and its own reach the majority, and then the entry is the commit index and everything up
  to it is applied; otherwise it reports that there is no majority and the entry stays in
  the log uncommitted. Nothing else of the node changes.
\<close>

theorem replicate_outcome:
  assumes "log_contiguous (log n)" and "raft_replicate rpc d n = (res, n')"
  shows "if \<not> is_leader n
         then n' = n \<and> res = Inl (NotLeader (case leader_id n of Some l \<Rightarrow> l | None \<Rightarrow> ''unknown''))
         else \<exists>e. le_data e = d \<and> le_term e = current_term n \<and> unat (le_index e) = length (log n) + 1 \<and>
                (let acks = 1 + length (filter (\<lambda>p. \<exists>r. rpc p (replicate_request e n) = Some r \<and> ar_success r) (peers n))
                 in if majority (length (peers n) + 1) \<le> acks
                    then res = Inr () \<and> n' = n\<lparr>log := log n @ [e], commit_index := le_index e,
                                                last_applied := max (last_applied n) (le_index e)\<rparr>
                    else res = Inl (Internal ''Raft: no majority for commit'') \<and> n' = n\<lparr>log := log n @ [e]\<rparr>)"
proof (cases "is_leader n")
  case False
  then show ?thesis using assms(2) by (auto simp: raft_replicate_def replicate_begin_def)
next
  case True
  then obtain e n1 where b: "replicate_begin d n = Inr (e, n1)" "le_data e = d" "n1 = n\<lparr>log := log n @ [e]\<rparr>"
    by (auto simp: replicate_begin_def Let_def)
  note e = replicate_begin_index [OF assms(1) b(1)]
  have ack: "(case rpc p q of Some r \<Rightarrow> ar_success r | None \<Rightarrow> False) \<longleftrightarrow> (\<exists>r. rpc p q = Some r \<and> ar_success r)" for p q
    by (simp split: option.splits)
  have q: "replicate_request e n1 = replicate_request e n" "peers n1 = peers n"
    using b(3) by (simp_all add: replicate_request_def)
  have fin: "(res, n') = replicate_finish e (length (peers n))
      (1 + length (filter (\<lambda>p. \<exists>r. rpc p (replicate_request e n) = Some r \<and> ar_success r) (peers n))) n1"
    using assms(2) b(1) by (simp add: raft_replicate_def Let_def q ack)
  have nn: "\<not> \<not> is_leader n" using True by simp
  show ?thesis
    unfolding if_not_P [OF nn] Let_def
  proof (rule exI [of _ e], intro conjI)
    show "if majority (length (peers n) + 1) \<le>
        1 + length (filter (\<lambda>p. \<exists>r. rpc p (replicate_request e n) = Some r \<and> ar_success r) (peers n))
      then res = Inr () \<and> n' = n\<lparr>log := log n @ [e], commit_index := le_index e,
                                  last_applied := max (last_applied n) (le_index e)\<rparr>
      else res = Inl (Internal ''Raft: no majority for commit'') \<and> n' = n\<lparr>log := log n @ [e]\<rparr>"
      using fin b(3) by (simp add: replicate_finish_def apply_loop_max split: if_splits)
  qed (use b(2) e in simp_all)
qed

theorem replicate_outcome_witness:
  "\<exists>e. log (snd (raft_replicate (\<lambda>_ _. Some \<lparr>ar_term = 0, ar_success = True, ar_conflict_index = 0\<rparr>) [7]
          (become_leader (raft_new ''a'')\<lparr>peers := [''b'', ''c'']\<rparr>))) = [e] \<and>
     fst (raft_replicate (\<lambda>_ _. Some \<lparr>ar_term = 0, ar_success = True, ar_conflict_index = 0\<rparr>) [7]
          (become_leader (raft_new ''a'')\<lparr>peers := [''b'', ''c'']\<rparr>)) = Inr () \<and>
     le_data e = [7] \<and> unat (le_index e) = 1"
  using replicate_outcome [of "become_leader (raft_new ''a'')\<lparr>peers := [''b'', ''c'']\<rparr>",
      OF _ surjective_pairing, of "\<lambda>_ _. Some \<lparr>ar_term = 0, ar_success = True, ar_conflict_index = 0\<rparr>" "[7]"]
  by (auto simp: raft_new_def become_leader_def log_contiguous_def is_leader_def majority_def)

end
