(* ===== verification/RaftRpc.thy ===== *)
theory RaftRpc
  imports Raft
begin

text \<open>
  The way of a Raft message between nodes: the conversions of \<open>src/src/common/raft.rs\<close> to and
  from the messages of \<open>src/proto/kv.proto\<close>, and the client
  \<open>src/src/coordinator/raft_rpc_client.rs\<close>. Connecting to an address and the call itself are
  the crate tonic: \<open>net\<close> gives the text of a connection error or the remote method. The last
  theorem is about elections whose votes come from the service that the sources run.
\<close>

section \<open>Messages on the wire\<close>

record proto_vote_request =
  pv_term :: u64
  pv_candidate_id :: string
  pv_last_log_index :: u64
  pv_last_log_term :: u64

record proto_vote_response =
  pvr_term :: u64
  pvr_vote_granted :: bool

record proto_log_entry =
  pl_term :: u64
  pl_index :: u64
  pl_data :: bytes

record proto_append_request =
  pa_term :: u64
  pa_leader_id :: string
  pa_prev_log_index :: u64
  pa_prev_log_term :: u64
  pa_entries :: "proto_log_entry list"
  pa_leader_commit :: u64

record proto_append_response =
  par_term :: u64
  par_success :: bool
  par_conflict_index :: u64

definition vote_to_proto :: "vote_request \<Rightarrow> proto_vote_request" where
  "vote_to_proto req = \<lparr>pv_term = vq_term req, pv_candidate_id = vq_candidate_id req,
     pv_last_log_index = vq_last_log_index req, pv_last_log_term = vq_last_log_term req\<rparr>"

definition vote_from_proto :: "proto_vote_response \<Rightarrow> vote_response" where
  "vote_from_proto resp = \<lparr>vr_term = pvr_term resp, vr_vote_granted = pvr_vote_granted resp\<rparr>"

definition entry_to_proto :: "log_entry \<Rightarrow> proto_log_entry" where
  "entry_to_proto e = \<lparr>pl_term = le_term e, pl_index = le_index e, pl_data = le_data e\<rparr>"

definition append_to_proto :: "append_request \<Rightarrow> proto_append_request" where
  "append_to_proto req = \<lparr>pa_term = aq_term req, pa_leader_id = aq_leader_id req,
     pa_prev_log_index = aq_prev_log_index req, pa_prev_log_term = aq_prev_log_term req,
     pa_entries = map entry_to_proto (aq_entries req), pa_leader_commit = aq_leader_commit req\<rparr>"

definition append_from_proto :: "proto_append_response \<Rightarrow> append_response" where
  "append_from_proto resp = \<lparr>ar_term = par_term resp, ar_success = par_success resp,
     ar_conflict_index = par_conflict_index resp\<rparr>"

section \<open>The client\<close>

definition internal_status :: "string \<Rightarrow> grpc_status" where
  "internal_status msg = \<lparr>st_code = CodeInternal, st_message = msg, st_metadata = []\<rparr>"

definition send_append_entries_rpc ::
  "(string \<Rightarrow> string + (proto_append_request \<Rightarrow> grpc_status + proto_append_response)) \<Rightarrow> string \<Rightarrow> append_request
     \<Rightarrow> grpc_status + append_response" where
  "send_append_entries_rpc net peer_addr req =
     rbind (map_err internal_status (net peer_addr)) (\<lambda>append_entries.
     rbind (append_entries (append_to_proto req)) (\<lambda>resp. Inr (append_from_proto resp)))"

definition send_request_vote_rpc ::
  "(string \<Rightarrow> string + (proto_vote_request \<Rightarrow> grpc_status + proto_vote_response)) \<Rightarrow> string \<Rightarrow> vote_request
     \<Rightarrow> grpc_status + vote_response" where
  "send_request_vote_rpc net peer_addr req =
     rbind (map_err internal_status (net peer_addr)) (\<lambda>request_vote.
     rbind (request_vote (vote_to_proto req)) (\<lambda>resp. Inr (vote_from_proto resp)))"

section \<open>Properties\<close>

text \<open>
  A peer as its handlers answer on the wire: the message is read as the request it stands
  for and the response is sent field by field. A peer that cannot be reached is \<open>None\<close>.
\<close>

definition vote_of_proto :: "proto_vote_request \<Rightarrow> vote_request" where
  "vote_of_proto m = \<lparr>vq_term = pv_term m, vq_candidate_id = pv_candidate_id m,
     vq_last_log_index = pv_last_log_index m, vq_last_log_term = pv_last_log_term m\<rparr>"

definition entry_of_proto :: "proto_log_entry \<Rightarrow> log_entry" where
  "entry_of_proto m = \<lparr>le_term = pl_term m, le_index = pl_index m, le_data = pl_data m\<rparr>"

definition append_of_proto :: "proto_append_request \<Rightarrow> append_request" where
  "append_of_proto m = \<lparr>aq_term = pa_term m, aq_leader_id = pa_leader_id m, aq_prev_log_index = pa_prev_log_index m,
     aq_prev_log_term = pa_prev_log_term m, aq_entries = map entry_of_proto (pa_entries m), aq_leader_commit = pa_leader_commit m\<rparr>"

definition vote_wire ::
  "(string \<Rightarrow> (vote_request \<Rightarrow> vote_response) option) \<Rightarrow> string \<Rightarrow> string + (proto_vote_request \<Rightarrow> grpc_status + proto_vote_response)" where
  "vote_wire up p =
     (case up p of
        None \<Rightarrow> Inl ''transport error''
      | Some h \<Rightarrow> Inr (\<lambda>m. let r = h (vote_of_proto m) in Inr \<lparr>pvr_term = vr_term r, pvr_vote_granted = vr_vote_granted r\<rparr>))"

definition append_wire ::
  "(string \<Rightarrow> (append_request \<Rightarrow> append_response) option) \<Rightarrow> string \<Rightarrow> string + (proto_append_request \<Rightarrow> grpc_status + proto_append_response)" where
  "append_wire up p =
     (case up p of
        None \<Rightarrow> Inl ''transport error''
      | Some h \<Rightarrow> Inr (\<lambda>m. let r = h (append_of_proto m)
          in Inr \<lparr>par_term = ar_term r, par_success = ar_success r, par_conflict_index = ar_conflict_index r\<rparr>))"

lemma vote_of_to_proto [simp]: "vote_of_proto (vote_to_proto req) = req"
  by (simp add: vote_of_proto_def vote_to_proto_def)

lemma entry_of_to_proto [simp]: "entry_of_proto (entry_to_proto e) = e"
  by (simp add: entry_of_proto_def entry_to_proto_def)

lemma append_of_to_proto [simp]: "append_of_proto (append_to_proto req) = req"
  by (simp add: append_of_proto_def append_to_proto_def comp_def)

lemma vote_over_wire:
  "send_request_vote_rpc (vote_wire up) p req =
     (case up p of None \<Rightarrow> Inl (internal_status ''transport error'') | Some h \<Rightarrow> Inr (h req))"
  by (simp add: send_request_vote_rpc_def vote_wire_def vote_from_proto_def res_simps Let_def split: option.split)

text \<open>
  Nothing is lost on the way: calls through the client reach the handler of the peer
  with the very request and bring back its very answer, for votes and for entries, so an
  election over the wire is the election over the handlers directly; a peer that cannot
  be reached gives an internal status and counts as one that does not answer.
\<close>

theorem rpc_transparent:
  "start_election_and_collect_votes
     (\<lambda>p req. case send_request_vote_rpc (vote_wire up) p req of Inr r \<Rightarrow> Some r | Inl _ \<Rightarrow> None) ps n =
   start_election_and_collect_votes (\<lambda>p req. map_option (\<lambda>h. h req) (up p)) ps n \<and>
   send_append_entries_rpc (append_wire up') p req =
     (case up' p of None \<Rightarrow> Inl (internal_status ''transport error'') | Some h \<Rightarrow> Inr (h req))"
proof
  have "(case send_request_vote_rpc (vote_wire up) p req of Inr r \<Rightarrow> Some r | Inl _ \<Rightarrow> None) = map_option (\<lambda>h. h req) (up p)" for p req
    by (simp add: vote_over_wire split: option.split)
  then show "start_election_and_collect_votes
     (\<lambda>p req. case send_request_vote_rpc (vote_wire up) p req of Inr r \<Rightarrow> Some r | Inl _ \<Rightarrow> None) ps n =
   start_election_and_collect_votes (\<lambda>p req. map_option (\<lambda>h. h req) (up p)) ps n" by simp
  show "send_append_entries_rpc (append_wire up') p req =
     (case up' p of None \<Rightarrow> Inl (internal_status ''transport error'') | Some h \<Rightarrow> Inr (h req))"
    by (simp add: send_append_entries_rpc_def append_wire_def append_from_proto_def res_simps Let_def split: option.split)
qed

text \<open>
  Which vote a candidate gets of a peer: what the client brings back from the method
  \<open>request_vote\<close> of the peer's service, or nothing if the peer cannot be reached.
\<close>

definition service_rpc :: "(string \<Rightarrow> bool) \<Rightarrow> string \<Rightarrow> vote_request \<Rightarrow> vote_response option" where
  "service_rpc up peer req =
     (case send_request_vote_rpc (vote_wire (\<lambda>p. if up p then Some grpc_request_vote else None)) peer req of
        Inr resp \<Rightarrow> Some resp
      | Inl _ \<Rightarrow> None)"

lemma service_rpc_grants:
  "(case service_rpc up p req of Some r \<Rightarrow> vr_vote_granted r | None \<Rightarrow> False) \<longleftrightarrow> up p \<and> 1 \<le> vq_term req"
  by (simp add: service_rpc_def vote_over_wire grpc_request_vote_def)

text \<open>
  C18. Elections as the sources connect them: a candidate that collects votes through the RPC
  client from the gRPC service of its peers wins exactly when its own vote and the number of
  peers it can reach come to half of the cluster, rounded up; then it is the leader of the
  next term, otherwise a follower in that term without a vote. The terms, votes and roles
  of the peers have no influence, so that several nodes can win the same term. Only when the
  64-bit term wraps to zero does the service refuse.
\<close>

theorem election_over_service:
  "start_election_and_collect_votes (service_rpc up) ps n =
     (let reached = (if current_term n = - 1 then 0 else length (filter up ps));
          n1 = n\<lparr>current_term := current_term n + 1\<rparr>
      in if (length ps + 2) div 2 \<le> 1 + reached
         then (True, n1\<lparr>role := Leader, voted_for := Some (node_id n), leader_id := Some (node_id n)\<rparr>)
         else (False, n1\<lparr>role := Follower, voted_for := None, leader_id := None\<rparr>))"
proof -
  have "1 \<le> current_term n + 1 \<longleftrightarrow> current_term n \<noteq> - 1"
    using unat_Suc_word [of "current_term n"] by (auto simp: word_le_nat_alt)
  then show ?thesis
    by (auto simp: start_election_and_collect_votes_def service_rpc_grants start_election_def vote_request_of_def
        finish_election_def majority_def become_leader_def step_down_def Let_def)
qed

end
