(* ===== verification/Locks.thy ===== *)
theory Locks
  imports Prelude
begin

text \<open>
  Threads that share locks. \<open>Mutex::lock\<close> and \<open>RwLock::write\<close> of the standard library
  take a lock exclusively, \<open>RwLock::read\<close> shares it; a guard is released where it goes
  out of scope. Of a method only the sequence of its lock operations is kept. A thread
  that wants a lock first queues for it and is then granted it; whether a queued writer
  keeps readers out is left open by the documentation of \<open>RwLock\<close> and is the parameter
  \<open>pref\<close>. The locale \<open>lock_order\<close> gives freedom from deadlock for methods that take
  their locks in the order of some rank, whatever the number of threads, the sequence of
  methods each of them calls and the schedule.
\<close>

section \<open>The machine\<close>

datatype lock_mode = Shared | Exclusive

datatype 'l lock_act = Acq lock_mode 'l | Rel 'l

record 'l lock_thread =
  held :: "('l \<times> lock_mode) list"
  queued :: bool
  todo :: "'l lock_act list"

definition fresh_thread :: "'l lock_act list \<Rightarrow> 'l lock_thread" where
  "fresh_thread p = \<lparr>held = [], queued = False, todo = p\<rparr>"

text \<open>A lock that is taken and released within one statement or one scope.\<close>

definition locked :: "lock_mode \<Rightarrow> 'l \<Rightarrow> 'l lock_act list \<Rightarrow> 'l lock_act list" where
  "locked m l body = Acq m l # body @ [Rel l]"

fun release :: "'l \<Rightarrow> ('l \<times> lock_mode) list \<Rightarrow> ('l \<times> lock_mode) list" where
  "release l [] = []"
| "release l ((l', m) # h) = (if l' = l then h else (l', m) # release l h)"

definition wants_write :: "'l \<Rightarrow> 'l lock_thread \<Rightarrow> bool" where
  "wants_write l t \<longleftrightarrow> queued t \<and> (case todo t of a # _ \<Rightarrow> a = Acq Exclusive l | [] \<Rightarrow> False)"

fun grantable :: "bool \<Rightarrow> lock_mode \<Rightarrow> 'l \<Rightarrow> 'l lock_thread list \<Rightarrow> bool" where
  "grantable pref Exclusive l ts = list_all (\<lambda>t. list_all (\<lambda>(l', _). l' \<noteq> l) (held t)) ts"
| "grantable pref Shared l ts =
     list_all (\<lambda>t. (l, Exclusive) \<notin> set (held t) \<and> \<not> (pref \<and> wants_write l t)) ts"

definition thread_step :: "bool \<Rightarrow> 'l lock_thread list \<Rightarrow> 'l lock_thread \<Rightarrow> 'l lock_thread option" where
  "thread_step pref ts t =
     (case todo t of
        [] \<Rightarrow> None
      | Rel l # p \<Rightarrow> Some (t\<lparr>held := release l (held t), todo := p\<rparr>)
      | Acq m l # p \<Rightarrow>
          if \<not> queued t then Some (t\<lparr>queued := True\<rparr>)
          else if grantable pref m l ts then Some (t\<lparr>held := (l, m) # held t, queued := False, todo := p\<rparr>)
          else None)"

definition lock_step :: "bool \<Rightarrow> nat \<Rightarrow> 'l lock_thread list \<Rightarrow> 'l lock_thread list option" where
  "lock_step pref i ts =
     (if i < length ts then map_option (\<lambda>t. ts[i := t]) (thread_step pref ts (ts ! i)) else None)"

text \<open>A schedule names the thread that is tried next; one that is blocked stays where it is.\<close>

fun lock_run :: "bool \<Rightarrow> nat list \<Rightarrow> 'l lock_thread list \<Rightarrow> 'l lock_thread list" where
  "lock_run pref [] ts = ts"
| "lock_run pref (i # is) ts =
     lock_run pref is (case lock_step pref i ts of Some ts' \<Rightarrow> ts' | None \<Rightarrow> ts)"

definition all_done :: "'l lock_thread list \<Rightarrow> bool" where
  "all_done ts = list_all (\<lambda>t. todo t = []) ts"

definition no_step :: "bool \<Rightarrow> 'l lock_thread list \<Rightarrow> bool" where
  "no_step pref ts = list_all (\<lambda>i. lock_step pref i ts = None) [0..<length ts]"

definition can_deadlock :: "bool \<Rightarrow> 'l lock_act list list \<Rightarrow> bool" where
  "can_deadlock pref ps \<longleftrightarrow>
     (\<exists>sched. let ts = lock_run pref sched (map fresh_thread ps) in no_step pref ts \<and> \<not> all_done ts)"

text \<open>Every schedule can be continued until every thread has finished.\<close>

definition always_finishes :: "bool \<Rightarrow> 'l lock_act list list \<Rightarrow> bool" where
  "always_finishes pref ps \<longleftrightarrow>
     (\<forall>sched. \<exists>more. all_done (lock_run pref (sched @ more) (map fresh_thread ps)))"

section \<open>Every run is finite\<close>

definition work :: "'l lock_thread \<Rightarrow> nat" where
  "work t = 2 * length (todo t) - (if queued t then 1 else 0)"

lemma thread_step_work: "thread_step pref ts t = Some t' \<Longrightarrow> work t' < work t"
  by (auto simp: thread_step_def work_def split: if_splits list.splits lock_act.splits)

lemma lock_stepE:
  assumes "lock_step pref i ts = Some ts'"
  obtains t' where "i < length ts" and "ts' = ts[i := t']" and "thread_step pref ts (ts ! i) = Some t'"
  using assms by (auto simp: lock_step_def split: if_splits)

lemma lock_step_work:
  assumes "lock_step pref i ts = Some ts'"
  shows "sum_list (map work ts') < sum_list (map work ts)"
proof -
  obtain t' where i: "i < length ts" and ts': "ts' = ts[i := t']" and less: "work t' < work (ts ! i)"
    using assms thread_step_work by (blast elim: lock_stepE)
  have "map work ts = take i (map work ts) @ work (ts ! i) # drop (Suc i) (map work ts)"
    using i id_take_nth_drop [of i "map work ts"] by simp
  moreover have "map work ts' = take i (map work ts) @ work t' # drop (Suc i) (map work ts)"
    using i ts' by (simp add: upd_conv_take_nth_drop take_map drop_map)
  ultimately show ?thesis using less by (metis add_less_cancel_left add_less_cancel_right sum_list.Cons sum_list_append)
qed

lemma lock_run_append: "lock_run pref (s @ s') ts = lock_run pref s' (lock_run pref s ts)"
  by (induction s arbitrary: ts) auto

lemma lock_run_no_step: "no_step pref ts \<Longrightarrow> lock_run pref sched ts = ts"
proof (induction sched)
  case (Cons i sched)
  have "lock_step pref i ts = None"
    using Cons.prems by (cases "i < length ts") (auto simp: no_step_def list_all_iff lock_step_def)
  with Cons show ?case by simp
qed simp

lemma deadlock_never_finishes: "can_deadlock pref ps \<Longrightarrow> \<not> always_finishes pref ps"
  unfolding can_deadlock_def always_finishes_def Let_def lock_run_append using lock_run_no_step by metis

section \<open>Methods that respect an order\<close>

text \<open>
  Who can keep a request for a lock waiting: a request \<open>w\<close> waits for a holder in mode
  \<open>m\<close> when one of the two is exclusive, and a reader also waits, behind a queued writer,
  for other readers. \<open>W\<close> are the locks that anybody writes.
\<close>

definition blocks :: "'l set \<Rightarrow> bool \<Rightarrow> lock_mode \<Rightarrow> lock_mode \<Rightarrow> 'l \<Rightarrow> bool" where
  "blocks W pref w m l \<longleftrightarrow> m = Exclusive \<or> l \<in> W \<and> (w = Exclusive \<or> pref)"

fun obeys ::
  "'l set \<Rightarrow> bool \<Rightarrow> (lock_mode \<Rightarrow> 'l \<Rightarrow> nat) \<Rightarrow> ('l \<times> lock_mode) list \<Rightarrow> 'l lock_act list \<Rightarrow> bool" where
  "obeys W pref rank h [] \<longleftrightarrow> h = []"
| "obeys W pref rank h (Acq m l # p) \<longleftrightarrow>
     (m = Exclusive \<longrightarrow> l \<in> W) \<and>
     list_all (\<lambda>(l', m'). \<forall>w. blocks W pref w m' l' \<longrightarrow> rank w l' < rank m l) h \<and>
     obeys W pref rank ((l, m) # h) p"
| "obeys W pref rank h (Rel l # p) \<longleftrightarrow> obeys W pref rank (release l h) p"

lemma all_lock_mode: "(\<forall>w. P w) \<longleftrightarrow> P Shared \<and> P Exclusive"
  by (metis lock_mode.exhaust)

lemma obeys_append:
  "obeys W pref rank h p \<Longrightarrow> obeys W pref rank [] q \<Longrightarrow> obeys W pref rank h (p @ q)"
  by (induction W pref rank h p rule: obeys.induct) auto

definition pool_ok :: "'l set \<Rightarrow> bool \<Rightarrow> (lock_mode \<Rightarrow> 'l \<Rightarrow> nat) \<Rightarrow> 'l lock_thread list \<Rightarrow> bool" where
  "pool_ok W pref rank ts \<longleftrightarrow>
     (\<forall>t \<in> set ts. obeys W pref rank (held t) (todo t) \<and> (queued t \<longrightarrow> (\<exists>m l p. todo t = Acq m l # p)))"

lemma thread_step_ok:
  "thread_step pref ts t = Some t' \<Longrightarrow> obeys W pref rank (held t) (todo t) \<Longrightarrow>
     queued t \<longrightarrow> (\<exists>m l p. todo t = Acq m l # p) \<Longrightarrow>
     obeys W pref rank (held t') (todo t') \<and> (queued t' \<longrightarrow> (\<exists>m l p. todo t' = Acq m l # p))"
  by (auto simp: thread_step_def split: if_splits list.splits lock_act.splits)

lemma pool_ok_step:
  assumes "pool_ok W pref rank ts" and "lock_step pref i ts = Some ts'"
  shows "pool_ok W pref rank ts'"
proof -
  obtain t' where i: "i < length ts" and ts': "ts' = ts[i := t']" and step: "thread_step pref ts (ts ! i) = Some t'"
    using assms(2) by (rule lock_stepE)
  have "obeys W pref rank (held t') (todo t') \<and> (queued t' \<longrightarrow> (\<exists>m l p. todo t' = Acq m l # p))"
    using assms(1) nth_mem [OF i] thread_step_ok [OF step] unfolding pool_ok_def by blast
  then show ?thesis
    using assms(1) ts' set_update_subset_insert [of ts i t'] unfolding pool_ok_def by blast
qed

lemma pool_ok_run: "pool_ok W pref rank ts \<Longrightarrow> pool_ok W pref rank (lock_run pref sched ts)"
  by (induction sched arbitrary: ts) (auto intro: pool_ok_step split: option.splits)

lemma obeys_blocked:
  assumes "obeys W pref rank (held t) (Acq m l # p)" and "(l', m') \<in> set (held t)" and "blocks W pref w m' l'"
  shows "rank w l' < rank m l"
  using assms by (auto simp: list_all_iff)

text \<open>A request that is refused is kept waiting by somebody who holds the lock and waits for one of higher rank.\<close>

lemma no_step_refused:
  assumes "no_step pref ts" and "t \<in> set ts" and "todo t \<noteq> []"
  obtains m l p where "todo t = Acq m l # p" "queued t" "\<not> grantable pref m l ts"
proof -
  have "thread_step pref ts t = None"
    using assms(1,2) by (auto simp: no_step_def list_all_iff lock_step_def in_set_conv_nth)
  with assms(3) that show thesis
    by (auto simp: thread_step_def split: list.splits lock_act.splits if_splits)
qed

lemma refused_by_higher:
  assumes ok: "pool_ok W pref rank ts" and none: "no_step pref ts"
    and t: "t \<in> set ts" "todo t = Acq m l # p"
  obtains t' m' l' p' where "t' \<in> set ts" "todo t' = Acq m' l' # p'" "rank m l < rank m' l'"
proof -
  note result = that
  have writes: "l \<in> W" if "u \<in> set ts" "todo u = Acq Exclusive l # q" for u q
    using ok that by (auto simp: pool_ok_def)
  have higher: thesis if u: "u \<in> set ts" "(l, m') \<in> set (held u)" "blocks W pref m m' l" for u m'
  proof -
    have obey: "obeys W pref rank (held u) (todo u)" using ok u(1) by (simp add: pool_ok_def)
    then have "todo u \<noteq> []" using u(2) by auto
    with none u(1) obtain m2 l2 p2 where todo: "todo u = Acq m2 l2 # p2" by (blast elim: no_step_refused)
    from obeys_blocked [of W pref rank u m2 l2 p2 l m' m] obey todo u have "rank m l < rank m2 l2" by simp
    with u(1) todo show thesis by (rule result)
  qed
  have held: "\<exists>u m'. u \<in> set ts \<and> (l, m') \<in> set (held u)" if "\<not> grantable pref Exclusive l ts"
    using that by (auto simp: list_all_iff)
  have refused: "\<not> grantable pref m l ts" using no_step_refused [OF none t(1)] t(2) by auto
  show thesis
  proof (cases m)
    case Exclusive
    with refused obtain u m' where u: "u \<in> set ts" "(l, m') \<in> set (held u)" using held by blast
    have "blocks W pref m m' l" using Exclusive writes [OF t(1)] t(2) by (simp add: blocks_def)
    then show thesis by (rule higher [OF u])
  next
    case Shared
    with refused consider u where "u \<in> set ts" "(l, Exclusive) \<in> set (held u)"
      | u where "u \<in> set ts" "pref" "wants_write l u"
      by (auto simp: list_all_iff)
    then show thesis
    proof cases
      case 1
      moreover have "blocks W pref m Exclusive l" by (simp add: blocks_def)
      ultimately show thesis by (rule higher)
    next
      case 2
      then obtain q where "todo u = Acq Exclusive l # q" by (auto simp: wants_write_def split: list.splits)
      then have "\<not> grantable pref Exclusive l ts" and W: "l \<in> W"
        using no_step_refused [OF none 2(1)] writes [OF 2(1)] by auto
      then obtain v m' where v: "v \<in> set ts" "(l, m') \<in> set (held v)" using held by blast
      have "blocks W pref m m' l" using W 2(2) by (simp add: blocks_def)
      then show thesis by (rule higher [OF v])
    qed
  qed
qed

lemma ordered_progress:
  assumes "pool_ok W pref rank ts" and "no_step pref ts"
  shows "all_done ts"
proof (rule ccontr)
  define wish where "wish t = (case todo t of Acq m l # _ \<Rightarrow> rank m l | _ \<Rightarrow> 0)" for t :: "'a lock_thread"
  let ?U = "{t \<in> set ts. todo t \<noteq> []}"
  assume "\<not> all_done ts"
  then have "?U \<noteq> {}" by (auto simp: all_done_def list_all_iff)
  then have "Max (wish ` ?U) \<in> wish ` ?U" by (intro Max_in) auto
  then obtain t where t: "t \<in> ?U" and eq: "Max (wish ` ?U) = wish t" by (rule imageE)
  have max: "wish u \<le> wish t" if "u \<in> ?U" for u
    unfolding eq [symmetric] using that by (intro Max_ge) simp_all
  from t obtain m l p where todo: "todo t = Acq m l # p" using no_step_refused [OF assms(2)] by blast
  obtain t' m' l' p' where "t' \<in> set ts" "todo t' = Acq m' l' # p'" "rank m l < rank m' l'"
    using refused_by_higher [OF assms _ todo] t by blast
  then show False using max [of t'] todo by (simp add: wish_def)
qed

lemma ordered_finishes:
  assumes "pool_ok W pref rank ts"
  shows "\<exists>sched. all_done (lock_run pref sched ts)"
  using assms
proof (induction "sum_list (map work ts)" arbitrary: ts rule: less_induct)
  case less
  show ?case
  proof (cases "no_step pref ts")
    case True
    with less.prems have "all_done (lock_run pref [] ts)" by (simp add: ordered_progress)
    then show ?thesis ..
  next
    case False
    then obtain i ts' where step: "lock_step pref i ts = Some ts'" by (auto simp: no_step_def list_all_iff)
    with less obtain sched where "all_done (lock_run pref sched ts')"
      using lock_step_work pool_ok_step by blast
    with step have "all_done (lock_run pref (i # sched) ts)" by simp
    then show ?thesis ..
  qed
qed

section \<open>The contract of a lock order\<close>

text \<open>The locks a thread takes that calls methods one after the other.\<close>

definition calls :: "('m \<Rightarrow> 'l lock_act list) \<Rightarrow> 'm list \<Rightarrow> 'l lock_act list" where
  "calls locks ms = concat (map locks ms)"

locale lock_order =
  fixes W :: "'l set" and pref :: bool and rank :: "lock_mode \<Rightarrow> 'l \<Rightarrow> nat"
    and methods :: "'m set" and locks :: "'m \<Rightarrow> 'l lock_act list"
  assumes ordered: "a \<in> methods \<Longrightarrow> obeys W pref rank [] (locks a)"
begin

lemma obeys_calls: "set ms \<subseteq> methods \<Longrightarrow> obeys W pref rank [] (calls locks ms)"
  by (induction ms) (auto simp: calls_def ordered intro: obeys_append)

lemma pool_ok_calls:
  assumes "set (concat mss) \<subseteq> methods"
  shows "pool_ok W pref rank (map fresh_thread (map (calls locks) mss))"
proof -
  have "obeys W pref rank [] (calls locks ms)" if "ms \<in> set mss" for ms
    using assms that by (intro obeys_calls) auto
  then show ?thesis by (simp add: pool_ok_def fresh_thread_def)
qed

lemma finishes:
  assumes "set (concat mss) \<subseteq> methods"
  shows "always_finishes pref (map (calls locks) mss)"
  using ordered_finishes [OF pool_ok_run [OF pool_ok_calls [OF assms]]]
  by (simp add: always_finishes_def lock_run_append)

end

end
