(* ===== verification/RaftLocks.thy ===== *)
theory RaftLocks
  imports Locks
begin

text \<open>
  The locks of \<open>src/src/coordinator/raft_node.rs\<close>. Every field of a \<open>RaftNode\<close> has a
  mutex of its own, and its methods take \<open>&self\<close>, so that tasks call them at the same
  time. For each method this theory has the sequence of its lock operations: a guard that
  is a temporary is released at the end of its statement, one that is bound to a variable
  at the end of its block. No guard is held while a method awaits. The branches that
  decide which locks are taken are arguments. The result is an exact account of which
  methods can block each other forever.
\<close>

section \<open>The locks of each method\<close>

datatype raft_lock = LRole | LTerm | LVotedFor | LLeaderId | LLog | LPeers | LCommitIndex | LLastApplied | LSnapshot

abbreviation mutex :: "raft_lock \<Rightarrow> raft_lock lock_act list \<Rightarrow> raft_lock lock_act list" where
  "mutex l body \<equiv> locked Exclusive l body"

definition save_snapshot_locks :: "raft_lock lock_act list" where
  "save_snapshot_locks = mutex LSnapshot []"

definition load_snapshot_locks :: "raft_lock lock_act list" where
  "load_snapshot_locks = mutex LSnapshot []"

definition recover_locks :: "raft_lock lock_act list" where
  "recover_locks = load_snapshot_locks @ mutex LLog [] @ mutex LLastApplied (mutex LCommitIndex [])"

definition apply_snapshot_locks :: "raft_lock lock_act list" where
  "apply_snapshot_locks =
     save_snapshot_locks @
     mutex LLog (mutex LCommitIndex (mutex LLastApplied (mutex LTerm [])))"

definition is_leader_locks :: "raft_lock lock_act list" where
  "is_leader_locks = mutex LRole []"

definition get_leader_locks :: "raft_lock lock_act list" where
  "get_leader_locks = mutex LLeaderId []"

definition get_term_locks :: "raft_lock lock_act list" where
  "get_term_locks = mutex LTerm []"

definition become_leader_locks :: "raft_lock lock_act list" where
  "become_leader_locks = mutex LRole [] @ mutex LLeaderId []"

definition step_down_locks :: "raft_lock lock_act list" where
  "step_down_locks = mutex LRole [] @ mutex LTerm [] @ mutex LLeaderId [] @ mutex LVotedFor []"

definition start_election_locks :: "raft_lock lock_act list" where
  "start_election_locks = mutex LTerm (mutex LRole [] @ mutex LVotedFor [] @ mutex LLeaderId [])"

definition grant_vote_locks :: "raft_lock lock_act list" where
  "grant_vote_locks = mutex LTerm (mutex LVotedFor [])"

definition send_heartbeats_locks :: "raft_lock lock_act list" where
  "send_heartbeats_locks = mutex LPeers [] @ get_term_locks @ mutex LLog []"

definition handle_request_vote_locks :: "raft_lock lock_act list" where
  "handle_request_vote_locks = mutex LTerm (mutex LVotedFor [])"

definition handle_append_entries_locks :: "bool \<Rightarrow> raft_lock lock_act list" where
  "handle_append_entries_locks success =
     mutex LTerm (mutex LLog (if success then mutex LCommitIndex [] else []))"

definition collect_votes_locks :: "bool \<Rightarrow> raft_lock lock_act list" where
  "collect_votes_locks won =
     start_election_locks @ mutex LLog [] @ (if won then become_leader_locks else step_down_locks)"

text \<open>One turn of the loop of \<open>run_election_timer\<close>.\<close>

definition election_timer_locks :: "bool \<Rightarrow> bool \<Rightarrow> raft_lock lock_act list" where
  "election_timer_locks leader won =
     is_leader_locks @ (if leader then [] else mutex LPeers [] @ collect_votes_locks won)"

definition replicate_locks :: "bool \<Rightarrow> bool \<Rightarrow> raft_lock lock_act list" where
  "replicate_locks leader committed =
     is_leader_locks @
     (if \<not> leader then get_leader_locks
      else mutex LLog get_term_locks @ mutex LPeers [] @
           (if committed then mutex LCommitIndex (mutex LLastApplied []) else []))"

text \<open>
  One turn of the loop of \<open>start_raft_tasks\<close>: whether an election is started, whether it
  is won, and whether the node leads after it.
\<close>

definition task_round_locks :: "bool \<Rightarrow> bool \<Rightarrow> bool \<Rightarrow> raft_lock lock_act list" where
  "task_round_locks election won leads =
     mutex LPeers [] @ is_leader_locks @ (if election then collect_votes_locks won else []) @
     is_leader_locks @ (if leads then send_heartbeats_locks else [])"

datatype raft_method =
    GetPeers | SaveSnapshot | LoadSnapshot | Recover | ApplySnapshot | GetLog | IsLeader | GetRole | GetLeader | GetTerm
  | BecomeLeader | StepDown | StartElection | GrantVote | SendHeartbeats | HandleRequestVote
  | HandleAppendEntries bool | CollectVotes bool | ElectionTimer bool bool | Replicate bool bool | TaskRound bool bool bool

text \<open>The guard that \<open>get_log\<close> returns is dropped by the caller at the end of its statement.\<close>

fun raft_locks :: "raft_method \<Rightarrow> raft_lock lock_act list" where
  "raft_locks GetPeers = mutex LPeers []"
| "raft_locks SaveSnapshot = save_snapshot_locks"
| "raft_locks LoadSnapshot = load_snapshot_locks"
| "raft_locks Recover = recover_locks"
| "raft_locks ApplySnapshot = apply_snapshot_locks"
| "raft_locks GetLog = mutex LLog []"
| "raft_locks IsLeader = is_leader_locks"
| "raft_locks GetRole = mutex LRole []"
| "raft_locks GetLeader = get_leader_locks"
| "raft_locks GetTerm = get_term_locks"
| "raft_locks BecomeLeader = become_leader_locks"
| "raft_locks StepDown = step_down_locks"
| "raft_locks StartElection = start_election_locks"
| "raft_locks GrantVote = grant_vote_locks"
| "raft_locks SendHeartbeats = send_heartbeats_locks"
| "raft_locks HandleRequestVote = handle_request_vote_locks"
| "raft_locks (HandleAppendEntries success) = handle_append_entries_locks success"
| "raft_locks (CollectVotes won) = collect_votes_locks won"
| "raft_locks (ElectionTimer leader won) = election_timer_locks leader won"
| "raft_locks (Replicate leader committed) = replicate_locks leader committed"
| "raft_locks (TaskRound election won leads) = task_round_locks election won leads"

lemmas lock_defs = locked_def save_snapshot_locks_def load_snapshot_locks_def
  recover_locks_def apply_snapshot_locks_def is_leader_locks_def
  get_leader_locks_def get_term_locks_def become_leader_locks_def step_down_locks_def start_election_locks_def
  grant_vote_locks_def send_heartbeats_locks_def handle_request_vote_locks_def
  handle_append_entries_locks_def collect_votes_locks_def election_timer_locks_def replicate_locks_def
  task_round_locks_def

section \<open>Orders of the locks\<close>

text \<open>
  The methods agree on no common order. \<open>handle_append_entries\<close> takes the term before the
  log, \<open>replicate\<close> and \<open>apply_snapshot\<close> the log before the term; \<open>recover\<close> takes the
  applied index before the commit index, \<open>replicate\<close> and \<open>apply_snapshot\<close> the other
  way round.
\<close>

fun takes_log_first :: "raft_method \<Rightarrow> bool" where
  "takes_log_first ApplySnapshot = True"
| "takes_log_first (Replicate leader committed) = leader"
| "takes_log_first _ = False"

fun takes_commit_first :: "raft_method \<Rightarrow> bool" where
  "takes_commit_first ApplySnapshot = True"
| "takes_commit_first (Replicate leader committed) = (leader \<and> committed)"
| "takes_commit_first _ = False"

fun inverted :: "raft_method \<Rightarrow> raft_method \<Rightarrow> bool" where
  "inverted a (HandleAppendEntries success) = takes_log_first a"
| "inverted a Recover = takes_commit_first a"
| "inverted a _ = False"

fun term_first :: "raft_lock \<Rightarrow> nat" where
  "term_first LTerm = 0"
| "term_first LLog = 1"
| "term_first LLastApplied = 1"
| "term_first _ = 2"

fun log_first :: "raft_lock \<Rightarrow> nat" where
  "log_first LLog = 0"
| "log_first LCommitIndex = 1"
| "log_first LLastApplied = 2"
| "log_first LTerm = 3"
| "log_first _ = 4"

fun applied_first :: "raft_lock \<Rightarrow> nat" where
  "applied_first LLog = 0"
| "applied_first LLastApplied = 0"
| "applied_first LTerm = 1"
| "applied_first _ = 2"

interpretation term_order: lock_order UNIV pref "\<lambda>_. term_first" "{a. \<not> takes_log_first a}" raft_locks for pref
proof (unfold_locales, unfold mem_Collect_eq)
  fix a assume "\<not> takes_log_first a"
  then show "obeys UNIV pref (\<lambda>_. term_first) [] (raft_locks a)"
    by (cases a) (simp_all add: lock_defs)
qed

interpretation log_order: lock_order UNIV pref "\<lambda>_. log_first" "{a. a \<noteq> Recover \<and> \<not> (\<exists>s. a = HandleAppendEntries s)}" raft_locks for pref
proof (unfold_locales, unfold mem_Collect_eq)
  fix a assume "a \<noteq> Recover \<and> \<not> (\<exists>s. a = HandleAppendEntries s)"
  then show "obeys UNIV pref (\<lambda>_. log_first) [] (raft_locks a)"
    by (cases a) (simp_all add: lock_defs)
qed

interpretation applied_order: lock_order UNIV pref "\<lambda>_. applied_first"
  "{a. \<not> takes_commit_first a \<and> \<not> (\<exists>s. a = HandleAppendEntries s)}" raft_locks for pref
proof (unfold_locales, unfold mem_Collect_eq)
  fix a assume "\<not> takes_commit_first a \<and> \<not> (\<exists>s. a = HandleAppendEntries s)"
  then show "obeys UNIV pref (\<lambda>_. applied_first) [] (raft_locks a)"
    by (cases a) (simp_all add: lock_defs)
qed

section \<open>Methods that block each other\<close>

lemmas run_defs = can_deadlock_def Let_def calls_def lock_defs fresh_thread_def lock_step_def thread_step_def
  no_step_def all_done_def upt_rec

text \<open>One thread runs until it holds its first lock, then the other; each then queues for what the other holds.\<close>

lemma log_term_deadlock:
  assumes "takes_log_first a"
  shows "can_deadlock pref (map (calls raft_locks) [[a], [HandleAppendEntries success]])"
proof -
  consider "a = ApplySnapshot" | c where "a = Replicate True c" using assms by (cases a) auto
  then show ?thesis
  proof cases
    case 1
    show ?thesis
      unfolding can_deadlock_def 1
      by (rule exI [of _ "replicate 9 0 @ [1, 1, 0, 1]"]) (simp add: run_defs eval_nat_numeral)
  next
    case 2
    show ?thesis
      unfolding can_deadlock_def 2
      by (rule exI [of _ "replicate 5 0 @ [1, 1, 0, 1]"]) (simp add: run_defs eval_nat_numeral)
  qed
qed

lemma commit_applied_deadlock:
  assumes "takes_commit_first a"
  shows "can_deadlock pref (map (calls raft_locks) [[a], [Recover]])"
proof -
  consider "a = ApplySnapshot" | "a = Replicate True True" using assms by (cases a) auto
  then show ?thesis
  proof cases
    case 1
    show ?thesis
      unfolding can_deadlock_def 1
      by (rule exI [of _ "replicate 6 1 @ replicate 7 0 @ [1, 1, 0, 1]"]) (simp add: run_defs eval_nat_numeral)
  next
    case 2
    show ?thesis
      unfolding can_deadlock_def 2
      by (rule exI [of _ "replicate 14 0 @ replicate 8 1 @ [0, 1]"]) (simp add: run_defs eval_nat_numeral)
  qed
qed

lemma inverted_deadlock:
  "inverted a b \<Longrightarrow> can_deadlock pref (map (calls raft_locks) [[a], [b]])"
  by (cases b) (simp_all add: log_term_deadlock commit_applied_deadlock del: list.map)

lemma not_inverted_finishes:
  assumes "\<not> (\<exists>a b. a \<in> M \<and> b \<in> M \<and> inverted a b)" and "set (concat mss) \<subseteq> M"
  shows "always_finishes pref (map (calls raft_locks) mss)"
proof -
  consider s where "HandleAppendEntries s \<in> M" | "Recover \<in> M" "\<nexists>s. HandleAppendEntries s \<in> M"
    | "Recover \<notin> M" "\<nexists>s. HandleAppendEntries s \<in> M" by blast
  then show ?thesis
  proof cases
    case 1
    then have "M \<subseteq> {a. \<not> takes_log_first a}" using assms(1) inverted.simps(1) by blast
    with assms(2) show ?thesis by (intro term_order.finishes) (rule subset_trans)
  next
    case 2
    then have "M \<subseteq> {a. \<not> takes_commit_first a \<and> \<not> (\<exists>s. a = HandleAppendEntries s)}"
      using assms(1) inverted.simps(2) by blast
    with assms(2) show ?thesis by (intro applied_order.finishes) (rule subset_trans)
  next
    case 3
    then have "M \<subseteq> {a. a \<noteq> Recover \<and> \<not> (\<exists>s. a = HandleAppendEntries s)}" by blast
    with assms(2) show ?thesis by (intro log_order.finishes) (rule subset_trans)
  qed
qed

section \<open>Properties\<close>

text \<open>
  C4. Which methods of a Raft node can block each other forever: any number of threads that
  call methods of a set \<open>M\<close> in any sequences can deadlock exactly when \<open>M\<close> holds one of
  the pairs that take two locks in opposite orders: \<open>handle_append_entries\<close> with either
  \<open>apply_snapshot\<close> or the \<open>replicate\<close> of a leader, or \<open>recover\<close> with either
  \<open>apply_snapshot\<close> or a \<open>replicate\<close> that commits. Without such a pair every schedule can
  be continued until all threads have finished.
\<close>

theorem raft_deadlock_exact:
  "((\<exists>mss. set (concat mss) \<subseteq> M \<and> can_deadlock pref (map (calls raft_locks) mss)) \<longleftrightarrow>
      (\<exists>a b. a \<in> M \<and> b \<in> M \<and> inverted a b)) \<and>
   ((\<exists>mss. set (concat mss) \<subseteq> M \<and> \<not> always_finishes pref (map (calls raft_locks) mss)) \<longleftrightarrow>
      (\<exists>a b. a \<in> M \<and> b \<in> M \<and> inverted a b))"
proof -
  have "\<exists>mss. set (concat mss) \<subseteq> M \<and> can_deadlock pref (map (calls raft_locks) mss)"
    if "a \<in> M" "b \<in> M" "inverted a b" for a b
    using that inverted_deadlock [of a b pref] by (intro exI [of _ "[[a], [b]]"]) simp
  then show ?thesis using not_inverted_finishes deadlock_never_finishes by meson
qed

end
