(* ===== verification/TableLocks.thy ===== *)
theory TableLocks
  imports Locks
begin

text \<open>
  The reader-writer locks of the two tables that every request goes through: the quota
  manager of \<open>src/src/common/quota.rs\<close> and the key store of \<open>src/src/common/auth.rs\<close>.
  Both keep two maps behind two \<open>RwLock\<close>s. The sequences of lock operations follow the
  scopes of the guards; which of them a call takes depends on the outcome of its checks,
  which is an argument. The key store takes its locks in one order and never deadlocks;
  the quota manager does not, and may deadlock where a queued writer keeps readers out.
\<close>

section \<open>The quota manager\<close>

datatype quota_lock = LQuotas | LUsage

definition check_storage_locks :: "bool \<Rightarrow> quota_lock lock_act list" where
  "check_storage_locks tenant_enabled =
     locked Shared LQuotas (if tenant_enabled then locked Shared LUsage [] else [])"

definition check_objects_locks :: "bool \<Rightarrow> quota_lock lock_act list" where
  "check_objects_locks tenant_enabled =
     locked Shared LQuotas (if tenant_enabled then locked Shared LUsage [] else [])"

definition check_and_record_request_locks :: "bool \<Rightarrow> quota_lock lock_act list" where
  "check_and_record_request_locks tenant_enabled =
     locked Shared LQuotas (if tenant_enabled then locked Exclusive LUsage [] else [])"

definition quota_to_prometheus_locks :: "quota_lock lock_act list" where
  "quota_to_prometheus_locks = locked Shared LUsage (locked Shared LQuotas [])"

datatype quota_method =
    SetQuota | GetQuota | RemoveQuota | GetUsage | ListQuotas | CheckStorage bool | CheckObjects bool | CheckRequest bool
  | RecordAdd | RecordRemove | ToPrometheus

fun quota_locks :: "quota_method \<Rightarrow> quota_lock lock_act list" where
  "quota_locks SetQuota = locked Exclusive LQuotas []"
| "quota_locks GetQuota = locked Shared LQuotas []"
| "quota_locks RemoveQuota = locked Exclusive LQuotas []"
| "quota_locks GetUsage = locked Shared LUsage []"
| "quota_locks ListQuotas = locked Shared LQuotas []"
| "quota_locks (CheckStorage e) = check_storage_locks e"
| "quota_locks (CheckObjects e) = check_objects_locks e"
| "quota_locks (CheckRequest e) = check_and_record_request_locks e"
| "quota_locks RecordAdd = locked Exclusive LUsage []"
| "quota_locks RecordRemove = locked Exclusive LUsage []"
| "quota_locks ToPrometheus = quota_to_prometheus_locks"

lemmas quota_lock_defs = locked_def
  check_storage_locks_def check_objects_locks_def
  check_and_record_request_locks_def
  quota_to_prometheus_locks_def

section \<open>The key store\<close>

datatype key_lock = LKeys | LHashToId

definition generate_key_locks :: "key_lock lock_act list" where
  "generate_key_locks = locked Exclusive LKeys [] @ locked Exclusive LHashToId []"

definition validate_key_locks :: "bool \<Rightarrow> key_lock lock_act list" where
  "validate_key_locks has_prefix = (if has_prefix then locked Shared LKeys [] else [])"

definition delete_key_locks :: "bool \<Rightarrow> key_lock lock_act list" where
  "delete_key_locks found = locked Exclusive LKeys (if found then locked Exclusive LHashToId [] else [])"

datatype key_method =
    GenerateKey | ValidateKey bool | GetKey | ListKeys | ListKeysForTenant | RevokeKey | DeleteKey bool | TouchKey

fun key_locks :: "key_method \<Rightarrow> key_lock lock_act list" where
  "key_locks GenerateKey = generate_key_locks"
| "key_locks (ValidateKey has_prefix) = validate_key_locks has_prefix"
| "key_locks GetKey = locked Shared LKeys []"
| "key_locks ListKeys = locked Shared LKeys []"
| "key_locks ListKeysForTenant = locked Shared LKeys []"
| "key_locks RevokeKey = locked Exclusive LKeys []"
| "key_locks (DeleteKey found) = delete_key_locks found"
| "key_locks TouchKey = locked Exclusive LKeys []"

lemmas key_lock_defs = locked_def generate_key_locks_def validate_key_locks_def
  delete_key_locks_def

section \<open>Orders of the locks\<close>

fun keys_first :: "key_lock \<Rightarrow> nat" where
  "keys_first LKeys = 0"
| "keys_first LHashToId = 1"

interpretation keys_order: lock_order UNIV pref "\<lambda>_. keys_first" UNIV key_locks for pref
proof unfold_locales
  fix a show "obeys UNIV pref (\<lambda>_. keys_first) [] (key_locks a)"
    by (cases a) (simp_all add: key_lock_defs)
qed

fun writers_first :: "lock_mode \<Rightarrow> quota_lock \<Rightarrow> nat" where
  "writers_first Exclusive LQuotas = 0"
| "writers_first Exclusive LUsage = 1"
| "writers_first Shared l = 2"

fun quotas_first :: "quota_lock \<Rightarrow> nat" where
  "quotas_first LQuotas = 0"
| "quotas_first LUsage = 1"

fun usage_first :: "quota_lock \<Rightarrow> nat" where
  "usage_first LUsage = 0"
| "usage_first LQuotas = 1"

text \<open>Readers that no writer keeps out are never refused for long.\<close>

interpretation readers_pass: lock_order UNIV False writers_first UNIV quota_locks
proof unfold_locales
  fix a show "obeys UNIV False writers_first [] (quota_locks a)"
    by (cases a) (simp_all add: quota_lock_defs all_lock_mode blocks_def)
qed

interpretation no_export: lock_order UNIV pref "\<lambda>_. quotas_first" "{a. a \<noteq> ToPrometheus}" quota_locks for pref
proof (unfold_locales, unfold mem_Collect_eq)
  fix a assume "a \<noteq> ToPrometheus"
  then show "obeys UNIV pref (\<lambda>_. quotas_first) [] (quota_locks a)"
    by (cases a) (simp_all add: quota_lock_defs)
qed

interpretation no_nesting: lock_order UNIV pref "\<lambda>_. usage_first"
  "{a. a \<noteq> CheckStorage True \<and> a \<noteq> CheckObjects True \<and> a \<noteq> CheckRequest True}" quota_locks for pref
proof (unfold_locales, unfold mem_Collect_eq)
  fix a assume "a \<noteq> CheckStorage True \<and> a \<noteq> CheckObjects True \<and> a \<noteq> CheckRequest True"
  then show "obeys UNIV pref (\<lambda>_. usage_first) [] (quota_locks a)"
    by (cases a) (auto simp: quota_lock_defs)
qed

interpretation fixed_quotas: lock_order "{LUsage}" pref "\<lambda>_. usage_first" "{a. a \<noteq> SetQuota \<and> a \<noteq> RemoveQuota}" quota_locks for pref
proof (unfold_locales, unfold mem_Collect_eq)
  fix a assume "a \<noteq> SetQuota \<and> a \<noteq> RemoveQuota"
  then show "obeys {LUsage} pref (\<lambda>_. usage_first) [] (quota_locks a)"
    by (cases a) (simp_all add: quota_lock_defs blocks_def)
qed

interpretation fixed_usage: lock_order "{LQuotas}" pref "\<lambda>_. quotas_first"
  "{a. a \<noteq> RecordAdd \<and> a \<noteq> RecordRemove \<and> a \<noteq> CheckRequest True}" quota_locks for pref
proof (unfold_locales, unfold mem_Collect_eq)
  fix a assume "a \<noteq> RecordAdd \<and> a \<noteq> RecordRemove \<and> a \<noteq> CheckRequest True"
  then show "obeys {LQuotas} pref (\<lambda>_. quotas_first) [] (quota_locks a)"
    by (cases a) (auto simp: quota_lock_defs blocks_def)
qed

section \<open>Threads that block each other\<close>

text \<open>
  An export of the statistics holds the usage and wants the quotas; a check holds the
  quotas and wants the usage; the queue of each lock is headed by a writer.
\<close>

definition quota_cycle :: "quota_method set \<Rightarrow> bool" where
  "quota_cycle M \<longleftrightarrow>
     ToPrometheus \<in> M \<and> (SetQuota \<in> M \<or> RemoveQuota \<in> M) \<and>
     (CheckRequest True \<in> M \<or>
      (CheckStorage True \<in> M \<or> CheckObjects True \<in> M) \<and> (RecordAdd \<in> M \<or> RecordRemove \<in> M))"

lemmas quota_run_defs = can_deadlock_def Let_def calls_def quota_lock_defs fresh_thread_def lock_step_def
  thread_step_def no_step_def all_done_def wants_write_def upt_rec eval_nat_numeral

lemma request_deadlock:
  assumes "s = SetQuota \<or> s = RemoveQuota"
  shows "can_deadlock True (map (calls quota_locks) [[ToPrometheus], [CheckRequest True], [s]])"
  unfolding can_deadlock_def
  by (rule exI [of _ "[0, 0, 1, 1, 2, 0, 1]"], rule disjE [OF assms]) (simp_all add: quota_run_defs)

lemma storage_deadlock:
  assumes "s = SetQuota \<or> s = RemoveQuota" and "c = CheckStorage True \<or> c = CheckObjects True"
    and "r = RecordAdd \<or> r = RecordRemove"
  shows "can_deadlock True (map (calls quota_locks) [[ToPrometheus], [c], [s], [r]])"
  unfolding can_deadlock_def
  by (rule exI [of _ "[0, 0, 1, 1, 2, 3, 0, 1]"], rule disjE [OF assms(1)]; rule disjE [OF assms(2)];
      rule disjE [OF assms(3)]; simp add: quota_run_defs)

lemma quota_cycle_deadlock:
  assumes "quota_cycle M"
  shows "\<exists>mss. set (concat mss) \<subseteq> M \<and> can_deadlock True (map (calls quota_locks) mss)"
proof -
  obtain s where s: "s \<in> M" "s = SetQuota \<or> s = RemoveQuota" and p: "ToPrometheus \<in> M"
    using assms by (auto simp: quota_cycle_def)
  from assms consider "CheckRequest True \<in> M"
    | c r where "c \<in> M" "c = CheckStorage True \<or> c = CheckObjects True" "r \<in> M" "r = RecordAdd \<or> r = RecordRemove"
    unfolding quota_cycle_def by blast
  then show ?thesis
  proof cases
    case 1
    with s p show ?thesis
      by (intro exI [of _ "[[ToPrometheus], [CheckRequest True], [s]]"] conjI request_deadlock) simp_all
  next
    case 2
    with s p show ?thesis
      by (intro exI [of _ "[[ToPrometheus], [c], [s], [r]]"] conjI storage_deadlock) simp_all
  qed
qed

lemma quota_finishes:
  assumes "\<not> (pref \<and> quota_cycle M)" and "set (concat mss) \<subseteq> M"
  shows "always_finishes pref (map (calls quota_locks) mss)"
proof -
  consider "\<not> pref" | "ToPrometheus \<notin> M" | "SetQuota \<notin> M" "RemoveQuota \<notin> M"
    | "CheckRequest True \<notin> M" "CheckStorage True \<notin> M" "CheckObjects True \<notin> M"
    | "CheckRequest True \<notin> M" "RecordAdd \<notin> M" "RecordRemove \<notin> M"
    using assms(1) unfolding quota_cycle_def by blast
  then show ?thesis
  proof cases
    case 1
    then show ?thesis by (simp add: readers_pass.finishes)
  next
    case 2
    with assms(2) show ?thesis by (intro no_export.finishes) blast
  next
    case 3
    with assms(2) show ?thesis by (intro fixed_quotas.finishes) blast
  next
    case 4
    with assms(2) show ?thesis by (intro no_nesting.finishes) blast
  next
    case 5
    with assms(2) show ?thesis by (intro fixed_usage.finishes) blast
  qed
qed

section \<open>Properties\<close>

text \<open>
  C9. When the quota manager deadlocks: any number of threads that call methods of a set
  \<open>M\<close> in any sequences can block each other forever exactly when queued writers keep
  readers out and \<open>M\<close> holds the export of the statistics, a change of the quotas, and
  either the check of a request or a check of storage or objects together with a record of
  usage. In every other case each schedule can be continued until all threads have finished.
\<close>

theorem quota_deadlock_exact:
  "((\<exists>mss. set (concat mss) \<subseteq> M \<and> can_deadlock pref (map (calls quota_locks) mss)) \<longleftrightarrow> pref \<and> quota_cycle M) \<and>
   ((\<exists>mss. set (concat mss) \<subseteq> M \<and> \<not> always_finishes pref (map (calls quota_locks) mss)) \<longleftrightarrow> pref \<and> quota_cycle M)"
proof -
  have "\<exists>mss. set (concat mss) \<subseteq> M \<and> can_deadlock pref (map (calls quota_locks) mss)" if "pref \<and> quota_cycle M"
    using that quota_cycle_deadlock [of M] by simp
  then show ?thesis using quota_finishes [of pref M] deadlock_never_finishes by meson
qed

text \<open>
  The key store never deadlocks: whatever methods any number of threads call, and whether
  or not queued writers keep readers out, every schedule can be continued until all
  threads have finished.
\<close>

theorem key_store_finishes: "always_finishes pref (map (calls key_locks) mss)"
  by (rule keys_order.finishes) simp

end
