(* ===== verification/Config.thy ===== *)
theory Config
  imports Wal
begin

text \<open>
  \<open>src/src/common/config.rs\<close> and the merge of command line and file in
  \<open>src/src/bin/coord.rs\<close>. Reading configuration sources is a call of the crate \<open>config\<close>,
  whose result is an argument, and the JSON text of a configuration is a parameter.
  Durations are nanoseconds. A \<open>PathBuf\<close> is its text; two paths are equal when their
  components are.
\<close>

section \<open>Addresses and paths\<close>

datatype socket_addr =
    SocketAddrV4 (v4_ip: "byte \<times> byte \<times> byte \<times> byte") (v4_port: "16 word")
  | SocketAddrV6 (v6_ip: "16 word list") (v6_port: "16 word") (v6_flowinfo: u32) (v6_scope_id: u32)

text \<open>\<open>"0.0.0.0:<port>".parse().unwrap()\<close>\<close>

definition any_addr :: "16 word \<Rightarrow> socket_addr" where
  "any_addr port = SocketAddrV4 (0, 0, 0, 0) port"

fun split_slash :: "string \<Rightarrow> string \<Rightarrow> string list" where
  "split_slash [] acc = [acc]"
| "split_slash (c # cs) acc = (if c = CHR ''/'' then acc # split_slash cs [] else split_slash cs (acc @ [c]))"

text \<open>\<open>Path::components\<close>: repeated and trailing separators are dropped, and \<open>.\<close> except at the front.\<close>

definition path_components :: "string \<Rightarrow> string list" where
  "path_components s =
     (let parts = split_slash s [];
          keep = filter (\<lambda>p. p \<noteq> [] \<and> p \<noteq> ''.'') parts
      in if hd parts = [] \<and> s \<noteq> [] then ''/'' # keep
         else if hd parts = ''.'' then ''.'' # keep
         else keep)"

definition path_eq :: "string \<Rightarrow> string \<Rightarrow> bool" where
  "path_eq a b \<longleftrightarrow> path_components a = path_components b"

section \<open>The records and their defaults\<close>

datatype node_role = CoordinatorRole | VolumeRole

definition default_log_level :: string where "default_log_level = ''info''"
definition default_replicas :: nat where "default_replicas = 3"
definition default_election_timeout :: u64 where "default_election_timeout = 300"
definition default_heartbeat_interval :: u64 where "default_heartbeat_interval = 50"
definition default_snapshot_threshold :: u64 where "default_snapshot_threshold = 10000"
definition default_num_shards :: u64 where "default_num_shards = 256"

record coordinator_config =
  cc_bind_addr :: socket_addr
  cc_grpc_addr :: socket_addr
  cc_db_path :: string
  cc_peers :: "string list"
  cc_replicas :: nat
  cc_election_timeout_ms :: u64
  cc_heartbeat_interval_ms :: u64
  cc_snapshot_threshold :: u64
  cc_num_shards :: u64
  cc_tls_cert_path :: "string option"
  cc_tls_key_path :: "string option"

definition coordinator_config_default :: coordinator_config where
  "coordinator_config_default =
     \<lparr>cc_bind_addr = any_addr 5000, cc_grpc_addr = any_addr 5001, cc_db_path = ''./coord-data'', cc_peers = [],
      cc_replicas = default_replicas, cc_election_timeout_ms = default_election_timeout,
      cc_heartbeat_interval_ms = default_heartbeat_interval, cc_snapshot_threshold = default_snapshot_threshold,
      cc_num_shards = default_num_shards, cc_tls_cert_path = None, cc_tls_key_path = None\<rparr>"

definition default_max_blob_size :: u64 where "default_max_blob_size = 1024 * 1024 * 1024"
definition default_compaction_interval :: u64 where "default_compaction_interval = 300"
definition default_compaction_threshold :: nat where "default_compaction_threshold = 10"
definition default_volume_heartbeat :: u64 where "default_volume_heartbeat = 10"
definition default_true :: bool where "default_true = True"

record volume_config =
  vc_bind_addr :: socket_addr
  vc_grpc_addr :: socket_addr
  vc_data_path :: string
  vc_wal_path :: string
  vc_coordinators :: "string list"
  vc_max_blob_size :: u64
  vc_compaction_interval_secs :: u64
  vc_compaction_threshold :: nat
  vc_heartbeat_interval_secs :: u64
  vc_enable_bloom :: bool
  vc_enable_snapshots :: bool
  vc_wal_sync :: wal_sync_policy

definition volume_config_default :: volume_config where
  "volume_config_default =
     \<lparr>vc_bind_addr = any_addr 6000, vc_grpc_addr = any_addr 6001, vc_data_path = ''./vol-data'',
      vc_wal_path = ''./vol-wal'', vc_coordinators = [''http://localhost:5000''],
      vc_max_blob_size = default_max_blob_size, vc_compaction_interval_secs = default_compaction_interval,
      vc_compaction_threshold = default_compaction_threshold,
      vc_heartbeat_interval_secs = default_volume_heartbeat, vc_enable_bloom = True, vc_enable_snapshots = True,
      vc_wal_sync = Always\<rparr>"

record runtime_config =
  rt_request_timeout :: nat
  rt_connect_timeout :: nat
  rt_max_concurrent_requests :: nat
  rt_max_retries :: nat
  rt_retry_delay :: nat

definition runtime_config_default :: runtime_config where
  "runtime_config_default =
     \<lparr>rt_request_timeout = 30 * 1000000000, rt_connect_timeout = 5 * 1000000000,
      rt_max_concurrent_requests = 1000, rt_max_retries = 3, rt_retry_delay = 100 * 1000000\<rparr>"

record config =
  cfg_node_id :: string
  cfg_role :: node_role
  cfg_coordinator :: "coordinator_config option"
  cfg_volume :: "volume_config option"
  cfg_log_level :: string

section \<open>Files and validation\<close>

text \<open>
  \<open>from_json\<close> and \<open>to_json\<close> are \<open>serde_json\<close>, with the text of the error on the left. A file is
  \<open>None\<close> when it cannot be read; \<open>read_to_string\<close> refuses bytes that are not UTF-8.
\<close>

definition from_file :: "(string \<Rightarrow> string + config) \<Rightarrow> io_error + bytes \<Rightarrow> config result" where
  "from_file from_json file =
     rbind (map_err Io file) (\<lambda>content.
     rbind (case from_utf8 content of None \<Rightarrow> Inl (Io (OtherIo ''stream did not contain valid UTF-8'')) | Some s \<Rightarrow> Inr s) (\<lambda>s.
     map_err (\<lambda>e. Other (''Failed to parse config: '' @ e)) (from_json s)))"

definition to_file :: "(config \<Rightarrow> string + string) \<Rightarrow> (bytes \<Rightarrow> io_error + unit) \<Rightarrow> config \<Rightarrow> unit result" where
  "to_file to_json write_file c =
     rbind (map_err (\<lambda>e. Other (''Failed to serialize config: '' @ e)) (to_json c)) (\<lambda>content.
     map_err Io (write_file (as_bytes content)))"

definition config_validate :: "config \<Rightarrow> unit result" where
  "config_validate c =
     (if cfg_node_id c = [] then Inl (InvalidConfig ''node_id is required'')
      else case cfg_role c of
        CoordinatorRole \<Rightarrow>
          if cfg_coordinator c = None then Inl (InvalidConfig ''coordinator config required'') else Inr ()
      | VolumeRole \<Rightarrow>
          if cfg_volume c = None then Inl (InvalidConfig ''volume config required'') else Inr ())"

section \<open>Starting a coordinator\<close>

record serve_args =
  sa_id :: string
  sa_bind :: socket_addr
  sa_grpc :: socket_addr
  sa_db :: string
  sa_peers :: "string list"
  sa_replicas :: nat

text \<open>What the command line gives when only the required argument is present.\<close>

definition serve_args_default :: "string \<Rightarrow> serve_args" where
  "serve_args_default nid =
     \<lparr>sa_id = nid, sa_bind = any_addr 5000, sa_grpc = any_addr 5001, sa_db = ''./coord-data'', sa_peers = [], sa_replicas = 3\<rparr>"

definition cli_config :: "serve_args \<Rightarrow> coordinator_config" where
  "cli_config a =
     coordinator_config_default\<lparr>cc_bind_addr := sa_bind a, cc_grpc_addr := sa_grpc a, cc_db_path := sa_db a,
       cc_peers := sa_peers a, cc_replicas := sa_replicas a\<rparr>"

definition merge_file_config :: "coordinator_config \<Rightarrow> coordinator_config \<Rightarrow> coordinator_config" where
  "merge_file_config file_conf c =
     (let c = (if cc_bind_addr file_conf \<noteq> any_addr 5000 then c\<lparr>cc_bind_addr := cc_bind_addr file_conf\<rparr> else c);
          c = (if cc_grpc_addr file_conf \<noteq> any_addr 5001 then c\<lparr>cc_grpc_addr := cc_grpc_addr file_conf\<rparr> else c);
          c = (if \<not> path_eq (cc_db_path file_conf) ''./coord-data'' then c\<lparr>cc_db_path := cc_db_path file_conf\<rparr> else c);
          c = (if cc_peers file_conf \<noteq> [] then c\<lparr>cc_peers := cc_peers file_conf\<rparr> else c);
          c = (if cc_replicas file_conf \<noteq> 3 then c\<lparr>cc_replicas := cc_replicas file_conf\<rparr> else c)
      in c)"

definition serve_config :: "serve_args \<Rightarrow> config \<Rightarrow> coordinator_config" where
  "serve_config a loaded =
     (case cfg_coordinator loaded of
        None \<Rightarrow> cli_config a
      | Some file_conf \<Rightarrow> merge_file_config file_conf (cli_config a))"

section \<open>Properties\<close>

lemma path_components_trailing: "path_components ''./coord-data//'' = path_components ''./coord-data''"
  by (simp add: path_components_def)

lemmas default_config_defs = coordinator_config_default_def default_replicas_def default_election_timeout_def
  default_heartbeat_interval_def default_snapshot_threshold_def default_num_shards_def

lemma serve_config_unset:
  "cc_tls_cert_path (serve_config a loaded) = None" "cc_tls_key_path (serve_config a loaded) = None"
  "cc_num_shards (serve_config a loaded) = 256"
  by (simp_all add: serve_config_def merge_file_config_def cli_config_def default_config_defs Let_def split: option.split)

text \<open>
  Which configuration a coordinator starts with: of the file only the two addresses,
  the directory, the peers and the replication factor are used, each exactly when it
  differs from the built-in default, and then it replaces the value of the command line.
  The certificate paths, the number of shards and the Raft timing are the built-in
  defaults whatever the file says.
\<close>

theorem serve_config_outcome:
  assumes "c = serve_config a loaded"
  shows "(cfg_coordinator loaded = None \<longrightarrow> c = cli_config a) \<and>
    (\<forall>f. cfg_coordinator loaded = Some f \<longrightarrow> c = (cli_config a)
       \<lparr>cc_bind_addr := if cc_bind_addr f = any_addr 5000 then sa_bind a else cc_bind_addr f,
        cc_grpc_addr := if cc_grpc_addr f = any_addr 5001 then sa_grpc a else cc_grpc_addr f,
        cc_db_path := if path_eq (cc_db_path f) ''./coord-data'' then sa_db a else cc_db_path f,
        cc_peers := if cc_peers f = [] then sa_peers a else cc_peers f,
        cc_replicas := if cc_replicas f = 3 then sa_replicas a else cc_replicas f\<rparr>) \<and>
    cc_tls_cert_path c = None \<and> cc_tls_key_path c = None \<and> cc_num_shards c = 256 \<and>
    cc_election_timeout_ms c = 300 \<and> cc_heartbeat_interval_ms c = 50 \<and> cc_snapshot_threshold c = 10000"
  unfolding assms
  by (simp add: serve_config_def merge_file_config_def cli_config_def default_config_defs Let_def split: option.split)

text \<open>A file that names its own replication factor and certificate, against a command line that asks for five replicas.\<close>

definition demo_file :: config where
  "demo_file = \<lparr>cfg_node_id = ''c1'', cfg_role = CoordinatorRole,
     cfg_coordinator = Some (coordinator_config_default\<lparr>cc_db_path := ''./coord-data//'', cc_replicas := 1,
       cc_tls_cert_path := Some ''cert.pem'', cc_tls_key_path := Some ''key.pem''\<rparr>),
     cfg_volume = None, cfg_log_level = default_log_level\<rparr>"

theorem serve_config_outcome_witness:
  "serve_config ((serve_args_default ''c1'')\<lparr>sa_replicas := 5, sa_db := ''/db''\<rparr>) demo_file =
     coordinator_config_default\<lparr>cc_replicas := 1, cc_db_path := ''/db''\<rparr>"
proof -
  let ?a = "(serve_args_default ''c1'')\<lparr>sa_replicas := 5, sa_db := ''/db''\<rparr>"
  have "path_eq ''./coord-data//'' ''./coord-data''" by (simp add: path_eq_def path_components_trailing)
  then show ?thesis
    using conjunct1 [OF conjunct2 [OF serve_config_outcome [where a = ?a and loaded = demo_file, OF refl]]]
    by (simp add: demo_file_def serve_args_default_def cli_config_def coordinator_config_default_def)
qed

text \<open>
  Validation accepts a configuration exactly when it has a node id and the section of
  its role, and every refusal is an \<open>InvalidConfig\<close> error, which HTTP reports as a bad
  request and a retry does not repeat.
\<close>

theorem config_validate_exact:
  "(config_validate c = Inr () \<longleftrightarrow> cfg_node_id c \<noteq> [] \<and>
      (case cfg_role c of CoordinatorRole \<Rightarrow> cfg_coordinator c \<noteq> None | VolumeRole \<Rightarrow> cfg_volume c \<noteq> None)) \<and>
   (case config_validate c of Inl e \<Rightarrow> (\<exists>m. e = InvalidConfig m) \<and> to_http_status e = 400 \<and> \<not> is_retryable e | Inr _ \<Rightarrow> True)"
  by (auto simp: config_validate_def split: node_role.split)

end
