(* ===== verification/RaftTimer.thy ===== *)
theory RaftTimer
  imports Raft
begin

text \<open>
  The background tasks of \<open>src/src/coordinator/raft_node.rs\<close>: \<open>start_raft_tasks\<close>, which runs
  elections and heartbeats, \<open>send_heartbeats\<close>, \<open>run_election_timer\<close> and
  \<open>detect_partition\<close>. One round of a loop is a function; the clock, the random number and
  the network of the round are its argument. Times are nanoseconds. Handlers of the node
  may run between rounds.
\<close>

section \<open>The task\<close>

definition detect_partition :: "nat \<Rightarrow> nat \<Rightarrow> nat \<Rightarrow> bool" where
  "detect_partition now last_heartbeat timeout \<longleftrightarrow> now - last_heartbeat > timeout"

definition send_heartbeats :: "raft_node \<Rightarrow> (string \<times> append_request) list" where
  "send_heartbeats n = map (\<lambda>p. (p, heartbeat_request n)) (peers n)"

text \<open>A round of \<open>run_election_timer\<close> after its sleep.\<close>

definition election_timer_round :: "(string \<Rightarrow> vote_request \<Rightarrow> vote_response option) \<Rightarrow> raft_node \<Rightarrow> raft_node" where
  "election_timer_round rpc n =
     (if \<not> is_leader n then snd (start_election_and_collect_votes rpc (peers n) n) else n)"

definition random_timeout :: "u64 \<Rightarrow> nat" where
  "random_timeout r = unat (150 + r mod 150) * 1000000"

record raft_task =
  rk_node :: raft_node
  rk_last_heartbeat :: nat
  rk_election_timeout :: nat

text \<open>
  The moments of a round: when the timer is compared, after an election, after the
  heartbeats; and the random number and the network it uses.
\<close>

record raft_round =
  rd_now :: nat
  rd_elected :: nat
  rd_beaten :: nat
  rd_random :: u64
  rd_rpc :: "string \<Rightarrow> vote_request \<Rightarrow> vote_response option"

definition start_raft_tasks :: "nat \<Rightarrow> u64 \<Rightarrow> raft_node \<Rightarrow> raft_task" where
  "start_raft_tasks now r n = \<lparr>rk_node = n, rk_last_heartbeat = now, rk_election_timeout = random_timeout r\<rparr>"

definition raft_tick :: "raft_round \<Rightarrow> raft_task \<Rightarrow> (string \<times> append_request) list \<times> raft_task" where
  "raft_tick d k =
     (let ps = peers (rk_node k);
          k = (if \<not> is_leader (rk_node k) \<and> rd_now d - rk_last_heartbeat k > rk_election_timeout k
               then k\<lparr>rk_node := snd (start_election_and_collect_votes (rd_rpc d) ps (rk_node k)),
                      rk_election_timeout := random_timeout (rd_random d),
                      rk_last_heartbeat := rd_elected d\<rparr>
               else k)
      in if is_leader (rk_node k)
         then (send_heartbeats (rk_node k), k\<lparr>rk_last_heartbeat := rd_beaten d\<rparr>)
         else ([], k))"

section \<open>Facts about a round\<close>

lemma random_timeout_bounds: "150 * 1000000 \<le> random_timeout r \<and> random_timeout r < 300 * 1000000"
proof -
  have m: "unat (r mod 150) < 150" using unat_mod [of r 150] by (simp add: unat_mod)
  then have "unat (150 + r mod 150) = 150 + unat (r mod 150)"
    by (subst unat_add_lem [THEN iffD1]) simp_all
  then show ?thesis using m by (simp add: random_timeout_def)
qed

lemma election_term:
  "current_term (snd (start_election_and_collect_votes rpc ps n)) = current_term n + 1"
  by (simp add: start_election_and_collect_votes_def start_election_def finish_election_def become_leader_def
      step_down_def Let_def)

lemma election_alone:
  "start_election_and_collect_votes rpc [] n =
     (True, n\<lparr>current_term := current_term n + 1, role := Leader, voted_for := Some (node_id n), leader_id := Some (node_id n)\<rparr>)"
  by (simp add: start_election_and_collect_votes_def start_election_def finish_election_def become_leader_def
      majority_def Let_def)

text \<open>The messages a node receives.\<close>

inductive received :: "raft_node \<Rightarrow> raft_node \<Rightarrow> bool" where
  received_none: "received n n"
| received_append: "received n n' \<Longrightarrow> handle_append_entries req n' = (r, n'') \<Longrightarrow> received n n''"
| received_vote: "received n n' \<Longrightarrow> handle_request_vote vreq n' = (v, n'') \<Longrightarrow> received n n''"

lemma received_keeps: "received n n' \<Longrightarrow> role n' = role n \<and> peers n' = peers n \<and> node_id n' = node_id n"
  by (induction rule: received.induct)
    (auto simp: handle_append_entries_def handle_request_vote_def Let_def split: if_splits)

section \<open>Properties\<close>

text \<open>
  C20. Heartbeats do not keep a follower from starting elections: whatever messages a node
  that is not a leader has received since the last round, the next round that finds its
  own timer expired starts an election in a new term. The timer is only set by the node's
  own elections and heartbeats, so this happens within 300 milliseconds of the last one.
\<close>

theorem heartbeats_do_not_stop_elections:
  assumes "\<not> is_leader (rk_node k)" and "received (rk_node k) n"
    and "rd_now d > rk_last_heartbeat k + rk_election_timeout k"
    and "(msgs, k') = raft_tick d (k\<lparr>rk_node := n\<rparr>)"
  shows "current_term (rk_node k') = current_term n + 1 \<and>
    rk_node k' = snd (start_election_and_collect_votes (rd_rpc d) (peers n) n) \<and>
    rk_last_heartbeat k' \<in> {rd_elected d, rd_beaten d} \<and> rk_election_timeout k' < 300 * 1000000"
proof -
  have "\<not> is_leader n" using assms(1) received_keeps [OF assms(2)] by (simp add: is_leader_def)
  moreover have "rd_now d - rk_last_heartbeat k > rk_election_timeout k" using assms(3) by linarith
  ultimately show ?thesis
    using assms(4) random_timeout_bounds [of "rd_random d"]
    by (auto simp: raft_tick_def Let_def election_term split: if_splits)
qed

definition demo_round :: raft_round where
  "demo_round = \<lparr>rd_now = 400000000, rd_elected = 400000001, rd_beaten = 400000002, rd_random = 7, rd_rpc = (\<lambda>p req. None)\<rparr>"

text \<open>A follower with two peers that has just accepted a heartbeat of its leader.\<close>

definition demo_follower :: raft_node where
  "demo_follower = (raft_new ''b'')\<lparr>peers := [''a'', ''c''], current_term := 4\<rparr>"

definition demo_beat :: append_request where
  "demo_beat = heartbeat_request ((raft_new ''a'')\<lparr>role := Leader, current_term := 4\<rparr>)"

theorem heartbeats_do_not_stop_elections_witness:
  "ar_success (fst (handle_append_entries demo_beat demo_follower)) \<and>
   current_term (rk_node (snd (raft_tick demo_round ((start_raft_tasks 0 0 demo_follower)
      \<lparr>rk_node := snd (handle_append_entries demo_beat demo_follower)\<rparr>)))) = 5"
proof -
  let ?k = "start_raft_tasks 0 0 demo_follower"
  let ?n = "snd (handle_append_entries demo_beat demo_follower)"
  have k: "rk_node ?k = demo_follower" "rk_last_heartbeat ?k = 0" "rk_election_timeout ?k = 150000000"
    by (simp_all add: start_raft_tasks_def random_timeout_def)
  have "received demo_follower ?n"
    by (rule received_append [OF received_none, where req = demo_beat and r = "fst (handle_append_entries demo_beat demo_follower)"]) simp
  moreover have "handle_append_entries demo_beat demo_follower = (\<lparr>ar_term = 4, ar_success = True, ar_conflict_index = 0\<rparr>, demo_follower)"
    by (simp add: demo_beat_def demo_follower_def heartbeat_request_def handle_append_entries_def raft_new_def last_index_def Let_def)
  moreover have "rd_now demo_round = 400000000" "\<not> is_leader demo_follower" "current_term demo_follower = 4"
    by (simp_all add: demo_round_def demo_follower_def raft_new_def is_leader_def)
  ultimately show ?thesis
    using heartbeats_do_not_stop_elections [of ?k ?n demo_round "fst (raft_tick demo_round (?k\<lparr>rk_node := ?n\<rparr>))"
        "snd (raft_tick demo_round (?k\<lparr>rk_node := ?n\<rparr>))"] k
    by (simp add: election_term)
qed

end
