(* ===== verification/Storage.thy ===== *)
theory Storage
  imports Prelude
begin

text \<open>
  \<open>src/src/common/storage.rs\<close>: the trait \<open>KVStore\<close> as the locale \<open>kv_store\<close>, the
  in-memory backend and the global storage the HTTP handlers use. The backends for
  RocksDB and Sled are in \<open>DbStorage\<close>.
\<close>

section \<open>The contract of a backend\<close>

datatype kv_write = WPut string bytes | WDelete string

fun write_key :: "kv_write \<Rightarrow> string" where
  "write_key (WPut k v) = k"
| "write_key (WDelete k) = k"

fun write_value :: "kv_write \<Rightarrow> bytes option" where
  "write_value (WPut k v) = Some v"
| "write_value (WDelete k) = None"

text \<open>What a key holds after a sequence of writes: the effect of the last one to it.\<close>

definition last_write :: "string \<Rightarrow> kv_write list \<Rightarrow> bytes option \<Rightarrow> bytes option" where
  "last_write k ws old = (case filter (\<lambda>w. write_key w = k) ws of [] \<Rightarrow> old | us \<Rightarrow> write_value (last us))"

locale kv_store =
  fixes get :: "'s \<Rightarrow> string \<Rightarrow> bytes option"
    and put :: "string \<Rightarrow> bytes \<Rightarrow> 's \<Rightarrow> 's"
    and delete :: "string \<Rightarrow> 's \<Rightarrow> 's"
  assumes get_put: "get (put k v s) k' = (if k' = k then Some v else get s k')"
    and get_delete: "get (delete k s) k' = (if k' = k then None else get s k')"
begin

primrec write_op :: "kv_write \<Rightarrow> 's \<Rightarrow> 's" where
  "write_op (WPut k v) s = put k v s"
| "write_op (WDelete k) s = delete k s"

lemma get_write: "get (write_op w s) k = (if k = write_key w then write_value w else get s k)"
  by (cases w) (simp_all add: get_put get_delete)

lemma get_writes: "get (fold write_op ws s) k = last_write k ws (get s k)"
  by (induction ws arbitrary: s) (auto simp: last_write_def get_write split: list.splits)

end

section \<open>The in-memory store\<close>

record mem_store =
  mem_map :: "(string, bytes) hashmap"

definition mem_new :: mem_store where
  "mem_new = \<lparr>mem_map = []\<rparr>"

definition mem_get :: "mem_store \<Rightarrow> string \<Rightarrow> bytes option" where
  "mem_get s key = hm_get (mem_map s) key"

definition mem_put :: "string \<Rightarrow> bytes \<Rightarrow> mem_store \<Rightarrow> mem_store" where
  "mem_put key v s = s\<lparr>mem_map := hm_insert key v (mem_map s)\<rparr>"

definition mem_delete :: "string \<Rightarrow> mem_store \<Rightarrow> mem_store" where
  "mem_delete key s = s\<lparr>mem_map := hm_remove key (mem_map s)\<rparr>"

section \<open>The global storage\<close>

record storage =
  backend :: mem_store

definition new_memory :: storage where
  "new_memory = \<lparr>backend = mem_new\<rparr>"

definition storage_get :: "storage \<Rightarrow> string \<Rightarrow> bytes option" where
  "storage_get s key = mem_get (backend s) key"

definition storage_put :: "string \<Rightarrow> bytes \<Rightarrow> storage \<Rightarrow> storage" where
  "storage_put key v s = s\<lparr>backend := mem_put key v (backend s)\<rparr>"

definition storage_delete :: "string \<Rightarrow> storage \<Rightarrow> storage" where
  "storage_delete key s = s\<lparr>backend := mem_delete key (backend s)\<rparr>"

interpretation mem: kv_store mem_get mem_put mem_delete
  by unfold_locales (simp_all add: mem_get_def mem_put_def mem_delete_def)

interpretation global: kv_store storage_get storage_put storage_delete
  by unfold_locales (simp_all add: storage_get_def storage_put_def storage_delete_def mem.get_put mem.get_delete)

end
