(* ===== verification/Hash.thy ===== *)
theory Hash
  imports Errors "HOL-Library.Multiset"
begin

text \<open>
  \<open>src/src/common/hash.rs\<close>: sharding of keys, ranking of nodes by highest random weight
  and the shard table. The digest of the crate \<open>blake3\<close> is the parameter \<open>digest\<close>;
  it is 32 bytes long (\<open>digest_ok\<close>). \<open>None\<close> is the panic of a remainder by zero.
  The locale \<open>node_ranking\<close> states what placement needs of a ranking, a permutation
  that commutes with leaving nodes out, and derives how a selection reacts to changes of
  the cluster; highest random weight hashing is an instance.
\<close>

section \<open>The model\<close>

definition digest_ok :: "(bytes \<Rightarrow> bytes) \<Rightarrow> bool" where
  "digest_ok digest \<longleftrightarrow> (\<forall>d. length (digest d) = 32)"

definition hash_u64 :: "(bytes \<Rightarrow> bytes) \<Rightarrow> bytes \<Rightarrow> u64" where
  "hash_u64 digest d = u64_from_le (take 8 (digest d))"

definition shard_key :: "(bytes \<Rightarrow> bytes) \<Rightarrow> string \<Rightarrow> u64 \<Rightarrow> u64 option" where
  "shard_key digest key num = (if num = 0 then None else Some (hash_u64 digest (as_bytes key) mod num))"

definition hrw_weight :: "(bytes \<Rightarrow> bytes) \<Rightarrow> string \<Rightarrow> string \<Rightarrow> u64" where
  "hrw_weight digest key node = hash_u64 digest (as_bytes (key @ node))"

text \<open>\<open>sort_by\<close> with the arguments of the comparison swapped is the stable sort by descending weight.\<close>

definition sort_desc :: "('a \<times> u64) list \<Rightarrow> ('a \<times> u64) list" where
  "sort_desc ws = sort_key (\<lambda>(_, w). 2 ^ 64 - 1 - unat w) ws"

definition hrw_hash :: "(bytes \<Rightarrow> bytes) \<Rightarrow> string \<Rightarrow> string list \<Rightarrow> string list" where
  "hrw_hash digest key nodes = map fst (sort_desc (map (\<lambda>node. (node, hrw_weight digest key node)) nodes))"

definition select_replicas :: "(bytes \<Rightarrow> bytes) \<Rightarrow> string \<Rightarrow> string list \<Rightarrow> nat \<Rightarrow> string list" where
  "select_replicas digest key nodes n = take n (hrw_hash digest key nodes)"

definition hex_nibble :: "nat \<Rightarrow> char" where
  "hex_nibble d = char_of (if d < 10 then 48 + d else 87 + d)"

definition hex2 :: "byte \<Rightarrow> string" where
  "hex2 b = [hex_nibble (unat b div 16), hex_nibble (unat b mod 16)]"

definition blob_prefix :: "(bytes \<Rightarrow> bytes) \<Rightarrow> string \<Rightarrow> string \<times> string" where
  "blob_prefix digest key = (let bs = digest (as_bytes key) in (hex2 (bs ! 0), hex2 (bs ! 1)))"

record hash_ring =
  num_shards :: u64
  shard_to_nodes :: "(u64, string list) hashmap"

definition ring_new :: "u64 \<Rightarrow> hash_ring" where
  "ring_new n = \<lparr>num_shards = n, shard_to_nodes = []\<rparr>"

definition assign_shard :: "u64 \<Rightarrow> string list \<Rightarrow> hash_ring \<Rightarrow> hash_ring" where
  "assign_shard shard ns r = r\<lparr>shard_to_nodes := hm_insert shard ns (shard_to_nodes r)\<rparr>"

definition get_shard_nodes :: "hash_ring \<Rightarrow> u64 \<Rightarrow> string list option" where
  "get_shard_nodes r shard = hm_get (shard_to_nodes r) shard"

definition get_nodes :: "(bytes \<Rightarrow> bytes) \<Rightarrow> hash_ring \<Rightarrow> string \<Rightarrow> string list option option" where
  "get_nodes digest r key = map_option (get_shard_nodes r) (shard_key digest key (num_shards r))"

definition rebalance :: "(bytes \<Rightarrow> bytes) \<Rightarrow> string list \<Rightarrow> nat \<Rightarrow> hash_ring \<Rightarrow> hash_ring" where
  "rebalance digest available_nodes replicas r =
     fold (\<lambda>shard. assign_shard (word_of_nat shard)
             (select_replicas digest (''shard-'' @ show_nat shard) available_nodes replicas))
       [0 ..< unat (num_shards r)] r"

definition shards_for_node :: "hash_ring \<Rightarrow> string \<Rightarrow> u64 list" where
  "shards_for_node r node = map fst (filter (\<lambda>(_, nodes). node \<in> set nodes) (shard_to_nodes r))"

section \<open>What placement needs of a ranking\<close>

locale node_ranking =
  fixes rank :: "'k \<Rightarrow> 'n list \<Rightarrow> 'n list"
  assumes rank_perm: "mset (rank k ns) = mset ns"
    and rank_filter: "rank k (filter P ns) = filter P (rank k ns)"
begin

lemma rank_set: "set (rank k ns) = set ns"
  using rank_perm by (metis set_mset_mset)

lemma rank_length: "length (rank k ns) = length ns"
  using rank_perm by (metis size_mset)

lemma rank_distinct: "distinct (rank k ns) = distinct ns"
  using rank_perm by (metis mset_eq_imp_distinct_iff)

lemma select_length: "length (take n (rank k ns)) = min n (length ns)"
  by (simp add: rank_length)

text \<open>A node that was not selected can leave without any effect on the selection.\<close>

lemma select_unaffected:
  assumes "x \<notin> set (take n (rank k ns))"
  shows "take n (rank k (filter (\<lambda>y. y \<noteq> x) ns)) = take n (rank k ns)"
proof -
  have "filter (\<lambda>y. y \<noteq> x) (take n (rank k ns)) = take n (rank k ns)"
    using assms by (auto simp: filter_id_conv)
  then have "filter (\<lambda>y. y \<noteq> x) (rank k ns) = take n (rank k ns) @ filter (\<lambda>y. y \<noteq> x) (drop n (rank k ns))"
    by (metis append_take_drop_id filter_append)
  moreover have "take n (take n (rank k ns) @ filter (\<lambda>y. y \<noteq> x) (drop n (rank k ns))) = take n (rank k ns)"
    by (cases "n \<le> length (rank k ns)") auto
  ultimately show ?thesis by (simp add: rank_filter)
qed

text \<open>When any nodes leave, the selected nodes that stay are still selected.\<close>

lemma take_filter_prefix: "filter P (take n xs) = take (length (filter P (take n xs))) (filter P xs)"
  by (metis append_eq_conv_conj append_take_drop_id filter_append)

lemma survivors_stay:
  "x \<in> set (take n (rank k ns)) \<Longrightarrow> P x \<Longrightarrow> x \<in> set (take n (rank k (filter P ns)))"
proof -
  assume "x \<in> set (take n (rank k ns))" "P x"
  then have "x \<in> set (filter P (take n (rank k ns)))" by simp
  then have "x \<in> set (take (length (filter P (take n (rank k ns)))) (filter P (rank k ns)))"
    by (metis take_filter_prefix)
  moreover have "length (filter P (take n (rank k ns))) \<le> n"
    by (metis length_filter_le length_take min.bounded_iff min.cobounded2 order.trans)
  ultimately show ?thesis
    by (metis rank_filter set_take_subset_set_take subsetD)
qed

end

section \<open>Highest random weight is such a ranking\<close>

lemma insort_key_map: "insort_key f (g x) (map g ys) = map g (insort_key (f \<circ> g) x ys)"
  by (induction ys) auto

lemma sort_key_map: "sort_key f (map g xs) = map g (sort_key (f \<circ> g) xs)"
  by (induction xs) (simp_all add: insort_key_map comp_def)

abbreviation hrw_rank :: "(bytes \<Rightarrow> bytes) \<Rightarrow> string \<Rightarrow> string \<Rightarrow> nat" where
  "hrw_rank digest key node \<equiv> 2 ^ 64 - 1 - unat (hrw_weight digest key node)"

lemma hrw_hash_sort: "hrw_hash digest key nodes = sort_key (hrw_rank digest key) nodes"
  by (simp add: hrw_hash_def sort_desc_def sort_key_map comp_def)

interpretation hrw: node_ranking "hrw_hash digest" for digest
  by unfold_locales (simp_all add: hrw_hash_sort filter_sort)

lemma unat_u64_le: "unat (w :: u64) \<le> 2 ^ 64 - 1"
  using unsigned_less [of w, where 'a = nat] by simp

lemma hrw_rank_le: "hrw_rank digest key a \<le> hrw_rank digest key b \<longleftrightarrow> hrw_weight digest key b \<le> hrw_weight digest key a"
  using unat_u64_le [of "hrw_weight digest key a"] unat_u64_le [of "hrw_weight digest key b"]
  by (auto simp: word_le_nat_alt)

lemma hrw_sorted:
  "sorted_wrt (\<lambda>a b. hrw_weight digest key b \<le> hrw_weight digest key a) (hrw_hash digest key nodes)"
  using sorted_sort_key [of "hrw_rank digest key" nodes]
  unfolding hrw_hash_sort sorted_map hrw_rank_le .

section \<open>The shard table\<close>

lemma get_shard_assign:
  "get_shard_nodes (assign_shard s ns r) t = (if t = s then Some ns else get_shard_nodes r t)"
  by (simp add: get_shard_nodes_def assign_shard_def)

lemma assign_fold_num: "num_shards (fold (\<lambda>i. assign_shard (f i) (g i)) is r) = num_shards r"
  by (induction "is" arbitrary: r) (simp_all add: assign_shard_def)

lemma rebalance_upto:
  assumes "m \<le> 2 ^ 64"
  shows "get_shard_nodes (fold (\<lambda>i. assign_shard (word_of_nat i) (g i)) [0 ..< m] r) s
           = (if unat s < m then Some (g (unat s)) else get_shard_nodes r s)"
  using assms
proof (induction m)
  case (Suc m)
  have "unat (word_of_nat m :: u64) = m" using Suc.prems by simp
  then have "s = word_of_nat m \<longleftrightarrow> unat s = m" by (metis of_nat_unat ucast_id)
  then show ?case using Suc by (auto simp: get_shard_assign)
qed simp

lemma get_shard_rebalance:
  "get_shard_nodes (rebalance digest av n r) s =
     (if s < num_shards r then Some (select_replicas digest (''shard-'' @ show_nat (unat s)) av n)
      else get_shard_nodes r s)"
  using unat_u64_le [of "num_shards r"]
  by (simp add: rebalance_def rebalance_upto word_less_nat_alt)

section \<open>Properties\<close>

text \<open>
  The ranking of nodes for a key: it contains every node exactly as often as the input
  does, and no node stands behind one with a smaller weight. If no two nodes have the
  same weight it does not depend on the order in which the nodes are given.
\<close>

theorem hrw_ranks_by_weight:
  "mset (hrw_hash digest key nodes) = mset nodes \<and>
   sorted_wrt (\<lambda>a b. hrw_weight digest key b \<le> hrw_weight digest key a) (hrw_hash digest key nodes) \<and>
   (inj_on (hrw_weight digest key) (set nodes) \<longrightarrow> mset nodes' = mset nodes \<longrightarrow>
      hrw_hash digest key nodes' = hrw_hash digest key nodes)"
proof (intro conjI impI)
  show "mset (hrw_hash digest key nodes) = mset nodes" by (rule hrw.rank_perm)
  show "sorted_wrt (\<lambda>a b. hrw_weight digest key b \<le> hrw_weight digest key a) (hrw_hash digest key nodes)"
    by (rule hrw_sorted)
  assume inj: "inj_on (hrw_weight digest key) (set nodes)" and perm: "mset nodes' = mset nodes"
  have "inj_on (hrw_rank digest key) (set nodes)"
    using inj hrw_rank_le by (intro inj_onI) (metis inj_onD order_antisym order_refl)
  then show "hrw_hash digest key nodes' = hrw_hash digest key nodes"
    unfolding hrw_hash_sort using perm
    by (metis mset_eq_setD mset_sort sort_key_inj_key_eq sorted_sort_key)
qed

text \<open>
  C24. Placement is stable: when nodes leave the cluster, the replicas of a key that remain
  are still selected, and if none of the departed was a replica the selection does not
  change at all.
\<close>

theorem replicas_stable:
  "(\<forall>x \<in> set (select_replicas digest key nodes n). P x \<longrightarrow> x \<in> set (select_replicas digest key (filter P nodes) n)) \<and>
   (\<forall>x. x \<notin> set (select_replicas digest key nodes n) \<longrightarrow>
      select_replicas digest key (filter (\<lambda>y. y \<noteq> x) nodes) n = select_replicas digest key nodes n)"
  unfolding select_replicas_def by (blast intro: hrw.survivors_stay hrw.select_unaffected)

text \<open>A digest that adds up the bytes of its input, for the witnesses.\<close>

definition sum_digest :: "bytes \<Rightarrow> bytes" where
  "sum_digest d = sum_list d # replicate 31 0"

lemma sum_digest_ok: "digest_ok sum_digest"
  by (simp add: digest_ok_def sum_digest_def)

lemma nat_of_le_zeros: "nat_of_le (replicate n 0) = 0"
  by (induction n) simp_all

lemma sum_hash: "hash_u64 sum_digest d = word_of_nat (unat (sum_list d))"
proof -
  have "take 8 (sum_digest d) = sum_list d # replicate 7 0" by (simp add: sum_digest_def)
  then show ?thesis by (simp add: hash_u64_def u64_from_le_def nat_of_le_zeros)
qed

lemma sum_weights:
  "hrw_weight sum_digest ''k'' ''a'' = 204"
  "hrw_weight sum_digest ''k'' ''b'' = 205"
  "hrw_weight sum_digest ''k'' ''c'' = 206"
  by (simp_all add: hrw_weight_def sum_hash as_bytes_def)

theorem hrw_ranks_by_weight_witness:
  "inj_on (hrw_weight sum_digest ''k'') {''a'', ''b'', ''c''} \<and>
   hrw_hash sum_digest ''k'' [''a'', ''b'', ''c''] = [''c'', ''b'', ''a''] \<and>
   hrw_hash sum_digest ''k'' [''b'', ''c'', ''a''] = [''c'', ''b'', ''a'']"
proof -
  have i: "inj_on (hrw_weight sum_digest ''k'') {''a'', ''b'', ''c''}" by (simp add: sum_weights)
  have h: "hrw_hash sum_digest ''k'' [''a'', ''b'', ''c''] = [''c'', ''b'', ''a'']"
    by (simp add: hrw_hash_sort sum_weights)
  have "hrw_hash sum_digest ''k'' [''b'', ''c'', ''a''] = hrw_hash sum_digest ''k'' [''a'', ''b'', ''c'']"
    using hrw_ranks_by_weight [of sum_digest "''k''" "[''a'', ''b'', ''c'']" "[''b'', ''c'', ''a'']"] i
    by simp
  with i h show ?thesis by simp
qed

theorem replicas_stable_witness:
  "select_replicas sum_digest ''k'' [''a'', ''b'', ''c''] 2 = [''c'', ''b''] \<and>
   ''b'' \<in> set (select_replicas sum_digest ''k'' [''a'', ''b''] 2) \<and>
   select_replicas sum_digest ''k'' [''b'', ''c''] 2 = [''c'', ''b'']"
proof -
  have s: "select_replicas sum_digest ''k'' [''a'', ''b'', ''c''] 2 = [''c'', ''b'']"
    by (simp add: select_replicas_def hrw_hash_sort sum_weights)
  from replicas_stable [of sum_digest "''k''" "[''a'', ''b'', ''c'']" 2 "\<lambda>n. n \<noteq> ''c''"] s
  have "''b'' \<in> set (select_replicas sum_digest ''k'' [''a'', ''b''] 2)" by simp
  moreover from replicas_stable [of sum_digest "''k''" "[''a'', ''b'', ''c'']" 2 "\<lambda>n. n \<noteq> ''c''"]
  have "select_replicas sum_digest ''k'' (filter (\<lambda>y. y \<noteq> ''a'') [''a'', ''b'', ''c'']) 2
      = select_replicas sum_digest ''k'' [''a'', ''b'', ''c''] 2" using s by (elim conjE allE [of _ "''a''"]) simp
  ultimately show ?thesis using s by simp
qed

text \<open>
  C25. After a rebalancing every key has nodes: the shard of a key is below the number of
  shards, the shard has an entry, and the entry holds as many nodes as the replication
  factor asks for and the cluster has, all of them available and none twice. Only an empty
  shard table makes a lookup panic.
\<close>

theorem rebalance_serves_every_key:
  assumes "distinct av" and "r' = rebalance digest av n r"
  shows "(num_shards r = 0 \<longleftrightarrow> get_nodes digest r' key = None) \<and>
    (num_shards r \<noteq> 0 \<longrightarrow>
      (\<exists>s ns. shard_key digest key (num_shards r) = Some s \<and> s < num_shards r \<and>
         get_nodes digest r' key = Some (Some ns) \<and> get_shard_nodes r' s = Some ns \<and>
         length ns = min n (length av) \<and> distinct ns \<and> set ns \<subseteq> set av))"
proof -
  have n: "num_shards (rebalance digest av n r) = num_shards r"
    by (simp add: rebalance_def assign_fold_num)
  have sel: "length (select_replicas digest k av n) = min n (length av) \<and>
      distinct (select_replicas digest k av n) \<and> set (select_replicas digest k av n) \<subseteq> set av" for k
    unfolding select_replicas_def using assms(1) hrw.rank_distinct hrw.rank_set
    by (metis distinct_take hrw.select_length set_take_subset)
  have "hash_u64 digest (as_bytes key) mod num_shards r < num_shards r" if "num_shards r \<noteq> 0"
    using that by (simp add: word_less_nat_alt unat_mod_distrib unat_gt_0)
  then show ?thesis
    using sel by (auto simp: get_nodes_def n shard_key_def assms(2) get_shard_rebalance)
qed

theorem rebalance_serves_every_key_witness:
  "\<exists>ns. get_nodes sum_digest (rebalance sum_digest [''a'', ''b'', ''c''] 2 (ring_new 256)) ''key'' = Some (Some ns) \<and>
     length ns = 2"
  using rebalance_serves_every_key [of "[''a'', ''b'', ''c'']" _ sum_digest 2 "ring_new 256" "''key''"]
  by (auto simp: ring_new_def)

end
