(* ===== verification/Utils.thy ===== *)
theory Utils
  imports Errors
begin

text \<open>
  \<open>src/src/common/utils.rs\<close>: health states of nodes, durations, retries, identifiers of
  uploads and the validation of keys. Strings are UTF-8 byte strings, so slicing inside a
  character panics (\<open>None\<close>). The clock is an argument; a \<open>Duration\<close> is its number of
  nanoseconds and overflows beyond \<open>DURATION_MAX\<close>. Encoding of keys for URLs is a call
  of the crate \<open>percent_encoding\<close> and \<open>format_bytes\<close> floating-point formatting; both
  are left out.
\<close>

section \<open>Node health\<close>

datatype node_state = Alive | Suspect | Dead | Draining

fun is_healthy :: "node_state \<Rightarrow> bool" where
  "is_healthy Alive = True"
| "is_healthy _ = False"

fun node_can_write :: "node_state \<Rightarrow> bool" where
  "node_can_write Alive = True"
| "node_can_write _ = False"

fun node_can_read :: "node_state \<Rightarrow> bool" where
  "node_can_read Alive = True"
| "node_can_read Draining = True"
| "node_can_read _ = False"

fun node_state_display :: "node_state \<Rightarrow> string" where
  "node_state_display Alive = ''alive''"
| "node_state_display Suspect = ''suspect''"
| "node_state_display Dead = ''dead''"
| "node_state_display Draining = ''draining''"

section \<open>Durations\<close>

text \<open>The number of bytes of the white-space character at the head of a UTF-8 string, 0 if there is none.\<close>

definition byte_of :: "char \<Rightarrow> nat" where
  "byte_of c = of_char c"

definition space1 :: "nat \<Rightarrow> bool" where
  "space1 a \<longleftrightarrow> (9 \<le> a \<and> a \<le> 13) \<or> a = 32"

definition space2 :: "nat \<Rightarrow> nat \<Rightarrow> bool" where
  "space2 a b \<longleftrightarrow> a = 0xC2 \<and> (b = 0x85 \<or> b = 0xA0)"

definition space3 :: "nat \<Rightarrow> nat \<Rightarrow> nat \<Rightarrow> bool" where
  "space3 a b c \<longleftrightarrow> (a = 0xE1 \<and> b = 0x9A \<and> c = 0x80) \<or>
     (a = 0xE2 \<and> b = 0x80 \<and> ((0x80 \<le> c \<and> c \<le> 0x8A) \<or> c = 0xA8 \<or> c = 0xA9 \<or> c = 0xAF)) \<or>
     (a = 0xE2 \<and> b = 0x81 \<and> c = 0x9F) \<or> (a = 0xE3 \<and> b = 0x80 \<and> c = 0x80)"

fun trim_start :: "string \<Rightarrow> string" where
  "trim_start [] = []"
| "trim_start (a # s) =
     (if space1 (byte_of a) then trim_start s
      else case s of
        b # s' \<Rightarrow>
          if space2 (byte_of a) (byte_of b) then trim_start s'
          else (case s' of
                  c # s'' \<Rightarrow> if space3 (byte_of a) (byte_of b) (byte_of c) then trim_start s'' else a # s
                | [] \<Rightarrow> a # s)
      | [] \<Rightarrow> a # s)"

text \<open>The same from the end, on the reversed string.\<close>

fun trim_rev :: "string \<Rightarrow> string" where
  "trim_rev [] = []"
| "trim_rev (a # s) =
     (if space1 (byte_of a) then trim_rev s
      else case s of
        b # s' \<Rightarrow>
          if space2 (byte_of b) (byte_of a) then trim_rev s'
          else (case s' of
                  c # s'' \<Rightarrow> if space3 (byte_of c) (byte_of b) (byte_of a) then trim_rev s'' else a # s
                | [] \<Rightarrow> a # s)
      | [] \<Rightarrow> a # s)"

definition trim :: "string \<Rightarrow> string" where
  "trim s = rev (trim_rev (rev (trim_start s)))"

text \<open>\<open>&s[..n]\<close> and \<open>&s[n..]\<close> panic unless \<open>n\<close> is at the border of a character.\<close>

definition is_char_boundary :: "string \<Rightarrow> nat \<Rightarrow> bool" where
  "is_char_boundary s n \<longleftrightarrow> n = length s \<or> (n < length s \<and> \<not> (128 \<le> byte_of (s ! n) \<and> byte_of (s ! n) < 192))"

definition split_unit :: "string \<Rightarrow> (string \<times> string) option" where
  "split_unit s =
     (if 2 \<le> length s \<and> drop (length s - 2) s = ''ms'' then Some (take (length s - 2) s, ''ms'')
      else if is_char_boundary s (length s - 1) then Some (take (length s - 1) s, drop (length s - 1) s)
      else None)"

abbreviation millis :: "nat \<Rightarrow> nat" where "millis n \<equiv> n * 1000000"
abbreviation seconds :: "nat \<Rightarrow> nat" where "seconds n \<equiv> n * 1000000000"

definition duration_of :: "u64 \<Rightarrow> string \<Rightarrow> nat result" where
  "duration_of num unit =
     (if unit = ''ms'' then Inr (millis (unat num))
      else if unit = ''s'' then Inr (seconds (unat num))
      else if unit = ''m'' then Inr (seconds (unat (num * 60)))
      else if unit = ''h'' then Inr (seconds (unat (num * 3600)))
      else if unit = ''d'' then Inr (seconds (unat (num * 86400)))
      else Inl (InvalidConfig (''unknown duration unit: '' @ unit)))"

definition parse_duration :: "string \<Rightarrow> nat result option" where
  "parse_duration s0 =
     (let s = trim s0 in
      if s = [] then Some (Inl (InvalidConfig ''empty duration''))
      else case split_unit s of
        None \<Rightarrow> None
      | Some (num_str, unit) \<Rightarrow>
          (case parse_u64 num_str of
             None \<Rightarrow> Some (Inl (InvalidConfig (''invalid duration: '' @ s)))
           | Some num \<Rightarrow> Some (duration_of num unit)))"

section \<open>Retries\<close>

definition DURATION_MAX :: nat where
  "DURATION_MAX = seconds (2 ^ 64 - 1) + 999999999"

text \<open>
  \<open>f i\<close> is what the \<open>i\<close>-th call of the operation returns. The result comes with the
  number of calls and the delays slept; \<open>None\<close> is the panic of \<open>delay *= 2\<close>.
\<close>

function retry_loop :: "(nat \<Rightarrow> 'a result) \<Rightarrow> nat \<Rightarrow> nat \<Rightarrow> nat \<Rightarrow> nat list \<Rightarrow> ('a result \<times> nat \<times> nat list) option" where
  "retry_loop f max_retries attempt delay sleeps =
     (if attempt < max_retries then
        case f attempt of
          Inr r \<Rightarrow> Some (Inr r, attempt + 1, sleeps)
        | Inl e \<Rightarrow>
            if is_retryable e \<and> attempt < max_retries - 1
            then if delay * 2 \<le> DURATION_MAX
                 then retry_loop f max_retries (attempt + 1) (delay * 2) (sleeps @ [delay])
                 else None
            else Some (Inl e, attempt + 1, sleeps)
      else Some (Inl (Internal ''Max retries exceeded''), attempt, sleeps))"
  by auto
termination by (relation "measure (\<lambda>(f, m, a, d, s). m - a)") auto

declare retry_loop.simps [simp del]

definition retry_with_backoff :: "(nat \<Rightarrow> 'a result) \<Rightarrow> nat \<Rightarrow> nat \<Rightarrow> ('a result \<times> nat \<times> nat list) option" where
  "retry_with_backoff f max_retries initial_delay = retry_loop f max_retries 0 initial_delay []"

section \<open>Timestamps\<close>

text \<open>The argument is the time since the epoch in nanoseconds.\<close>

definition timestamp_now :: "nat \<Rightarrow> u64" where
  "timestamp_now now = word_of_nat (now div 1000000000)"

definition timestamp_now_millis :: "nat \<Rightarrow> u64" where
  "timestamp_now_millis now = word_of_nat (now div 1000000)"

section \<open>Identifiers and keys\<close>

definition generate_upload_id :: "u64 \<Rightarrow> u64 \<Rightarrow> string \<times> u64" where
  "generate_upload_id now_millis counter =
     (show_nat (unat now_millis) @ ''-'' @ show_nat (unat counter), counter + 1)"

text \<open>Control characters are U+0000 to U+001F, U+007F and U+0080 to U+009F.\<close>

fun has_control :: "string \<Rightarrow> bool" where
  "has_control [] = False"
| "has_control (a # s) \<longleftrightarrow> byte_of a < 32 \<or> byte_of a = 127 \<or>
     (byte_of a = 0xC2 \<and> (case s of b # _ \<Rightarrow> 0x80 \<le> byte_of b \<and> byte_of b < 0xA0 | [] \<Rightarrow> False)) \<or> has_control s"

definition validate_key_name :: "string \<Rightarrow> unit result" where
  "validate_key_name key =
     (if key = [] then Inl (InvalidConfig ''key cannot be empty'')
      else if length key > 1024 then Inl (InvalidConfig ''key too long (max 1024 bytes)'')
      else if has_control key then Inl (InvalidConfig ''key contains invalid characters'')
      else Inr ())"

section \<open>Lemmas\<close>

definition gives_up :: "'a result \<Rightarrow> bool" where
  "gives_up r = (case r of Inr _ \<Rightarrow> True | Inl e \<Rightarrow> \<not> is_retryable e)"

lemma retry_loop_outcome:
  assumes "a < m" "d * 2 ^ (m - 1 - a) \<le> DURATION_MAX"
  shows "\<exists>k. a \<le> k \<and> k < m \<and>
    retry_loop f m a d sl = Some (f k, k + 1, sl @ map (\<lambda>i. d * 2 ^ i) [0 ..< k - a]) \<and>
    (\<forall>i. a \<le> i \<longrightarrow> i < k \<longrightarrow> \<not> gives_up (f i)) \<and> (k = m - 1 \<or> gives_up (f k))"
  using assms
proof (induction "m - a" arbitrary: a d sl)
  case (Suc n)
  show ?case
  proof (cases "gives_up (f a) \<or> a = m - 1")
    case True
    then have "retry_loop f m a d sl = Some (f a, a + 1, sl)"
      using Suc.prems by (subst retry_loop.simps) (auto simp: gives_up_def split: sum.splits)
    then show ?thesis using True Suc.prems by (intro exI [of _ a]) auto
  next
    case False
    then obtain e where e: "f a = Inl e" "is_retryable e" by (auto simp: gives_up_def split: sum.splits)
    have "a \<noteq> m - 1" using False by simp
    then have lt: "a + 1 < m" using Suc.prems(1) by linarith
    have p: "d * 2 * 2 ^ (m - 1 - (a + 1)) = d * 2 ^ (m - 1 - a)"
      using lt by (metis Suc_diff_Suc add.commute add_diff_cancel_left' diff_Suc_eq_diff_pred
          less_diff_conv mult.assoc plus_1_eq_Suc power_Suc)
    have "1 * (d * 2) \<le> 2 ^ (m - 1 - (a + 1)) * (d * 2)" by (rule mult_le_mono1) simp
    also have "\<dots> = d * 2 ^ (m - 1 - a)" using p by (metis mult.commute)
    finally have "d * 2 \<le> DURATION_MAX" using Suc.prems(2) by linarith
    then have step: "retry_loop f m a d sl = retry_loop f m (a + 1) (d * 2) (sl @ [d])"
      using e lt by (subst retry_loop.simps) auto
    have n: "n = m - (a + 1)" using Suc.hyps(2) by simp
    obtain k where k: "a + 1 \<le> k" "k < m"
      "retry_loop f m (a + 1) (d * 2) (sl @ [d]) = Some (f k, k + 1, (sl @ [d]) @ map (\<lambda>i. d * 2 * 2 ^ i) [0 ..< k - (a + 1)])"
      "\<forall>i. a + 1 \<le> i \<longrightarrow> i < k \<longrightarrow> \<not> gives_up (f i)" "k = m - 1 \<or> gives_up (f k)"
      using Suc.hyps(1) [OF n lt, of "d * 2" "sl @ [d]"] Suc.prems(2) unfolding p by blast
    have "[0 ..< k - a] = 0 # map Suc [0 ..< k - (a + 1)]"
      using k(1) by (metis Suc_diff_Suc Suc_eq_plus1 Suc_le_lessD map_Suc_upt upt_conv_Cons zero_less_Suc)
    then have "[d] @ map (\<lambda>i. d * 2 * 2 ^ i) [0 ..< k - (a + 1)] = map (\<lambda>i. d * 2 ^ i) [0 ..< k - a]"
      by (simp add: comp_def mult.assoc)
    moreover have "\<forall>i. a \<le> i \<longrightarrow> i < k \<longrightarrow> \<not> gives_up (f i)"
      using k(4) False by (metis Suc_eq_plus1 le_antisym not_less_eq_eq)
    ultimately show ?thesis using k step by (intro exI [of _ k]) auto
  qed
qed simp

lemma digit_char_byte: "d < 10 \<Longrightarrow> byte_of (digit_char d) = 48 + d"
  by (simp add: byte_of_def digit_char_def)

lemma show_nat_digit: "c \<in> set (show_nat n) \<Longrightarrow> \<exists>d < 10. c = digit_char d"
proof (induction n rule: show_nat.induct)
  case (1 n)
  then show ?case
  proof (cases "n < 10")
    case True
    then show ?thesis using 1(2) by (subst (asm) show_nat.simps) auto
  next
    case False
    then have "c \<in> set (show_nat (n div 10)) \<or> c = digit_char (n mod 10)"
      using 1(2) by (subst (asm) show_nat.simps) auto
    then show ?thesis using 1(1) False by (auto intro: exI [of _ "n mod 10"])
  qed
qed

lemma show_nat_nonempty [simp]: "show_nat n \<noteq> []"
  by (subst show_nat.simps) simp

lemma show_nat_inject: "show_nat m = show_nat n \<Longrightarrow> m = n"
  by (metis option.inject parse_digits_show_nat)

lemma parse_u64_show [simp]: "parse_u64 (show_nat (unat n)) = Some n"
  using parse_u64_pad0 [of 0 n] by (simp add: pad0_def)

lemma trim_show_unit:
  assumes "97 \<le> byte_of u" "byte_of u < 128" "\<forall>c \<in> set us. 97 \<le> byte_of c \<and> byte_of c < 128"
  shows "trim (show_nat n @ us @ [u]) = show_nat n @ us @ [u]"
proof -
  obtain c cs where c: "show_nat n = c # cs" by (cases "show_nat n") auto
  then obtain d where "d < 10" "c = digit_char d" using show_nat_digit [of c n] by auto
  then have b: "48 \<le> byte_of c" "byte_of c < 58" by (simp_all add: digit_char_byte)
  have "trim_start (c # t) = c # t" for t
    using b by (auto simp: space1_def space2_def space3_def split: list.split)
  then have ts: "trim_start (show_nat n @ us @ [u]) = show_nat n @ us @ [u]" using c by (simp only: append_Cons)
  have tr: "trim_rev (u # b # t) = u # b # t" if "byte_of b < 128" for b t
    using that assms(1,2) by (auto simp: space1_def space2_def space3_def split: list.split)
  obtain b t where r: "rev (show_nat n @ us) = b # t" using c by (cases "rev (show_nat n @ us)") auto
  then have "b \<in> set (show_nat n @ us)" by (metis list.set_intros(1) set_rev)
  then have "byte_of b < 128" using assms(3) show_nat_digit [of b n] by (auto simp: digit_char_byte)
  moreover have r: "rev (show_nat n @ us @ [u]) = u # b # t" using r by simp
  ultimately have "trim_rev (rev (show_nat n @ us @ [u])) = rev (show_nat n @ us @ [u])" using tr by (simp only: r)
  then show ?thesis unfolding trim_def ts by (simp only: rev_rev_ident)
qed

lemma upload_id_inject:
  assumes "show_nat a @ ''-'' @ show_nat b = show_nat c @ ''-'' @ show_nat d"
  shows "b = d"
proof -
  have dig: "\<forall>x \<in> set (show_nat n). x \<noteq> CHR ''-''" for n
  proof
    fix x assume "x \<in> set (show_nat n)"
    then obtain d where "d < 10" "x = digit_char d" using show_nat_digit by blast
    then have "48 \<le> byte_of x" by (simp add: digit_char_byte)
    then show "x \<noteq> CHR ''-''" by (auto simp: byte_of_def)
  qed
  have "dropWhile (\<lambda>x. x \<noteq> CHR ''-'') (show_nat n @ ''-'' @ t) = ''-'' @ t" for n t
    using dig [of n] by (simp add: dropWhile_append2)
  then have "''-'' @ show_nat b = ''-'' @ show_nat d" using assms by metis
  then show ?thesis by (simp add: show_nat_inject)
qed

section \<open>Properties\<close>

text \<open>
  C22. Retries end: with at least one attempt and a first delay small enough to double, the
  loop returns after some call \<open>k\<close> below the limit what that call returned; every call
  before it failed with an error worth retrying, the last one did not or used up the
  attempts, and the delays slept in between double from the first. The message about
  exceeded retries is produced only when no attempt was allowed at all.
\<close>

theorem retry_outcome:
  assumes "0 < m" and "d * 2 ^ (m - 1) \<le> DURATION_MAX"
  shows "(\<exists>k < m. retry_with_backoff f m d = Some (f k, k + 1, map (\<lambda>i. d * 2 ^ i) [0 ..< k]) \<and>
      (\<forall>i < k. \<exists>e. f i = Inl e \<and> is_retryable e) \<and>
      (k = m - 1 \<or> (\<forall>e. f k = Inl e \<longrightarrow> \<not> is_retryable e))) \<and>
    retry_with_backoff f 0 d = Some (Inl (Internal ''Max retries exceeded''), 0, [])"
proof
  obtain k where k: "k < m" "retry_loop f m 0 d [] = Some (f k, k + 1, map (\<lambda>i. d * 2 ^ i) [0 ..< k])"
    "\<forall>i < k. \<not> gives_up (f i)" "k = m - 1 \<or> gives_up (f k)"
    using retry_loop_outcome [of 0 m d f "[]"] assms by auto
  have "\<forall>i < k. \<exists>e. f i = Inl e \<and> is_retryable e"
  proof (intro allI impI)
    fix i assume "i < k"
    with k(3) show "\<exists>e. f i = Inl e \<and> is_retryable e" by (cases "f i") (auto simp: gives_up_def)
  qed
  moreover have "k = m - 1 \<or> (\<forall>e. f k = Inl e \<longrightarrow> \<not> is_retryable e)" using k(4) by (auto simp: gives_up_def)
  ultimately show "\<exists>k < m. retry_with_backoff f m d = Some (f k, k + 1, map (\<lambda>i. d * 2 ^ i) [0 ..< k]) \<and>
      (\<forall>i < k. \<exists>e. f i = Inl e \<and> is_retryable e) \<and> (k = m - 1 \<or> (\<forall>e. f k = Inl e \<longrightarrow> \<not> is_retryable e))"
    using k(1,2) by (auto simp: retry_with_backoff_def)
  show "retry_with_backoff f 0 d = Some (Inl (Internal ''Max retries exceeded''), 0, [])"
    by (simp add: retry_with_backoff_def) (subst retry_loop.simps, simp)
qed

theorem retry_outcome_witness:
  "\<exists>k < 3. retry_with_backoff (\<lambda>i. if i < 2 then Inl ConsensusTimeout else Inr i) 3 5
     = Some (if k < 2 then Inl ConsensusTimeout else Inr k, k + 1, map (\<lambda>i. 5 * 2 ^ i) [0 ..< k])"
  using retry_outcome [of 3 5 "\<lambda>i. if i < 2 then Inl ConsensusTimeout else Inr i"]
  by (auto simp: DURATION_MAX_def)

text \<open>
  Durations: a decimal 64-bit number with one of the units is read as that many units,
  where minutes, hours and days are converted to seconds modulo \<open>2 ^ 64\<close>; a string whose
  last character is not ASCII makes the parser panic.
\<close>

theorem parse_duration_units:
  fixes n :: u64
  shows "parse_duration (show_nat (unat n) @ ''ms'') = Some (Inr (millis (unat n))) \<and>
   parse_duration (show_nat (unat n) @ ''s'') = Some (Inr (seconds (unat n))) \<and>
   parse_duration (show_nat (unat n) @ ''m'') = Some (Inr (seconds (unat n * 60 mod 2 ^ 64))) \<and>
   parse_duration (show_nat (unat n) @ ''h'') = Some (Inr (seconds (unat n * 3600 mod 2 ^ 64))) \<and>
   parse_duration (show_nat (unat n) @ ''d'') = Some (Inr (seconds (unat n * 86400 mod 2 ^ 64))) \<and>
   parse_duration [CHR ''5'', CHR 0xC2, CHR 0xB5] = None"
proof -
  have last: "\<exists>c d. d < 10 \<and> c = digit_char d \<and> (\<exists>cs. show_nat k = cs @ [c])" for k
    using show_nat_digit [of "last (show_nat k)" k]
    by (metis append_butlast_last_id last_in_set show_nat_nonempty)
  have one: "parse_duration (show_nat (unat n) @ [u]) = Some (duration_of n [u])" if "u \<in> {CHR ''s'', CHR ''m'', CHR ''h'', CHR ''d''}" for u
  proof -
    have t: "trim (show_nat (unat n) @ [u]) = show_nat (unat n) @ [u]"
      using trim_show_unit [of u "[]"] that by (auto simp: byte_of_def)
    obtain c d cs where c: "d < 10" "c = digit_char d" "show_nat (unat n) = cs @ [c]" using last by blast
    have "48 \<le> byte_of c \<and> byte_of c < 58" using c(1,2) by (simp add: digit_char_byte)
    then have "c \<noteq> CHR ''m''" by (auto simp: byte_of_def)
    then have "split_unit (show_nat (unat n) @ [u]) = Some (show_nat (unat n), [u])"
      using c(3) that by (auto simp: split_unit_def is_char_boundary_def byte_of_def nth_append)
    then show ?thesis by (simp add: parse_duration_def t)
  qed
  have "trim (show_nat (unat n) @ ''m'' @ [CHR ''s'']) = show_nat (unat n) @ ''m'' @ [CHR ''s'']"
    by (rule trim_show_unit) (simp_all add: byte_of_def)
  then have "parse_duration (show_nat (unat n) @ ''ms'') = Some (duration_of n ''ms'')"
    by (simp add: parse_duration_def split_unit_def)
  moreover have "parse_duration [CHR ''5'', CHR 0xC2, CHR 0xB5] = None" by code_simp
  moreover have "unat (n * 60) = unat n * 60 mod 2 ^ 64" "unat (n * 3600) = unat n * 3600 mod 2 ^ 64"
    "unat (n * 86400) = unat n * 86400 mod 2 ^ 64"
    by (simp_all add: unat_word_ariths)
  ultimately show ?thesis
    using one [of "CHR ''s''"] one [of "CHR ''m''"] one [of "CHR ''h''"] one [of "CHR ''d''"]
    by (simp add: duration_of_def)
qed

text \<open>
  Upload identifiers of one process never repeat: calls whose counters differ give
  different identifiers, whatever the clock says.
\<close>

lemma upload_ids_differ:
  "fst (generate_upload_id t c) = fst (generate_upload_id t' c') \<Longrightarrow> c = c'"
  using upload_id_inject [of "unat t" "unat c" "unat t'" "unat c'"]
  unfolding generate_upload_id_def by (simp only: fst_conv word_unat_eq_iff)

end
