(* ===== verification/Metadata.thy ===== *)
theory Metadata
  imports Utils "HOL-Library.Char_ord" "HOL-Library.List_Lexorder"
begin

text \<open>
  \<open>src/src/coordinator/metadata.rs\<close>: metadata of keys and volumes. The crates \<open>rocksdb\<close>
  and \<open>bincode\<close> are the record \<open>meta_ext\<close> over a type of databases; \<open>meta_laws\<close> states
  what the code relies on, with a view of a database as a map per column family: reads
  return what the view has, writes and deletions update it, a failed operation leaves it,
  an iterator from the start delivers the entries in the order of their keys, and
  decoding inverts encoding. Strings compare as their bytes.
\<close>

section \<open>Data\<close>

definition CF_KEYS :: string where "CF_KEYS = ''keys''"
definition CF_VOLUMES :: string where "CF_VOLUMES = ''volumes''"
definition CF_CONFIG :: string where "CF_CONFIG = ''config''"

datatype key_state = KeyActive | Tombstone

record key_metadata =
  km_key :: string
  km_replicas :: "string list"
  km_size :: u64
  km_blake3 :: string
  km_created_at :: u64
  km_updated_at :: u64
  km_state :: key_state

record volume_metadata =
  vm_volume_id :: string
  vm_address :: string
  vm_grpc_address :: string
  vm_state :: node_state
  vm_shards :: "u64 list"
  vm_total_keys :: u64
  vm_total_bytes :: u64
  vm_free_bytes :: u64
  vm_last_heartbeat :: u64

text \<open>The metadata a batch stores for a key: no replicas, no digest and no times.\<close>

definition plain_key :: "string \<Rightarrow> u64 \<Rightarrow> key_metadata" where
  "plain_key key n = \<lparr>km_key = key, km_replicas = [], km_size = n, km_blake3 = [], km_created_at = 0,
     km_updated_at = 0, km_state = KeyActive\<rparr>"

section \<open>The global store\<close>

text \<open>
  The static \<open>GLOBAL_STORE\<close> is a cell that is written at most once: a second
  initialisation is dropped, and reading it before the first one panics.
\<close>

definition init_global_store :: "'m \<Rightarrow> 'm option \<Rightarrow> 'm option" where
  "init_global_store store cell = (case cell of None \<Rightarrow> Some store | Some s \<Rightarrow> Some s)"

definition get_global_store :: "'m option \<Rightarrow> 'm option" where
  "get_global_store cell = (case cell of Some s \<Rightarrow> Some s | None \<Rightarrow> None)"

section \<open>The database\<close>

record 'db meta_ext =
  open_cf :: "string \<Rightarrow> string list \<Rightarrow> string + 'db"
  put_cf :: "'db \<Rightarrow> string \<Rightarrow> bytes \<Rightarrow> bytes \<Rightarrow> (string + unit) \<times> 'db"
  get_cf :: "'db \<Rightarrow> string \<Rightarrow> bytes \<Rightarrow> string + bytes option"
  delete_cf :: "'db \<Rightarrow> string \<Rightarrow> bytes \<Rightarrow> (string + unit) \<times> 'db"
  iterator_cf :: "'db \<Rightarrow> string \<Rightarrow> (string + bytes \<times> bytes) list"
  flush_db :: "'db \<Rightarrow> (string + unit) \<times> 'db"
  ser_key :: "key_metadata \<Rightarrow> string + bytes"
  de_key :: "bytes \<Rightarrow> string + key_metadata"
  ser_volume :: "volume_metadata \<Rightarrow> string + bytes"
  de_volume :: "bytes \<Rightarrow> string + volume_metadata"

definition meta_laws :: "'db meta_ext \<Rightarrow> ('db \<Rightarrow> string \<Rightarrow> bytes \<rightharpoonup> bytes) \<Rightarrow> bool" where
  "meta_laws x V \<longleftrightarrow>
     (\<forall>db cf k r. get_cf x db cf k = Inr r \<longrightarrow> r = V db cf k) \<and>
     (\<forall>db cf k v db'. put_cf x db cf k v = (Inr (), db') \<longrightarrow> V db' = (V db)(cf := (V db cf)(k \<mapsto> v))) \<and>
     (\<forall>db cf k v db' e. put_cf x db cf k v = (Inl e, db') \<longrightarrow> V db' = V db) \<and>
     (\<forall>db cf k db'. delete_cf x db cf k = (Inr (), db') \<longrightarrow> V db' = (V db)(cf := (V db cf)(k := None))) \<and>
     (\<forall>db cf k db' e. delete_cf x db cf k = (Inl e, db') \<longrightarrow> V db' = V db) \<and>
     (\<forall>db cf kvs. iterator_cf x db cf = map Inr kvs \<longrightarrow> sorted (map fst kvs) \<and> distinct (map fst kvs) \<and> map_of kvs = V db cf) \<and>
     (\<forall>m b. ser_key x m = Inr b \<longrightarrow> de_key x b = Inr m) \<and>
     (\<forall>m b. ser_volume x m = Inr b \<longrightarrow> de_volume x b = Inr m)"

text \<open>The \<open>?\<close> operator turns an error of the database into \<open>Error::RocksDb\<close>.\<close>

fun rocks :: "string + 'a \<Rightarrow> 'a result" where
  "rocks (Inl e) = Inl (RocksDb e)"
| "rocks (Inr r) = Inr r"

definition meta_open :: "'db meta_ext \<Rightarrow> string \<Rightarrow> 'db result" where
  "meta_open x path = rocks (open_cf x path [CF_KEYS, CF_VOLUMES, CF_CONFIG])"

definition meta_put_key :: "'db meta_ext \<Rightarrow> key_metadata \<Rightarrow> 'db \<Rightarrow> unit result \<times> 'db" where
  "meta_put_key x meta db =
     (case ser_key x meta of
        Inl e \<Rightarrow> (Inl (Internal (''Serialize error: '' @ e)), db)
      | Inr v \<Rightarrow> (case put_cf x db CF_KEYS (as_bytes (km_key meta)) v of (r, db) \<Rightarrow> (rocks r, db)))"

definition meta_get_key :: "'db meta_ext \<Rightarrow> string \<Rightarrow> 'db \<Rightarrow> key_metadata option result" where
  "meta_get_key x key db =
     rbind (rocks (get_cf x db CF_KEYS (as_bytes key)))
       (\<lambda>r. case r of
          Some bs \<Rightarrow> (case de_key x bs of Inl e \<Rightarrow> Inl (MetadataCorrupted e) | Inr meta \<Rightarrow> Inr (Some meta))
        | None \<Rightarrow> Inr None)"

definition meta_delete_key :: "'db meta_ext \<Rightarrow> string \<Rightarrow> 'db \<Rightarrow> unit result \<times> 'db" where
  "meta_delete_key x key db = (case delete_cf x db CF_KEYS (as_bytes key) of (r, db) \<Rightarrow> (rocks r, db))"

fun list_keys_loop :: "(string + bytes \<times> bytes) list \<Rightarrow> string list \<Rightarrow> string list result" where
  "list_keys_loop [] keys = Inr keys"
| "list_keys_loop (item # items) keys =
     rbind (rocks item) (\<lambda>(key_bytes, _).
       case from_utf8 key_bytes of
         None \<Rightarrow> Inl (MetadataCorrupted ''Invalid UTF-8'')
       | Some key \<Rightarrow> list_keys_loop items (keys @ [key]))"

definition meta_list_keys :: "'db meta_ext \<Rightarrow> 'db \<Rightarrow> string list result" where
  "meta_list_keys x db = list_keys_loop (iterator_cf x db CF_KEYS) []"

definition put_volume :: "'db meta_ext \<Rightarrow> volume_metadata \<Rightarrow> 'db \<Rightarrow> unit result \<times> 'db" where
  "put_volume x meta db =
     (case ser_volume x meta of
        Inl e \<Rightarrow> (Inl (Internal (''Serialize error: '' @ e)), db)
      | Inr v \<Rightarrow> (case put_cf x db CF_VOLUMES (as_bytes (vm_volume_id meta)) v of (r, db) \<Rightarrow> (rocks r, db)))"

definition get_volume :: "'db meta_ext \<Rightarrow> string \<Rightarrow> 'db \<Rightarrow> volume_metadata option result" where
  "get_volume x volume_id db =
     rbind (rocks (get_cf x db CF_VOLUMES (as_bytes volume_id)))
       (\<lambda>r. case r of
          Some bs \<Rightarrow> (case de_volume x bs of Inl e \<Rightarrow> Inl (MetadataCorrupted e) | Inr meta \<Rightarrow> Inr (Some meta))
        | None \<Rightarrow> Inr None)"

fun list_volumes_loop :: "'db meta_ext \<Rightarrow> (string + bytes \<times> bytes) list \<Rightarrow> volume_metadata list \<Rightarrow> volume_metadata list result" where
  "list_volumes_loop x [] volumes = Inr volumes"
| "list_volumes_loop x (item # items) volumes =
     rbind (rocks item) (\<lambda>(_, value_bytes).
       case de_volume x value_bytes of
         Inl e \<Rightarrow> Inl (MetadataCorrupted e)
       | Inr meta \<Rightarrow> list_volumes_loop x items (volumes @ [meta]))"

definition list_volumes :: "'db meta_ext \<Rightarrow> 'db \<Rightarrow> volume_metadata list result" where
  "list_volumes x db = list_volumes_loop x (iterator_cf x db CF_VOLUMES) []"

definition get_healthy_volumes :: "'db meta_ext \<Rightarrow> 'db \<Rightarrow> volume_metadata list result" where
  "get_healthy_volumes x db = rbind (list_volumes x db) (\<lambda>vs. Inr (filter (\<lambda>v. is_healthy (vm_state v)) vs))"

definition put_config :: "'db meta_ext \<Rightarrow> string \<Rightarrow> bytes \<Rightarrow> 'db \<Rightarrow> unit result \<times> 'db" where
  "put_config x key v db = (case put_cf x db CF_CONFIG (as_bytes key) v of (r, db) \<Rightarrow> (rocks r, db))"

definition get_config :: "'db meta_ext \<Rightarrow> string \<Rightarrow> 'db \<Rightarrow> bytes option result" where
  "get_config x key db = rocks (get_cf x db CF_CONFIG (as_bytes key))"

definition meta_flush :: "'db meta_ext \<Rightarrow> 'db \<Rightarrow> unit result \<times> 'db" where
  "meta_flush x db = (case flush_db x db of (r, db) \<Rightarrow> (rocks r, db))"

section \<open>Lemmas\<close>

lemma rocks_Inr [simp]: "rocks r = Inr v \<longleftrightarrow> r = Inr v"
  by (cases r) simp_all

lemma meta_laws_use:
  assumes "meta_laws x V"
  shows "get_cf x db cf k = Inr r \<Longrightarrow> r = V db cf k"
    "put_cf x db cf k v = (Inr (), db') \<Longrightarrow> V db' = (V db)(cf := (V db cf)(k \<mapsto> v))"
    "put_cf x db cf k v = (Inl e, db') \<Longrightarrow> V db' = V db"
    "delete_cf x db cf k = (Inr (), db') \<Longrightarrow> V db' = (V db)(cf := (V db cf)(k := None))"
    "delete_cf x db cf k = (Inl e, db') \<Longrightarrow> V db' = V db"
    "iterator_cf x db cf = map Inr kvs \<Longrightarrow> sorted (map fst kvs) \<and> distinct (map fst kvs) \<and> map_of kvs = V db cf"
    "ser_key x m = Inr b \<Longrightarrow> de_key x b = Inr m"
    "ser_volume x vm = Inr b \<Longrightarrow> de_volume x b = Inr vm"
proof -
  note laws = assms [unfolded meta_laws_def]
  show "get_cf x db cf k = Inr r \<Longrightarrow> r = V db cf k" by (rule laws [THEN conjunct1, rule_format])
  show "put_cf x db cf k v = (Inr (), db') \<Longrightarrow> V db' = (V db)(cf := (V db cf)(k \<mapsto> v))" by (rule laws [THEN conjunct2, THEN conjunct1, rule_format])
  show "put_cf x db cf k v = (Inl e, db') \<Longrightarrow> V db' = V db" by (rule laws [THEN conjunct2, THEN conjunct2, THEN conjunct1, rule_format])
  show "delete_cf x db cf k = (Inr (), db') \<Longrightarrow> V db' = (V db)(cf := (V db cf)(k := None))" by (rule laws [THEN conjunct2, THEN conjunct2, THEN conjunct2, THEN conjunct1, rule_format])
  show "delete_cf x db cf k = (Inl e, db') \<Longrightarrow> V db' = V db" by (rule laws [THEN conjunct2, THEN conjunct2, THEN conjunct2, THEN conjunct2, THEN conjunct1, rule_format])
  show "iterator_cf x db cf = map Inr kvs \<Longrightarrow> sorted (map fst kvs) \<and> distinct (map fst kvs) \<and> map_of kvs = V db cf" by (rule laws [THEN conjunct2, THEN conjunct2, THEN conjunct2, THEN conjunct2, THEN conjunct2, THEN conjunct1, rule_format])
  show "ser_key x m = Inr b \<Longrightarrow> de_key x b = Inr m" by (rule laws [THEN conjunct2, THEN conjunct2, THEN conjunct2, THEN conjunct2, THEN conjunct2, THEN conjunct2, THEN conjunct1, rule_format])
  show "ser_volume x vm = Inr b \<Longrightarrow> de_volume x b = Inr vm" by (rule laws [THEN conjunct2, THEN conjunct2, THEN conjunct2, THEN conjunct2, THEN conjunct2, THEN conjunct2, THEN conjunct2, rule_format])
qed

lemma list_keys_loop_Inr:
  assumes "list_keys_loop items ks = Inr keys"
  shows "\<exists>kvs. items = map Inr kvs \<and> keys = ks @ map (of_bytes \<circ> fst) kvs \<and> (\<forall>(k, v) \<in> set kvs. utf8_valid k)"
  using assms
proof (induction items arbitrary: ks)
  case (Cons item items)
  then obtain k v where i: "item = Inr (k, v)" "utf8_valid k" "list_keys_loop items (ks @ [of_bytes k]) = Inr keys"
    by (auto simp: res_simps from_utf8_def split: option.splits if_splits)
  with Cons.IH [OF i(3)] obtain kvs where "items = map Inr kvs" "keys = ks @ [of_bytes k] @ map (of_bytes \<circ> fst) kvs"
    "\<forall>(k, v) \<in> set kvs. utf8_valid k" by auto
  with i show ?case by (intro exI [of _ "(k, v) # kvs"]) auto
qed simp

text \<open>Byte strings and their bytes are ordered alike.\<close>

lemma of_char_byte: "of_char (char_of (unat b) :: char) = unat b" for b :: byte
  using unsigned_less [of b, where 'a = nat] by simp

lemma of_bytes_less: "of_bytes a < of_bytes b \<longleftrightarrow> a < b"
proof (induction a b rule: list_induct2')
  case (4 x xs y ys)
  have "(char_of (unat x) :: char) < char_of (unat y) \<longleftrightarrow> x < y"
    unfolding less_char_def of_char_byte word_less_nat_alt ..
  moreover have "(char_of (unat x) :: char) = char_of (unat y) \<longleftrightarrow> x = y"
    by (metis of_char_byte word_unat_eq_iff)
  ultimately show ?case using 4 by (simp add: of_bytes_def)
qed (simp_all add: of_bytes_def)

lemma list_keys_view:
  assumes "meta_laws x V" "meta_list_keys x db = Inr keys"
  shows "sorted keys" "distinct keys" "k \<in> set keys \<longleftrightarrow> V db CF_KEYS (as_bytes k) \<noteq> None"
proof -
  obtain kvs where kvs: "iterator_cf x db CF_KEYS = map Inr kvs" "keys = map of_bytes (map fst kvs)"
    using list_keys_loop_Inr [of "iterator_cf x db CF_KEYS" "[]" keys] assms(2)
    by (auto simp: meta_list_keys_def)
  have v: "sorted (map fst kvs)" "distinct (map fst kvs)" "map_of kvs = V db CF_KEYS"
    using meta_laws_use(6) [OF assms(1) kvs(1)] by simp_all
  have le: "of_bytes a \<le> of_bytes b \<longleftrightarrow> a \<le> b" for a b using of_bytes_less [of b a] by (simp add: not_less [symmetric])
  show "sorted keys" using v(1) unfolding kvs(2) sorted_map le by simp
  have "inj_on of_bytes S" for S by (metis as_bytes_of_bytes inj_onI)
  then show "distinct keys" using v(2) unfolding kvs(2) by (subst distinct_map) blast
  have "k \<in> set keys \<longleftrightarrow> as_bytes k \<in> set (map fst kvs)"
  proof
    assume "as_bytes k \<in> set (map fst kvs)"
    then have "of_bytes (as_bytes k) \<in> of_bytes ` set (map fst kvs)" by (rule imageI)
    then show "k \<in> set keys" using kvs(2) by (simp add: image_image)
  qed (force simp: kvs(2))
  also have "\<dots> \<longleftrightarrow> V db CF_KEYS (as_bytes k) \<noteq> None" unfolding v(3) [symmetric] by (simp add: map_of_eq_None_iff)
  finally show "k \<in> set keys \<longleftrightarrow> V db CF_KEYS (as_bytes k) \<noteq> None" .
qed

lemma put_key_view:
  assumes "meta_laws x V" "meta_put_key x m db = (Inr (), db')"
  obtains b where "ser_key x m = Inr b" "de_key x b = Inr m"
    "V db' = (V db)(CF_KEYS := (V db CF_KEYS)(as_bytes (km_key m) \<mapsto> b))"
proof -
  obtain b where b: "ser_key x m = Inr b" "put_cf x db CF_KEYS (as_bytes (km_key m)) b = (Inr (), db')"
    using assms(2) by (auto simp: meta_put_key_def split: sum.splits prod.splits)
  show ?thesis using meta_laws_use(2,7) [OF assms(1)] b by (intro that [of b])
qed

lemma get_key_view:
  assumes "meta_laws x V" "meta_get_key x k db = Inr r"
  shows "r = Option.bind (V db CF_KEYS (as_bytes k)) (\<lambda>b. case de_key x b of Inr m \<Rightarrow> Some m | Inl _ \<Rightarrow> None)"
    "r = None \<longleftrightarrow> V db CF_KEYS (as_bytes k) = None"
proof -
  obtain o' where o': "get_cf x db CF_KEYS (as_bytes k) = Inr o'"
    using assms(2) by (auto simp: meta_get_key_def res_simps)
  then have "o' = V db CF_KEYS (as_bytes k)" by (rule meta_laws_use(1) [OF assms(1)])
  with assms(2) o' show "r = Option.bind (V db CF_KEYS (as_bytes k)) (\<lambda>b. case de_key x b of Inr m \<Rightarrow> Some m | Inl _ \<Rightarrow> None)"
    "r = None \<longleftrightarrow> V db CF_KEYS (as_bytes k) = None"
    by (auto simp: meta_get_key_def split: option.splits sum.splits)
qed

section \<open>A database as a map\<close>

text \<open>The metadata that a database holds, by key.\<close>

definition meta_map :: "'db meta_ext \<Rightarrow> ('db \<Rightarrow> string \<Rightarrow> bytes \<rightharpoonup> bytes) \<Rightarrow> 'db \<Rightarrow> string \<rightharpoonup> key_metadata" where
  "meta_map x V db k =
     Option.bind (V db CF_KEYS (as_bytes k)) (\<lambda>b. case de_key x b of Inr m \<Rightarrow> Some m | Inl _ \<Rightarrow> None)"

text \<open>No operation of the database fails, and the metadata of a batch can be encoded.\<close>

definition meta_works :: "'db meta_ext \<Rightarrow> bool" where
  "meta_works x \<longleftrightarrow>
     (\<forall>db cf k v. fst (put_cf x db cf k v) = Inr ()) \<and> (\<forall>db cf k. fst (delete_cf x db cf k) = Inr ()) \<and>
     (\<forall>db cf k. \<exists>r. get_cf x db cf k = Inr r) \<and> (\<forall>k n. \<exists>b. ser_key x (plain_key k n) = Inr b)"

text \<open>Every stored entry can be decoded.\<close>

definition meta_sound :: "'db meta_ext \<Rightarrow> ('db \<Rightarrow> string \<Rightarrow> bytes \<rightharpoonup> bytes) \<Rightarrow> 'db \<Rightarrow> bool" where
  "meta_sound x V db \<longleftrightarrow> (\<forall>k b. V db CF_KEYS k = Some b \<longrightarrow> (\<exists>m. de_key x b = Inr m))"

lemma meta_works_use:
  assumes "meta_works x"
  shows "put_cf x db cf k v = (r, db') \<Longrightarrow> r = Inr ()" "delete_cf x db cf k = (r, db') \<Longrightarrow> r = Inr ()"
    "get_cf x db cf k \<noteq> Inl e" "ser_key x (plain_key key n) \<noteq> Inl e"
proof -
  have w: "fst (put_cf x db cf k v) = Inr ()" "fst (delete_cf x db cf k) = Inr ()"
    "\<exists>r. get_cf x db cf k = Inr r" "\<exists>b. ser_key x (plain_key key n) = Inr b"
    using assms unfolding meta_works_def by blast+
  show "put_cf x db cf k v = (r, db') \<Longrightarrow> r = Inr ()" "delete_cf x db cf k = (r, db') \<Longrightarrow> r = Inr ()"
    "get_cf x db cf k \<noteq> Inl e" "ser_key x (plain_key key n) \<noteq> Inl e"
    using w by auto
qed

lemma meta_map_cong: "V db' = V db \<Longrightarrow> meta_map x V db' = meta_map x V db"
  by (simp add: meta_map_def fun_eq_iff)

lemma meta_sound_cong: "V db' = V db \<Longrightarrow> meta_sound x V db' = meta_sound x V db"
  by (simp add: meta_sound_def)

lemma put_key_map:
  assumes "meta_laws x V" "meta_put_key x m db = (Inr (), db')"
  shows "meta_map x V db' = (meta_map x V db)(km_key m \<mapsto> m)" "meta_sound x V db \<Longrightarrow> meta_sound x V db'"
proof -
  obtain b where b: "de_key x b = Inr m" "V db' = (V db)(CF_KEYS := (V db CF_KEYS)(as_bytes (km_key m) \<mapsto> b))"
    using put_key_view [OF assms] .
  then show "meta_map x V db' = (meta_map x V db)(km_key m \<mapsto> m)"
    by (auto simp: meta_map_def fun_eq_iff)
  show "meta_sound x V db \<Longrightarrow> meta_sound x V db'"
    using b by (auto simp: meta_sound_def)
qed

lemma put_key_failed:
  assumes "meta_laws x V" "meta_put_key x m db = (Inl e, db')"
  shows "V db' = V db" "m = plain_key k n \<Longrightarrow> \<not> meta_works x"
proof -
  have f: "(\<exists>e. ser_key x m = Inl e) \<and> db' = db \<or> (\<exists>v e. put_cf x db CF_KEYS (as_bytes (km_key m)) v = (Inl e, db'))"
    using assms(2) by (auto simp: meta_put_key_def split: sum.splits prod.splits elim!: rocks.elims)
  then show "V db' = V db" using meta_laws_use(3) [OF assms(1)] by auto
  show "m = plain_key k n \<Longrightarrow> \<not> meta_works x" using f meta_works_use(1,4) [of x] by blast
qed

lemma delete_key_map:
  assumes "meta_laws x V" "meta_delete_key x k db = (Inr (), db')"
  shows "meta_map x V db' = (meta_map x V db)(k := None)" "meta_sound x V db \<Longrightarrow> meta_sound x V db'"
proof -
  have "delete_cf x db CF_KEYS (as_bytes k) = (Inr (), db')"
    using assms(2) by (auto simp: meta_delete_key_def split: prod.splits)
  then have "V db' = (V db)(CF_KEYS := (V db CF_KEYS)(as_bytes k := None))"
    by (rule meta_laws_use(4) [OF assms(1)])
  then show "meta_map x V db' = (meta_map x V db)(k := None)" "meta_sound x V db \<Longrightarrow> meta_sound x V db'"
    by (auto simp: meta_map_def meta_sound_def fun_eq_iff)
qed

lemma delete_key_failed:
  assumes "meta_laws x V" "meta_delete_key x k db = (Inl e, db')"
  shows "V db' = V db" "\<not> meta_works x"
proof -
  obtain e' where d: "delete_cf x db CF_KEYS (as_bytes k) = (Inl e', db')"
    using assms(2) by (auto simp: meta_delete_key_def split: prod.splits elim!: rocks.elims)
  show "V db' = V db" by (rule meta_laws_use(5) [OF assms(1) d])
  show "\<not> meta_works x" using d meta_works_use(2) [of x] by blast
qed

lemma get_key_map:
  assumes "meta_laws x V" "meta_get_key x k db = Inr r"
  shows "r = meta_map x V db k"
  using get_key_view(1) [OF assms] by (simp add: meta_map_def)

lemma get_key_unreadable:
  assumes "meta_laws x V" "meta_get_key x k db = Inl e"
  shows "meta_works x \<Longrightarrow> meta_map x V db k = None" "meta_sound x V db \<Longrightarrow> \<not> meta_works x"
proof -
  have c: "\<exists>b e. V db CF_KEYS (as_bytes k) = Some b \<and> de_key x b = Inl e" if w: "meta_works x"
  proof -
    obtain r where r: "get_cf x db CF_KEYS (as_bytes k) = Inr r"
      using meta_works_use(3) [OF w, of db CF_KEYS "as_bytes k"] by (cases "get_cf x db CF_KEYS (as_bytes k)") auto
    then have "r = V db CF_KEYS (as_bytes k)" by (rule meta_laws_use(1) [OF assms(1)])
    then show ?thesis
      using assms(2) r by (auto simp: meta_get_key_def split: option.splits sum.splits)
  qed
  then show "meta_works x \<Longrightarrow> meta_map x V db k = None" by (auto simp: meta_map_def)
  show "meta_sound x V db \<Longrightarrow> \<not> meta_works x"
    using c unfolding meta_sound_def by (metis sum.distinct(1))
qed

section \<open>An instance\<close>

text \<open>
  A database that keeps every column family as an association list and delivers it
  sorted. It stores the metadata of batches, and volumes that are known by their
  identifier only.
\<close>

type_synonym demo_db = "string \<Rightarrow> (bytes \<times> bytes) list"

definition plain_volume :: "string \<Rightarrow> volume_metadata" where
  "plain_volume i = \<lparr>vm_volume_id = i, vm_address = [], vm_grpc_address = [], vm_state = Alive, vm_shards = [],
     vm_total_keys = 0, vm_total_bytes = 0, vm_free_bytes = 0, vm_last_heartbeat = 0\<rparr>"

definition demo_meta :: "demo_db meta_ext" where
  "demo_meta = \<lparr>open_cf = (\<lambda>path cfs. Inr (\<lambda>_. [])),
     put_cf = (\<lambda>db cf k v. (Inr (), db(cf := (k, v) # filter (\<lambda>e. fst e \<noteq> k) (db cf)))),
     get_cf = (\<lambda>db cf k. Inr (map_of (db cf) k)),
     delete_cf = (\<lambda>db cf k. (Inr (), db(cf := filter (\<lambda>e. fst e \<noteq> k) (db cf)))),
     iterator_cf = (\<lambda>db cf. if distinct (map fst (db cf)) then map Inr (sort_key fst (db cf)) else [Inl ''duplicate'']),
     flush_db = (\<lambda>db. (Inr (), db)),
     ser_key = (\<lambda>m. if m = plain_key (km_key m) (km_size m) then Inr (u64_to_le (km_size m) @ as_bytes (km_key m)) else Inl ''unsupported''),
     de_key = (\<lambda>b. Inr (plain_key (of_bytes (drop 8 b)) (u64_from_le (take 8 b)))),
     ser_volume = (\<lambda>v. if v = plain_volume (vm_volume_id v) then Inr (as_bytes (vm_volume_id v)) else Inl ''unsupported''),
     de_volume = (\<lambda>b. Inr (plain_volume (of_bytes b)))\<rparr>"

definition demo_view :: "demo_db \<Rightarrow> string \<Rightarrow> bytes \<rightharpoonup> bytes" where
  "demo_view db cf = map_of (db cf)"

lemma map_of_filter_out: "map_of (filter (\<lambda>e. fst e \<noteq> k) es) = (map_of es)(k := None)"
  by (induction es) (auto simp: fun_eq_iff)

lemma map_of_sort_key: "distinct (map fst es) \<Longrightarrow> map_of (sort_key fst es) = map_of es"
  by (subst map_of_inject_set) (simp_all add: distinct_map)

lemma demo_meta_laws: "meta_laws demo_meta demo_view"
proof -
  have iter: "sorted (map fst kvs) \<and> distinct (map fst kvs) \<and> map_of kvs = map_of (db cf)"
    if "iterator_cf demo_meta db cf = map Inr kvs" for db :: demo_db and cf kvs
  proof -
    have d: "distinct (map fst (db cf))" using that by (cases kvs) (auto simp: demo_meta_def split: if_splits)
    then have "kvs = sort_key fst (db cf)" using that by (simp add: demo_meta_def inj_map_eq_map)
    then show ?thesis using d map_of_sort_key [OF d] by (simp add: distinct_map)
  qed
  have key: "de_key demo_meta b = Inr m" if "ser_key demo_meta m = Inr b" for m b
    using that by (cases "m = plain_key (km_key m) (km_size m)") (auto simp: demo_meta_def split: if_splits)
  have vol: "de_volume demo_meta b = Inr m" if "ser_volume demo_meta m = Inr b" for m b
    using that by (auto simp: demo_meta_def split: if_splits)
  have upd: "demo_view (db(cf := es)) = (demo_view db)(cf := map_of es)" for db cf es
    by (auto simp: demo_view_def)
  show ?thesis
    unfolding meta_laws_def
  proof (intro conjI allI impI)
    show "sorted (map fst kvs)" "distinct (map fst kvs)" "map_of kvs = demo_view db cf"
      if "iterator_cf demo_meta db cf = map Inr kvs" for db cf kvs
      using iter [OF that] by (simp_all add: demo_view_def)
  qed (use key vol in \<open>auto simp: demo_meta_def upd map_of_filter_out\<close>, simp_all add: demo_view_def)
qed

lemma demo_meta_works: "meta_works demo_meta"
  by (auto simp: meta_works_def demo_meta_def plain_key_def)

end
