(* ===== verification/Placement.thy ===== *)
theory Placement
  imports Hash Metadata
begin

text \<open>
  \<open>src/src/coordinator/placement.rs\<close>: selection of the volumes that hold a key. The
  selection among the healthy volumes is the ranking of \<open>Hash\<close>, whose lemmas from the
  locale \<open>node_ranking\<close> give what is shown here.
\<close>

section \<open>The model\<close>

record placement_manager =
  pm_ring :: hash_ring
  pm_replicas :: nat
  pm_num_shards :: u64

definition placement_new :: "u64 \<Rightarrow> nat \<Rightarrow> placement_manager" where
  "placement_new n replicas = \<lparr>pm_ring = ring_new n, pm_replicas = replicas, pm_num_shards = n\<rparr>"

definition healthy_ids :: "volume_metadata list \<Rightarrow> string list" where
  "healthy_ids volumes = map vm_volume_id (filter (\<lambda>v. is_healthy (vm_state v)) volumes)"

definition select_volumes ::
  "(bytes \<Rightarrow> bytes) \<Rightarrow> string \<Rightarrow> volume_metadata list \<Rightarrow> placement_manager \<Rightarrow> string list result" where
  "select_volumes digest key volumes pm =
     (if volumes = [] then Inl NoHealthyVolumes
      else let healthy = healthy_ids volumes in
           if healthy = [] then Inl NoHealthyVolumes
           else let selected = select_replicas digest key healthy (pm_replicas pm) in
                if length selected < pm_replicas pm
                then Inl (InsufficientReplicas (pm_replicas pm) (length selected))
                else Inr selected)"

definition get_shard :: "(bytes \<Rightarrow> bytes) \<Rightarrow> string \<Rightarrow> placement_manager \<Rightarrow> u64 option" where
  "get_shard digest key pm = shard_key digest key (pm_num_shards pm)"

definition placement_rebalance :: "(bytes \<Rightarrow> bytes) \<Rightarrow> volume_metadata list \<Rightarrow> placement_manager \<Rightarrow> placement_manager" where
  "placement_rebalance digest volumes pm =
     pm\<lparr>pm_ring := rebalance digest (healthy_ids volumes) (pm_replicas pm) (pm_ring pm)\<rparr>"

definition get_shard_volumes :: "placement_manager \<Rightarrow> u64 \<Rightarrow> string list option" where
  "get_shard_volumes pm shard = get_shard_nodes (pm_ring pm) shard"

section \<open>Properties\<close>

lemma sorted_wrt_take_drop:
  assumes "sorted_wrt R xs" "a \<in> set (take n xs)" "b \<in> set (drop n xs)"
  shows "R a b"
  using assms by (metis append_take_drop_id sorted_wrt_append)

text \<open>
  Selection of volumes: the answer depends only on how many healthy volumes there are.
  Without any, there are no healthy volumes; with fewer than the replication factor asks
  for, the error says how many; otherwise as many volumes as asked for are selected,
  all healthy, none twice, and no healthy volume that was left out has a larger weight for
  the key than a selected one.
\<close>

theorem select_volumes_outcome:
  assumes "hs = healthy_ids volumes" and "distinct hs" and "0 < pm_replicas pm"
  shows "(hs = [] \<longrightarrow> select_volumes digest key volumes pm = Inl NoHealthyVolumes) \<and>
    (hs \<noteq> [] \<longrightarrow> length hs < pm_replicas pm \<longrightarrow>
       select_volumes digest key volumes pm = Inl (InsufficientReplicas (pm_replicas pm) (length hs))) \<and>
    (pm_replicas pm \<le> length hs \<longrightarrow>
       (\<exists>sel. select_volumes digest key volumes pm = Inr sel \<and> length sel = pm_replicas pm \<and> distinct sel \<and>
          set sel \<subseteq> set hs \<and>
          (\<forall>a \<in> set sel. \<forall>b \<in> set hs - set sel. hrw_weight digest key b \<le> hrw_weight digest key a)))"
proof (intro conjI impI)
  let ?r = "hrw_hash digest key hs" and ?sel = "select_replicas digest key hs (pm_replicas pm)"
  have len: "length ?sel = min (pm_replicas pm) (length hs)"
    unfolding select_replicas_def by (rule hrw.select_length)
  show "select_volumes digest key volumes pm = Inl NoHealthyVolumes" if "hs = []"
    using that assms(1) by (simp add: select_volumes_def)
  show "select_volumes digest key volumes pm = Inl (InsufficientReplicas (pm_replicas pm) (length hs))"
    if "hs \<noteq> []" "length hs < pm_replicas pm"
    using that assms(1) len by (auto simp: select_volumes_def Let_def healthy_ids_def)
  assume enough: "pm_replicas pm \<le> length hs"
  then have "hs \<noteq> []" using assms(3) by auto
  then have sel: "select_volumes digest key volumes pm = Inr ?sel"
    using enough assms(1) len by (auto simp: select_volumes_def Let_def healthy_ids_def)
  have "distinct ?sel" "set ?sel \<subseteq> set hs"
    unfolding select_replicas_def using assms(2) hrw.rank_distinct hrw.rank_set
    by (metis distinct_take, metis set_take_subset)
  moreover have "hrw_weight digest key b \<le> hrw_weight digest key a" if "a \<in> set ?sel" "b \<in> set hs - set ?sel" for a b
  proof -
    have "b \<in> set ?r" using that(2) hrw.rank_set [of digest key hs] by simp
    then have "b \<in> set (drop (pm_replicas pm) ?r)"
      using that(2) by (metis DiffD2 Un_iff append_take_drop_id select_replicas_def set_append)
    then show ?thesis using that(1) sorted_wrt_take_drop [OF hrw_sorted] by (simp add: select_replicas_def)
  qed
  ultimately show "\<exists>sel. select_volumes digest key volumes pm = Inr sel \<and> length sel = pm_replicas pm \<and> distinct sel \<and>
      set sel \<subseteq> set hs \<and> (\<forall>a \<in> set sel. \<forall>b \<in> set hs - set sel. hrw_weight digest key b \<le> hrw_weight digest key a)"
    using sel len enough by (intro exI [of _ ?sel]) simp
qed

theorem select_volumes_outcome_witness:
  "\<exists>sel. select_volumes sum_digest ''k'' [plain_volume ''a'', plain_volume ''b'', (plain_volume ''c'')\<lparr>vm_state := Dead\<rparr>]
      (placement_new 256 2) = Inr sel \<and> length sel = 2 \<and> set sel \<subseteq> {''a'', ''b''}"
  using select_volumes_outcome [of "[''a'', ''b'']" "[plain_volume ''a'', plain_volume ''b'', (plain_volume ''c'')\<lparr>vm_state := Dead\<rparr>]"
      "placement_new 256 2" sum_digest "''k''"]
  by (auto simp: healthy_ids_def plain_volume_def placement_new_def)

end
