(* ===== verification/Auth.thy ===== *)
theory Auth
  imports Errors
begin

text \<open>
  \<open>src/src/common/auth.rs\<close> and \<open>src/src/common/auth_middleware.rs\<close>: API keys, tokens,
  roles and the middleware that guards the routes. The crates \<open>argon2\<close>, \<open>base64\<close> and
  \<open>jsonwebtoken\<close> are the record \<open>auth_ext\<close>; random bytes, salts, fresh
  identifiers and the clock are arguments. \<open>auth_laws\<close> states what the code relies on:
  a password hash can be parsed and verifies exactly the password it was made from, and a
  token that has not expired decodes to the claims it was made from.
\<close>

section \<open>Roles, keys and contexts\<close>

definition DEFAULT_JWT_SECRET :: string where
  "DEFAULT_JWT_SECRET = ''minikv-default-secret-change-in-production''"

definition API_KEY_PREFIX :: string where "API_KEY_PREFIX = ''mkv_''"
definition API_KEY_LENGTH :: nat where "API_KEY_LENGTH = 32"
definition JWT_EXPIRATION_HOURS :: u64 where "JWT_EXPIRATION_HOURS = 24"

datatype role = Admin | ReadWrite | ReadOnly

fun role_can_write :: "role \<Rightarrow> bool" where
  "role_can_write Admin = True"
| "role_can_write ReadWrite = True"
| "role_can_write ReadOnly = False"

fun role_can_admin :: "role \<Rightarrow> bool" where
  "role_can_admin Admin = True"
| "role_can_admin _ = False"

definition role_can_read :: "role \<Rightarrow> bool" where
  "role_can_read r = True"

record api_key =
  ak_id :: string
  ak_name :: string
  ak_key_hash :: string
  ak_tenant :: string
  ak_role :: role
  ak_created_at :: u64
  ak_expires_at :: "u64 option"
  ak_active :: bool
  ak_last_used_at :: "u64 option"

definition key_is_expired :: "u64 \<Rightarrow> api_key \<Rightarrow> bool" where
  "key_is_expired now k = (case ak_expires_at k of Some e \<Rightarrow> now \<ge> e | None \<Rightarrow> False)"

definition key_is_valid :: "u64 \<Rightarrow> api_key \<Rightarrow> bool" where
  "key_is_valid now k \<longleftrightarrow> ak_active k \<and> \<not> key_is_expired now k"

record claims =
  cl_sub :: string
  cl_tenant :: string
  cl_role :: role
  cl_exp :: u64
  cl_iat :: u64

record auth_context =
  ctx_key_id :: string
  ctx_tenant :: string
  ctx_role :: role

definition ctx_can_write :: "auth_context \<Rightarrow> bool" where
  "ctx_can_write c = role_can_write (ctx_role c)"

definition ctx_can_admin :: "auth_context \<Rightarrow> bool" where
  "ctx_can_admin c = role_can_admin (ctx_role c)"

datatype auth_result =
    AuthOk auth_context
  | AuthMissing
  | AuthInvalid string
  | AuthExpired
  | AuthForbidden string

datatype auth_error =
    HashError string
  | JwtError string
  | KeyNotFound string
  | Unauthorized string
  | Forbidden string

section \<open>The key store\<close>

record 'h auth_ext =
  hash_password :: "bytes \<Rightarrow> string \<Rightarrow> string + string"
  parse_hash :: "string \<Rightarrow> 'h option"
  verify_password :: "bytes \<Rightarrow> 'h \<Rightarrow> bool"
  base64_url :: "bytes \<Rightarrow> string"
  jwt_encode :: "claims \<Rightarrow> bytes \<Rightarrow> string + string"
  jwt_decode :: "u64 \<Rightarrow> string \<Rightarrow> bytes \<Rightarrow> string + claims"

definition auth_laws :: "'h auth_ext \<Rightarrow> bool" where
  "auth_laws x \<longleftrightarrow>
     (\<forall>p s h. hash_password x p s = Inr h \<longrightarrow> (\<exists>ph. parse_hash x h = Some ph \<and> (\<forall>q. verify_password x q ph \<longleftrightarrow> q = p))) \<and>
     (\<forall>c sec tok now. jwt_encode x c sec = Inr tok \<longrightarrow> now < cl_exp c \<longrightarrow> jwt_decode x now tok sec = Inr c)"

record key_store =
  ks_keys :: "(string, api_key) hashmap"
  ks_hash_to_id :: "(string, string) hashmap"
  ks_jwt_secret :: bytes

definition with_secret :: "bytes \<Rightarrow> key_store" where
  "with_secret secret = \<lparr>ks_keys = [], ks_hash_to_id = [], ks_jwt_secret = secret\<rparr>"

definition keystore_new :: key_store where
  "keystore_new = with_secret (as_bytes DEFAULT_JWT_SECRET)"

text \<open>
  \<open>random_bytes\<close>, \<open>salt\<close> and \<open>key_id\<close> are what the random generators deliver, \<open>now\<close> is
  the clock in milliseconds and \<open>expires_in\<close> a duration in nanoseconds.
\<close>

definition as_millis :: "nat \<Rightarrow> u64" where
  "as_millis d = word_of_nat (d div 1000000)"

definition plaintext_of :: "'h auth_ext \<Rightarrow> bytes \<Rightarrow> string" where
  "plaintext_of x random_bytes = API_KEY_PREFIX @ base64_url x random_bytes"

definition generate_key ::
  "'h auth_ext \<Rightarrow> bytes \<Rightarrow> string \<Rightarrow> string \<Rightarrow> u64 \<Rightarrow> string \<Rightarrow> string \<Rightarrow> role \<Rightarrow> nat option \<Rightarrow> key_store
     \<Rightarrow> (auth_error + string \<times> string) \<times> key_store" where
  "generate_key x random_bytes key_id salt now name tenant r expires_in ks =
     (let plaintext_key = plaintext_of x random_bytes in
      case hash_password x (as_bytes plaintext_key) salt of
        Inl e \<Rightarrow> (Inl (HashError e), ks)
      | Inr key_hash \<Rightarrow>
          let expires_at = map_option (\<lambda>d. now + as_millis d) expires_in;
              api_key = \<lparr>ak_id = key_id, ak_name = name, ak_key_hash = key_hash, ak_tenant = tenant, ak_role = r,
                         ak_created_at = now, ak_expires_at = expires_at, ak_active = True, ak_last_used_at = None\<rparr>
          in (Inr (key_id, plaintext_key),
              ks\<lparr>ks_keys := hm_insert key_id api_key (ks_keys ks),
                 ks_hash_to_id := hm_insert key_hash key_id (ks_hash_to_id ks)\<rparr>))"

definition key_matches :: "'h auth_ext \<Rightarrow> string \<Rightarrow> api_key \<Rightarrow> bool" where
  "key_matches x key k =
     (case parse_hash x (ak_key_hash k) of Some ph \<Rightarrow> verify_password x (as_bytes key) ph | None \<Rightarrow> False)"

fun validate_loop :: "'h auth_ext \<Rightarrow> u64 \<Rightarrow> string \<Rightarrow> api_key list \<Rightarrow> auth_result" where
  "validate_loop x now key [] = AuthInvalid ''Invalid API key''"
| "validate_loop x now key (k # ks) =
     (if key_matches x key k then
        if \<not> ak_active k then AuthInvalid ''Key is disabled''
        else if key_is_expired now k then AuthExpired
        else AuthOk \<lparr>ctx_key_id = ak_id k, ctx_tenant = ak_tenant k, ctx_role = ak_role k\<rparr>
      else validate_loop x now key ks)"

definition starts_with :: "string \<Rightarrow> string \<Rightarrow> bool" where
  "starts_with s p \<longleftrightarrow> take (length p) s = p"

definition validate_key :: "'h auth_ext \<Rightarrow> u64 \<Rightarrow> string \<Rightarrow> key_store \<Rightarrow> auth_result" where
  "validate_key x now key ks =
     (if \<not> starts_with key API_KEY_PREFIX then AuthInvalid ''Invalid key format''
      else validate_loop x now key (map snd (ks_keys ks)))"

definition generate_jwt :: "'h auth_ext \<Rightarrow> u64 \<Rightarrow> auth_context \<Rightarrow> key_store \<Rightarrow> auth_error + string" where
  "generate_jwt x now auth ks =
     (case jwt_encode x \<lparr>cl_sub = ctx_key_id auth, cl_tenant = ctx_tenant auth, cl_role = ctx_role auth,
                          cl_exp = now + JWT_EXPIRATION_HOURS * 3600, cl_iat = now\<rparr> (ks_jwt_secret ks) of
        Inl e \<Rightarrow> Inl (JwtError e)
      | Inr tok \<Rightarrow> Inr tok)"

definition validate_jwt :: "'h auth_ext \<Rightarrow> u64 \<Rightarrow> string \<Rightarrow> key_store \<Rightarrow> auth_result" where
  "validate_jwt x now token ks =
     (case jwt_decode x now token (ks_jwt_secret ks) of
        Inr c \<Rightarrow> if now \<ge> cl_exp c then AuthExpired
                 else AuthOk \<lparr>ctx_key_id = cl_sub c, ctx_tenant = cl_tenant c, ctx_role = cl_role c\<rparr>
      | Inl e \<Rightarrow> AuthInvalid (''Invalid JWT: '' @ e))"

text \<open>
  \<open>str::to_lowercase\<close> as far as a comparison with an ASCII word can tell: besides the
  ASCII capitals only the Kelvin sign U+212A has a single ASCII letter as its lower case,
  every other character keeps a non-ASCII one.
\<close>

definition lower_char :: "char \<Rightarrow> char" where
  "lower_char c = (if 65 \<le> (of_char c :: nat) \<and> (of_char c :: nat) \<le> 90 then char_of (of_char c + 32 :: nat) else c)"

fun to_lowercase :: "string \<Rightarrow> string" where
  "to_lowercase (a # b # c # s) =
     (if a = CHR 0xE2 \<and> b = CHR 0x84 \<and> c = CHR 0xAA then CHR ''k'' # to_lowercase s
      else lower_char a # to_lowercase (b # c # s))"
| "to_lowercase s = map lower_char s"

text \<open>\<open>splitn(2, ' ')\<close> gives two parts exactly when there is a space.\<close>

definition split_space :: "string \<Rightarrow> (string \<times> string) option" where
  "split_space s =
     (case dropWhile (\<lambda>c. c \<noteq> CHR '' '') s of [] \<Rightarrow> None | _ # rest \<Rightarrow> Some (takeWhile (\<lambda>c. c \<noteq> CHR '' '') s, rest))"

text \<open>The clock is read in seconds for tokens and in milliseconds for keys.\<close>

definition authenticate :: "'h auth_ext \<Rightarrow> u64 \<Rightarrow> u64 \<Rightarrow> string \<Rightarrow> key_store \<Rightarrow> auth_result" where
  "authenticate x now_secs now_ms auth_header ks =
     (case split_space auth_header of
        None \<Rightarrow> AuthInvalid ''Invalid Authorization header format''
      | Some (scheme, cred) \<Rightarrow>
          if to_lowercase scheme = ''bearer'' then validate_jwt x now_secs cred ks
          else if to_lowercase scheme = ''apikey'' then validate_key x now_ms cred ks
          else AuthInvalid (''Unknown auth scheme: '' @ scheme))"

definition get_api_key :: "key_store \<Rightarrow> string \<Rightarrow> api_key option" where
  "get_api_key ks key_id = hm_get (ks_keys ks) key_id"

definition list_api_keys :: "key_store \<Rightarrow> api_key list" where
  "list_api_keys ks = map snd (ks_keys ks)"

definition list_keys_for_tenant :: "key_store \<Rightarrow> string \<Rightarrow> api_key list" where
  "list_keys_for_tenant ks tenant = filter (\<lambda>k. ak_tenant k = tenant) (map snd (ks_keys ks))"

definition revoke_key :: "string \<Rightarrow> key_store \<Rightarrow> (auth_error + unit) \<times> key_store" where
  "revoke_key key_id ks =
     (case hm_get (ks_keys ks) key_id of
        Some k \<Rightarrow> (Inr (), ks\<lparr>ks_keys := hm_insert key_id (k\<lparr>ak_active := False\<rparr>) (ks_keys ks)\<rparr>)
      | None \<Rightarrow> (Inl (KeyNotFound key_id), ks))"

definition delete_api_key :: "string \<Rightarrow> key_store \<Rightarrow> (auth_error + unit) \<times> key_store" where
  "delete_api_key key_id ks =
     (case hm_get (ks_keys ks) key_id of
        Some k \<Rightarrow> (Inr (), ks\<lparr>ks_keys := hm_remove key_id (ks_keys ks),
                              ks_hash_to_id := hm_remove (ak_key_hash k) (ks_hash_to_id ks)\<rparr>)
      | None \<Rightarrow> (Inl (KeyNotFound key_id), ks))"

definition touch_key :: "u64 \<Rightarrow> string \<Rightarrow> key_store \<Rightarrow> key_store" where
  "touch_key now key_id ks =
     (case hm_get (ks_keys ks) key_id of
        Some k \<Rightarrow> ks\<lparr>ks_keys := hm_insert key_id (k\<lparr>ak_last_used_at := Some now\<rparr>) (ks_keys ks)\<rparr>
      | None \<Rightarrow> ks)"

section \<open>The middleware\<close>

record auth_config =
  ac_enabled :: bool
  ac_jwt_secret :: "string option"
  ac_require_auth_for_reads :: bool
  ac_public_paths :: "string list"

definition auth_config_default :: auth_config where
  "auth_config_default = \<lparr>ac_enabled = False, ac_jwt_secret = None, ac_require_auth_for_reads = False,
     ac_public_paths = [''/health'', ''/health/ready'', ''/health/live'', ''/metrics'']\<rparr>"

record auth_state =
  as_key_store :: key_store
  as_config :: auth_config

text \<open>The default state shares the global key store.\<close>

definition auth_state_default :: "key_store \<Rightarrow> auth_state" where
  "auth_state_default global_store = \<lparr>as_key_store = global_store, as_config = auth_config_default\<rparr>"

text \<open>
  A request as far as the middleware sees it. Header names are in lower case as the
  \<open>http\<close> crate keeps them; \<open>rq_ext\<close> is the \<open>AuthExtension\<close>, \<open>None\<close> when there is none.
\<close>

record http_request =
  rq_method :: string
  rq_path :: string
  rq_headers :: "(string \<times> bytes) list"
  rq_ext :: "auth_context option option"

text \<open>A middleware either runs the rest of the stack on a request or answers itself.\<close>

datatype mw_outcome = Next http_request | Respond nat "(string \<times> string) list"

definition header_to_str :: "bytes \<Rightarrow> string option" where
  "header_to_str bs = (if list_all (\<lambda>b. b = 9 \<or> (32 \<le> b \<and> b < 127)) bs then Some (of_bytes bs) else None)"

definition header_get :: "http_request \<Rightarrow> string \<Rightarrow> string option" where
  "header_get rq name = Option.bind (map_of (rq_headers rq) name) header_to_str"

definition set_ext :: "auth_context option \<Rightarrow> http_request \<Rightarrow> http_request" where
  "set_ext c rq = rq\<lparr>rq_ext := Some c\<rparr>"

fun respond_auth :: "auth_result \<Rightarrow> nat \<times> (string \<times> string) list" where
  "respond_auth AuthMissing = (401, [(''error'', ''Authentication required''),
     (''hint'', ''Provide Authorization header with '' @ [CHR 0x27] @ ''Bearer <jwt>'' @ [CHR 0x27] @ '' or '' @ [CHR 0x27] @ ''ApiKey <key>'' @ [CHR 0x27])])"
| "respond_auth (AuthInvalid msg) = (401, [(''error'', ''Invalid credentials''), (''message'', msg)])"
| "respond_auth AuthExpired = (401, [(''error'', ''Credentials expired''),
     (''hint'', ''Please generate a new API key or refresh your token'')])"
| "respond_auth (AuthForbidden msg) = (403, [(''error'', ''Access denied''), (''message'', msg)])"
| "respond_auth (AuthOk c) = (200, [])"

definition is_read_method :: "string \<Rightarrow> bool" where
  "is_read_method m \<longleftrightarrow> m \<in> {''GET'', ''HEAD'', ''OPTIONS''}"

definition is_public :: "auth_config \<Rightarrow> string \<Rightarrow> bool" where
  "is_public cfg path \<longleftrightarrow> list_ex (\<lambda>p. starts_with path p) (ac_public_paths cfg)"

definition credentials ::
  "'h auth_ext \<Rightarrow> u64 \<Rightarrow> u64 \<Rightarrow> key_store \<Rightarrow> http_request \<Rightarrow> auth_result option" where
  "credentials x now_secs now_ms ks rq =
     (case header_get rq ''authorization'' of
        Some h \<Rightarrow> Some (authenticate x now_secs now_ms h ks)
      | None \<Rightarrow> (case header_get rq ''x-api-key'' of
          Some key \<Rightarrow> Some (validate_key x now_ms key ks)
        | None \<Rightarrow> None))"

definition auth_middleware ::
  "'h auth_ext \<Rightarrow> u64 \<Rightarrow> u64 \<Rightarrow> auth_state \<Rightarrow> http_request \<Rightarrow> mw_outcome \<times> auth_state" where
  "auth_middleware x now_secs now_ms st rq =
     (if \<not> ac_enabled (as_config st) then (Next (set_ext None rq), st)
      else if is_public (as_config st) (rq_path rq) then (Next (set_ext None rq), st)
      else case credentials x now_secs now_ms (as_key_store st) rq of
             None \<Rightarrow> if is_read_method (rq_method rq) \<and> \<not> ac_require_auth_for_reads (as_config st)
                     then (Next (set_ext None rq), st)
                     else (case_prod Respond (respond_auth AuthMissing), st)
           | Some (AuthOk c) \<Rightarrow>
               (Next (set_ext (Some c) rq), st\<lparr>as_key_store := touch_key now_ms (ctx_key_id c) (as_key_store st)\<rparr>)
           | Some res \<Rightarrow> (case_prod Respond (respond_auth res), st))"

fun role_debug :: "role \<Rightarrow> string" where
  "role_debug Admin = ''Admin''"
| "role_debug ReadWrite = ''ReadWrite''"
| "role_debug ReadOnly = ''ReadOnly''"

definition require_write_middleware :: "http_request \<Rightarrow> mw_outcome" where
  "require_write_middleware rq =
     (case rq_ext rq of
        Some (Some c) \<Rightarrow>
          if \<not> ctx_can_write c
          then Respond 403 [(''error'', ''Write permission required''), (''role'', role_debug (ctx_role c))]
          else Next rq
      | _ \<Rightarrow> Next rq)"

definition require_admin_middleware :: "http_request \<Rightarrow> mw_outcome" where
  "require_admin_middleware rq =
     (case rq_ext rq of
        Some (Some c) \<Rightarrow>
          if \<not> ctx_can_admin c
          then Respond 403 [(''error'', ''Admin permission required''), (''role'', role_debug (ctx_role c))]
          else Next rq
      | _ \<Rightarrow> Respond 403 [(''error'', ''Admin permission required''), (''hint'', ''Authenticate with an admin API key'')])"

definition request_context :: "http_request \<Rightarrow> auth_context option" where
  "request_context rq = Option.bind (rq_ext rq) id"

definition get_tenant_from_request :: "http_request \<Rightarrow> string" where
  "get_tenant_from_request rq = (case request_context rq of Some c \<Rightarrow> ctx_tenant c | None \<Rightarrow> ''default'')"

definition is_admin_request :: "http_request \<Rightarrow> bool" where
  "is_admin_request rq = (case request_context rq of Some c \<Rightarrow> ctx_can_admin c | None \<Rightarrow> False)"

section \<open>The life of a key\<close>

text \<open>
  Operations on a store, with the keys issued so far: the plaintext of every identifier.
  Random identifiers and keys do not repeat.
\<close>

inductive key_step :: "'h auth_ext \<Rightarrow> key_store \<times> (string \<rightharpoonup> string) \<Rightarrow> key_store \<times> (string \<rightharpoonup> string) \<Rightarrow> bool"
  for x :: "'h auth_ext" where
  step_generate: "generate_key x rnd key_id salt now name tenant r expires_in ks = (Inr (i, p), ks') \<Longrightarrow>
    i \<notin> dom P \<Longrightarrow> p \<notin> ran P \<Longrightarrow> key_step x (ks, P) (ks', P(i \<mapsto> p))"
| step_revoke: "revoke_key key_id ks = (res, ks') \<Longrightarrow> key_step x (ks, P) (ks', P)"
| step_delete: "delete_api_key key_id ks = (res, ks') \<Longrightarrow> key_step x (ks, P) (ks', P)"
| step_touch: "key_step x (ks, P) (touch_key now key_id ks, P)"

definition key_ok :: "'h auth_ext \<Rightarrow> (string \<rightharpoonup> string) \<Rightarrow> string \<Rightarrow> api_key \<Rightarrow> bool" where
  "key_ok x P i k \<longleftrightarrow> ak_id k = i \<and> (\<exists>p. P i = Some p \<and> (\<forall>q. key_matches x q k \<longleftrightarrow> q = p))"

definition store_ok :: "'h auth_ext \<Rightarrow> key_store \<times> (string \<rightharpoonup> string) \<Rightarrow> bool" where
  "store_ok x = (\<lambda>(ks, P). hm_ok (ks_keys ks) \<and> (\<forall>i k. get_api_key ks i = Some k \<longrightarrow> key_ok x P i k) \<and>
     inj_on P (dom P) \<and> (\<forall>p \<in> ran P. starts_with p API_KEY_PREFIX))"

lemma key_ok_update:
  "key_ok x P i (k\<lparr>ak_active := b\<rparr>) = key_ok x P i k" "key_ok x P i (k\<lparr>ak_last_used_at := t\<rparr>) = key_ok x P i k"
  by (simp_all add: key_ok_def key_matches_def)

lemma key_ok_more: "key_ok x P i k \<Longrightarrow> j \<notin> dom P \<Longrightarrow> key_ok x (P(j \<mapsto> p)) i k"
  by (auto simp: key_ok_def)

lemma store_ok_init: "store_ok x (with_secret sec, Map.empty)"
  by (simp add: store_ok_def with_secret_def get_api_key_def)

lemma inj_on_fresh: "inj_on P (dom P) \<Longrightarrow> p \<notin> ran P \<Longrightarrow> inj_on (P(i \<mapsto> p)) (dom (P(i \<mapsto> p)))"
  by (auto simp: inj_on_def ran_def dom_def)

lemma generated_key:
  assumes "auth_laws x" "generate_key x rnd key_id salt now name tenant r expires_in ks = (Inr (i, p), ks')"
  obtains k where "i = key_id" "p = plaintext_of x rnd" "ks_keys ks' = hm_insert i k (ks_keys ks)"
    "ak_id k = i" "\<And>q. key_matches x q k \<longleftrightarrow> q = p" "ak_active k" "ak_tenant k = tenant" "ak_role k = r"
    "ks_jwt_secret ks' = ks_jwt_secret ks"
proof -
  obtain h where h: "hash_password x (as_bytes (plaintext_of x rnd)) salt = Inr h"
    using assms(2) by (auto simp: generate_key_def Let_def split: sum.splits)
  with assms(1) obtain ph where "parse_hash x h = Some ph" "\<And>q. verify_password x q ph \<longleftrightarrow> q = as_bytes (plaintext_of x rnd)"
    unfolding auth_laws_def by blast
  moreover define k where "k = \<lparr>ak_id = key_id, ak_name = name, ak_key_hash = h, ak_tenant = tenant, ak_role = r,
    ak_created_at = now, ak_expires_at = map_option (\<lambda>d. now + as_millis d) expires_in, ak_active = True, ak_last_used_at = None\<rparr>"
  ultimately have km: "key_matches x q k \<longleftrightarrow> q = plaintext_of x rnd" for q by (simp add: key_matches_def)
  have e: "i = key_id" "p = plaintext_of x rnd"
    "ks' = ks\<lparr>ks_keys := hm_insert key_id k (ks_keys ks), ks_hash_to_id := hm_insert h key_id (ks_hash_to_id ks)\<rparr>"
    using h assms(2) by (auto simp: k_def generate_key_def Let_def)
  show ?thesis by (rule that [of k, OF e(1,2)]) (use e km in \<open>simp_all add: k_def\<close>)
qed

lemma store_ok_step:
  assumes "auth_laws x" "key_step x a b" "store_ok x a"
  shows "store_ok x b"
  using assms(2,3)
proof (induction rule: key_step.induct)
  case (step_generate rnd key_id salt now name tenant r expires_in ks i p ks' P)
  from generated_key [OF assms(1) step_generate(1)] obtain k where
    k: "ks_keys ks' = hm_insert i k (ks_keys ks)" "ak_id k = i" "\<And>q. key_matches x q k \<longleftrightarrow> q = p" "p = plaintext_of x rnd"
    by metis
  have "key_ok x (P(i \<mapsto> p)) i k" using k by (simp add: key_ok_def)
  moreover have "starts_with p API_KEY_PREFIX" using k by (simp add: plaintext_of_def starts_with_def)
  moreover have "ran (P(i \<mapsto> p)) = insert p (ran P)" using step_generate(2) by (intro ran_map_upd) auto
  ultimately show ?case
    using step_generate(2-4) k(1) inj_on_fresh [of P p i] key_ok_more [of x P _ _ i p]
    unfolding store_ok_def get_api_key_def prod.case by (simp del: fun_upd_apply) (simp add: fun_upd_def)
next
  case (step_revoke key_id ks res ks' P)
  then show ?case
    by (auto simp: store_ok_def get_api_key_def revoke_key_def key_ok_update split: option.splits if_splits)
next
  case (step_delete key_id ks res ks' P)
  then show ?case
    by (auto simp: store_ok_def get_api_key_def delete_api_key_def split: option.splits if_splits)
next
  case (step_touch ks P now key_id)
  then show ?case
    by (auto simp: store_ok_def get_api_key_def touch_key_def key_ok_update split: option.splits if_splits)
qed

lemma store_ok_steps: "(key_step x)\<^sup>*\<^sup>* a b \<Longrightarrow> auth_laws x \<Longrightarrow> store_ok x a \<Longrightarrow> store_ok x b"
  by (induction rule: rtranclp_induct) (auto intro: store_ok_step)

section \<open>Validation as a lookup\<close>

definition key_answer :: "u64 \<Rightarrow> api_key option \<Rightarrow> auth_result" where
  "key_answer now ko = (case ko of
     None \<Rightarrow> AuthInvalid ''Invalid API key''
   | Some k \<Rightarrow> if \<not> ak_active k then AuthInvalid ''Key is disabled''
       else if key_is_expired now k then AuthExpired
       else AuthOk \<lparr>ctx_key_id = ak_id k, ctx_tenant = ak_tenant k, ctx_role = ak_role k\<rparr>)"

lemma validate_loop_find: "validate_loop x now key ks = key_answer now (List.find (key_matches x key) ks)"
  by (induction ks) (auto simp: key_answer_def)

lemma find_unique:
  assumes "distinct (map fst m)" "\<forall>(j, v) \<in> set m. P v \<longleftrightarrow> j = i"
  shows "List.find P (map snd m) = map_of m i"
  using assms by (induction m) auto

lemma find_none: "(\<And>v. v \<in> set vs \<Longrightarrow> \<not> P v) \<Longrightarrow> List.find P vs = None"
  by (induction vs) auto

lemma store_ok_mem:
  assumes "store_ok x (ks, P)" "(i, k) \<in> set (ks_keys ks)"
  shows "key_ok x P i k"
  using assms hm_get_mem [of "ks_keys ks" i k] by (simp add: store_ok_def get_api_key_def)

lemma validate_issued:
  assumes "store_ok x (ks, P)" "P i = Some p"
  shows "validate_key x now p ks = key_answer now (get_api_key ks i)"
proof -
  have "key_matches x p k \<longleftrightarrow> j = i" if "(j, k) \<in> set (ks_keys ks)" for j k
  proof -
    note ok = store_ok_mem [OF assms(1) that]
    then obtain p' where "P j = Some p'" "key_matches x p k \<longleftrightarrow> p = p'" by (auto simp: key_ok_def)
    moreover have "inj_on P (dom P)" using assms(1) by (simp add: store_ok_def)
    ultimately show ?thesis using assms(2) by (metis domI inj_onD option.inject)
  qed
  then have "List.find (key_matches x p) (map snd (ks_keys ks)) = get_api_key ks i"
    using assms(1) find_unique [of "ks_keys ks" "key_matches x p" i]
    by (auto simp: store_ok_def hm_ok_def get_api_key_def)
  moreover have "starts_with p API_KEY_PREFIX" using assms by (auto simp: store_ok_def ran_def)
  ultimately show ?thesis by (simp add: validate_key_def validate_loop_find)
qed

lemma validate_unissued:
  assumes "store_ok x (ks, P)" "p \<notin> ran P"
  shows "\<exists>msg. validate_key x now p ks = AuthInvalid msg"
proof -
  have "\<not> key_matches x p k" if "(j, k) \<in> set (ks_keys ks)" for j k
    using store_ok_mem [OF assms(1) that] assms(2) by (auto simp: key_ok_def ran_def)
  then have "List.find (key_matches x p) (map snd (ks_keys ks)) = None" by (intro find_none) auto
  then show ?thesis by (simp add: validate_key_def validate_loop_find key_answer_def)
qed

section \<open>Withdrawn keys\<close>

definition withdrawn :: "string \<Rightarrow> key_store \<times> (string \<rightharpoonup> string) \<Rightarrow> bool" where
  "withdrawn i = (\<lambda>(ks, P). i \<in> dom P \<and> (\<forall>k. get_api_key ks i = Some k \<longrightarrow> \<not> ak_active k))"

lemma withdrawn_step:
  assumes "auth_laws x" "key_step x a b" "withdrawn i a"
  shows "withdrawn i b"
  using assms(2,3)
proof (induction rule: key_step.induct)
  case (step_generate rnd key_id salt now name tenant r expires_in ks j p ks' P)
  from generated_key [OF assms(1) step_generate(1)] obtain k where "ks_keys ks' = hm_insert j k (ks_keys ks)" by metis
  with step_generate(2,4) show ?case by (auto simp: withdrawn_def get_api_key_def)
qed (auto simp: withdrawn_def get_api_key_def revoke_key_def delete_api_key_def touch_key_def split: option.splits if_splits)

lemma withdrawn_steps: "(key_step x)\<^sup>*\<^sup>* a b \<Longrightarrow> auth_laws x \<Longrightarrow> withdrawn i a \<Longrightarrow> withdrawn i b"
  by (induction rule: rtranclp_induct) (auto intro: withdrawn_step)

lemma issued_steps: "(key_step x)\<^sup>*\<^sup>* a b \<Longrightarrow> snd a i = Some p \<Longrightarrow> snd b i = Some p"
  by (induction rule: rtranclp_induct) (auto elim!: key_step.cases split: if_splits)

lemma secret_steps: "(key_step x)\<^sup>*\<^sup>* a b \<Longrightarrow> ks_jwt_secret (fst b) = ks_jwt_secret (fst a)"
  by (induction rule: rtranclp_induct)
    (auto elim!: key_step.cases simp: generate_key_def revoke_key_def delete_api_key_def touch_key_def Let_def
      split: sum.splits option.splits)

lemma scheme_words: "to_lowercase ''ApiKey'' = ''apikey''" "to_lowercase ''Bearer'' = ''bearer''"
  by code_simp+

section \<open>Properties\<close>

text \<open>
  C6. Validation of a key: in every store that operations with fresh identifiers and
  keys reach, scanning all hashes answers as a lookup by the identifier the key was issued
  with: the context of the key if it is active and has not expired, the refusal that fits
  otherwise. A string that was never issued is always refused as invalid.
\<close>

theorem validate_key_exact:
  assumes "auth_laws x" and "(key_step x)\<^sup>*\<^sup>* (with_secret sec, Map.empty) (ks, P)"
  shows "(P i = Some p \<longrightarrow> validate_key x now p ks = key_answer now (get_api_key ks i)) \<and>
     (p \<notin> ran P \<longrightarrow> (\<exists>msg. validate_key x now p ks = AuthInvalid msg))"
proof -
  have "store_ok x (ks, P)" using store_ok_steps [OF assms(2,1)] store_ok_init by blast
  then show ?thesis using validate_issued validate_unissued by blast
qed

definition demo_claims :: claims where
  "demo_claims = \<lparr>cl_sub = ''id1'', cl_tenant = ''acme'', cl_role = ReadWrite, cl_exp = 86500, cl_iat = 100\<rparr>"

definition demo_auth :: "bytes auth_ext" where
  "demo_auth = \<lparr>hash_password = (\<lambda>p s. Inr (of_bytes p)), parse_hash = (\<lambda>h. Some (as_bytes h)),
     verify_password = (\<lambda>q ph. q = ph), base64_url = of_bytes,
     jwt_encode = (\<lambda>c sec. if c = demo_claims then Inr ''tok'' else Inl ''unsupported''),
     jwt_decode = (\<lambda>now tok sec. if tok = ''tok'' then Inr demo_claims else Inl ''InvalidToken'')\<rparr>"

lemma demo_auth_laws: "auth_laws demo_auth"
  by (simp add: auth_laws_def demo_auth_def)

definition demo_keys :: key_store where
  "demo_keys = snd (generate_key demo_auth [65] ''id1'' ''salt'' 5 ''ci'' ''acme'' ReadWrite None keystore_new)"

lemma demo_plaintext: "plaintext_of demo_auth [65] = ''mkv_A''"
proof -
  have "of_bytes [65] = ''A''" by code_simp
  then show ?thesis by (simp add: plaintext_of_def demo_auth_def API_KEY_PREFIX_def)
qed

lemma demo_keys_step: "key_step demo_auth (keystore_new, Map.empty) (demo_keys, [''id1'' \<mapsto> ''mkv_A''])"
proof (rule step_generate [where P = Map.empty])
  show "generate_key demo_auth [65] ''id1'' ''salt'' 5 ''ci'' ''acme'' ReadWrite None keystore_new = (Inr (''id1'', ''mkv_A''), demo_keys)"
    by (simp add: demo_keys_def generate_key_def demo_plaintext Let_def) (simp add: demo_auth_def)
qed simp_all

lemma demo_key: "get_api_key demo_keys ''id1'' = Some \<lparr>ak_id = ''id1'', ak_name = ''ci'', ak_key_hash = ''mkv_A'',
    ak_tenant = ''acme'', ak_role = ReadWrite, ak_created_at = 5, ak_expires_at = None, ak_active = True, ak_last_used_at = None\<rparr>"
  by (simp add: demo_keys_def generate_key_def demo_plaintext Let_def get_api_key_def)
    (simp add: demo_auth_def)

theorem validate_key_exact_witness:
  "validate_key demo_auth 7 ''mkv_A'' demo_keys = AuthOk \<lparr>ctx_key_id = ''id1'', ctx_tenant = ''acme'', ctx_role = ReadWrite\<rparr> \<and>
   (\<exists>msg. validate_key demo_auth 7 ''mkv_B'' demo_keys = AuthInvalid msg)"
proof -
  have "(key_step demo_auth)\<^sup>*\<^sup>* (with_secret (as_bytes DEFAULT_JWT_SECRET), Map.empty) (demo_keys, [''id1'' \<mapsto> ''mkv_A''])"
    using demo_keys_step by (simp add: keystore_new_def)
  from validate_key_exact [OF demo_auth_laws this, of "''id1''" "''mkv_A''"]
    validate_key_exact [OF demo_auth_laws this, of "''id1''" "''mkv_B''"]
  show ?thesis by (simp add: key_answer_def demo_key key_is_expired_def)
qed

text \<open>
  C16. Withdrawing a key is final: once a key was revoked or deleted, no later operation
  makes its plaintext acceptable again, neither alone nor in an Authorization header.
\<close>

theorem withdrawn_key_refused:
  assumes "auth_laws x" and "(key_step x)\<^sup>*\<^sup>* (with_secret sec, Map.empty) (ks, P)" and "P i = Some p"
    and "revoke_key i ks = (res, ks1) \<or> delete_api_key i ks = (res, ks1)"
    and "(key_step x)\<^sup>*\<^sup>* (ks1, P) (ks2, P2)"
  shows "\<forall>c. validate_key x now p ks2 \<noteq> AuthOk c \<and> authenticate x secs now (''ApiKey '' @ p) ks2 \<noteq> AuthOk c"
proof -
  have "key_step x (ks, P) (ks1, P)" using assms(4) by (auto intro: step_revoke step_delete)
  then have reach: "(key_step x)\<^sup>*\<^sup>* (with_secret sec, Map.empty) (ks2, P2)"
    using assms(2,5) by (meson converse_rtranclp_into_rtranclp rtranclp_trans)
  have "withdrawn i (ks1, P)"
    using assms(3,4) by (auto simp: withdrawn_def get_api_key_def revoke_key_def delete_api_key_def split: option.splits)
  then have w: "withdrawn i (ks2, P2)" using withdrawn_steps [OF assms(5,1)] by blast
  have "P2 i = Some p" using issued_steps [OF assms(5), of i p] assms(3) by simp
  then have v: "validate_key x now p ks2 = key_answer now (get_api_key ks2 i)"
    using validate_issued store_ok_steps [OF reach assms(1) store_ok_init] by blast
  have a: "authenticate x secs now (''ApiKey '' @ p) ks2 = validate_key x now p ks2"
    by (simp add: authenticate_def split_space_def scheme_words del: to_lowercase.simps)
  show ?thesis unfolding a v using w by (auto simp: withdrawn_def key_answer_def split: option.splits)
qed

theorem withdrawn_key_refused_witness:
  "validate_key demo_auth 7 ''mkv_A'' (touch_key 9 ''id1'' (snd (revoke_key ''id1'' demo_keys)))
     \<noteq> AuthOk \<lparr>ctx_key_id = ''id1'', ctx_tenant = ''acme'', ctx_role = ReadWrite\<rparr>"
proof -
  have "(key_step demo_auth)\<^sup>*\<^sup>* (with_secret (as_bytes DEFAULT_JWT_SECRET), Map.empty) (demo_keys, [''id1'' \<mapsto> ''mkv_A''])"
    using demo_keys_step by (simp add: keystore_new_def)
  from withdrawn_key_refused [OF demo_auth_laws this, of "''id1''" "''mkv_A''" "fst (revoke_key ''id1'' demo_keys)"
      "snd (revoke_key ''id1'' demo_keys)" "touch_key 9 ''id1'' (snd (revoke_key ''id1'' demo_keys))" "[''id1'' \<mapsto> ''mkv_A'']" 7 0]
  show ?thesis by (auto intro: step_touch)
qed

text \<open>
  Tokens are stateless: a token made for a context authenticates as that context on
  every store with the same secret until its 24 hours are over, in particular after any
  operations on the store, among them the revocation of the key it was made for.
\<close>

theorem jwt_outlives_key:
  assumes "auth_laws x" and "generate_jwt x now c ks = Inr tok" and "unat now + 86400 < 2 ^ 64"
    and "(key_step x)\<^sup>*\<^sup>* (ks, P) (ks', P')" and "unat later < unat now + 86400"
  shows "authenticate x later ms (''Bearer '' @ tok) ks' = AuthOk c"
proof -
  let ?c = "\<lparr>cl_sub = ctx_key_id c, cl_tenant = ctx_tenant c, cl_role = ctx_role c,
    cl_exp = now + JWT_EXPIRATION_HOURS * 3600, cl_iat = now\<rparr>"
  have "jwt_encode x ?c (ks_jwt_secret ks) = Inr tok"
    using assms(2) by (auto simp: generate_jwt_def split: sum.splits)
  moreover have lt: "later < now + JWT_EXPIRATION_HOURS * 3600"
    using assms(3,5) by (simp add: JWT_EXPIRATION_HOURS_def word_less_nat_alt unat_word_ariths)
  ultimately have "jwt_decode x later tok (ks_jwt_secret ks) = Inr ?c" using assms(1) by (auto simp: auth_laws_def)
  moreover have "ks_jwt_secret ks' = ks_jwt_secret ks" using secret_steps [OF assms(4)] by simp
  ultimately have "validate_jwt x later tok ks' = AuthOk c" using lt by (simp add: validate_jwt_def)
  then show ?thesis by (simp add: authenticate_def split_space_def scheme_words del: to_lowercase.simps)
qed

theorem jwt_outlives_key_witness:
  "authenticate demo_auth 200 0 (''Bearer '' @ ''tok'') (snd (revoke_key ''id1'' demo_keys))
     = AuthOk \<lparr>ctx_key_id = ''id1'', ctx_tenant = ''acme'', ctx_role = ReadWrite\<rparr>"
proof (rule jwt_outlives_key [OF demo_auth_laws])
  show "generate_jwt demo_auth 100 \<lparr>ctx_key_id = ''id1'', ctx_tenant = ''acme'', ctx_role = ReadWrite\<rparr> demo_keys = Inr ''tok''"
    by (simp add: generate_jwt_def demo_auth_def demo_claims_def JWT_EXPIRATION_HOURS_def)
  show "(key_step demo_auth)\<^sup>*\<^sup>* (demo_keys, P) (snd (revoke_key ''id1'' demo_keys), P)" for P
    by (rule r_into_rtranclp, rule step_revoke [where key_id = "''id1''"], rule surjective_pairing)
qed simp_all

text \<open>A check behind the authentication.\<close>

definition guard_with :: "(http_request \<Rightarrow> mw_outcome) \<Rightarrow> mw_outcome \<Rightarrow> mw_outcome" where
  "guard_with mw res = (case res of Next rq \<Rightarrow> mw rq | Respond code body \<Rightarrow> Respond code body)"

text \<open>
  C14. What the middleware lets through. With authentication enabled, a request that is
  neither a read nor to a public path passes the authentication and the write check
  exactly when its credentials are valid and their role may write, and then the handler
  sees that context. The admin check behind the authentication lets a request pass exactly
  when authentication is enabled, the path is not public and the credentials are valid
  and those of an administrator.
\<close>

theorem middleware_guards:
  assumes res_def: "res = fst (auth_middleware x secs ms st rq)"
    and cred_def: "cred = credentials x secs ms (as_key_store st) rq"
    and on_def: "on \<longleftrightarrow> ac_enabled (as_config st) \<and> \<not> is_public (as_config st) (rq_path rq)"
  shows "(on \<longrightarrow> \<not> is_read_method (rq_method rq) \<longrightarrow>
      (guard_with require_write_middleware res = Next rq' \<longleftrightarrow>
         (\<exists>c. cred = Some (AuthOk c) \<and> ctx_can_write c \<and> rq' = set_ext (Some c) rq))) \<and>
    (guard_with require_admin_middleware res = Next rq' \<longleftrightarrow>
      on \<and> (\<exists>c. cred = Some (AuthOk c) \<and> ctx_can_admin c \<and> rq' = set_ext (Some c) rq))"
proof (cases on)
  case False
  then have "res = Next (set_ext None rq)" by (auto simp: res_def on_def auth_middleware_def)
  then show ?thesis using False by (simp add: guard_with_def require_admin_middleware_def set_ext_def)
next
  case True
  then have res: "res = (case cred of
       None \<Rightarrow> if is_read_method (rq_method rq) \<and> \<not> ac_require_auth_for_reads (as_config st)
         then Next (set_ext None rq) else case_prod Respond (respond_auth AuthMissing)
     | Some (AuthOk c) \<Rightarrow> Next (set_ext (Some c) rq)
     | Some r \<Rightarrow> case_prod Respond (respond_auth r))"
    by (simp add: res_def cred_def on_def auth_middleware_def split: option.split auth_result.split)
  show ?thesis
  proof (cases cred)
    case None
    then show ?thesis using res by (simp add: guard_with_def require_admin_middleware_def set_ext_def)
  next
    case (Some a)
    then show ?thesis using res True
      by (cases a) (auto simp: guard_with_def require_write_middleware_def require_admin_middleware_def set_ext_def)
  qed
qed

definition demo_request :: http_request where
  "demo_request = \<lparr>rq_method = ''POST'', rq_path = ''/kv'', rq_headers = [(''x-api-key'', as_bytes ''mkv_A'')], rq_ext = None\<rparr>"

theorem middleware_guards_witness:
  "guard_with require_write_middleware (fst (auth_middleware demo_auth 7 7
       \<lparr>as_key_store = demo_keys, as_config = auth_config_default\<lparr>ac_enabled := True\<rparr>\<rparr> demo_request))
     = Next (set_ext (Some \<lparr>ctx_key_id = ''id1'', ctx_tenant = ''acme'', ctx_role = ReadWrite\<rparr>) demo_request)"
proof -
  let ?c = "\<lparr>ctx_key_id = ''id1'', ctx_tenant = ''acme'', ctx_role = ReadWrite\<rparr>"
  let ?st = "\<lparr>as_key_store = demo_keys, as_config = auth_config_default\<lparr>ac_enabled := True\<rparr>\<rparr>"
  have "store_ok demo_auth (demo_keys, [''id1'' \<mapsto> ''mkv_A''])"
    using store_ok_step [OF demo_auth_laws demo_keys_step] store_ok_init by (metis keystore_new_def)
  then have v: "validate_key demo_auth 7 ''mkv_A'' demo_keys = AuthOk ?c"
    using validate_issued [of demo_auth demo_keys _ "''id1''"] by (simp add: key_answer_def demo_key key_is_expired_def)
  have "header_to_str (as_bytes ''mkv_A'') = Some ''mkv_A''"
    by (simp add: header_to_str_def) (simp add: as_bytes_def)
  then have "credentials demo_auth 7 7 demo_keys demo_request = Some (AuthOk ?c)"
    using v by (simp add: credentials_def header_get_def demo_request_def)
  moreover have "\<not> is_public (as_config ?st) (rq_path demo_request)" "\<not> is_read_method (rq_method demo_request)"
    by (simp_all add: is_public_def demo_request_def auth_config_default_def starts_with_def is_read_method_def)
  ultimately show ?thesis
    using middleware_guards [of _ demo_auth 7 7 ?st demo_request _ True "set_ext (Some ?c) demo_request", OF refl refl]
    by (simp add: ctx_can_write_def)
qed

end
