(* ===== verification/Http.thy ===== *)
theory Http
  imports Storage Placement Auth Raft
begin

text \<open>
  \<open>src/src/coordinator/http.rs\<close> with \<open>src/src/common/audit.rs\<close>, and the data operations of
  \<open>src/src/coordinator/grpc.rs\<close>: the handlers of the coordinator over one record of all the
  state they share, the statics \<open>STORAGE\<close>, \<open>KEY_STORE\<close>, \<open>AUDIT_LOGGER\<close> and
  \<open>WATCH_CHANNEL\<close> included. A handler takes the decoded request and returns the
  response with the new state. JSON values are the datatype \<open>json\<close>; their text
  (\<open>serde_json::to_string\<close>) is a parameter where it is the response.
\<close>

section \<open>Responses and shared state\<close>

datatype json =
    JNull
  | JBool bool
  | JNum int
  | JStr string
  | JArr "json list"
  | JObj "(string \<times> json) list"

datatype body = BText string | BJson json | BRaw bytes | BLines "json list"

record http_response =
  rs_status :: nat
  rs_body :: body

definition ok_json :: "json \<Rightarrow> http_response" where
  "ok_json j = \<lparr>rs_status = 200, rs_body = BJson j\<rparr>"

definition error_json :: "nat \<Rightarrow> string \<Rightarrow> http_response" where
  "error_json code msg = \<lparr>rs_status = code, rs_body = BJson (JObj [(''error'', JStr msg)])\<rparr>"

datatype audit_event_type =
    AuthSuccess | AuthFailure | ApiKeyCreated | ApiKeyRevoked | ApiKeyDeleted | RoleChanged
  | DataPut | DataDelete | ConfigChanged | QuotaExceeded | System

record audit_entry =
  ae_event :: audit_event_type
  ae_actor :: string
  ae_target :: "string option"
  ae_message :: string

record key_change_event =
  kc_event :: string
  kc_key :: string
  kc_tenant :: "string option"

text \<open>
  The audit log and the change events are the entries so far without their times. A send
  on the channel is recorded whether or not somebody listens. The statics of the sources
  are fields too, among them the metadata store of the gRPC service, \<open>cs_global\<close>.
\<close>

record 'db coord_state =
  cs_metadata :: 'db
  cs_placement :: placement_manager
  cs_raft :: raft_node
  cs_storage :: storage
  cs_keys :: key_store
  cs_audit :: "audit_entry list"
  cs_watch :: "key_change_event list"
  cs_global :: "'db option"

definition log_event ::
  "audit_event_type \<Rightarrow> string \<Rightarrow> string option \<Rightarrow> string \<Rightarrow> 'db coord_state \<Rightarrow> 'db coord_state" where
  "log_event event actor target message st =
     st\<lparr>cs_audit := cs_audit st @ [\<lparr>ae_event = event, ae_actor = actor, ae_target = target, ae_message = message\<rparr>]\<rparr>"

definition send_watch :: "string \<Rightarrow> string \<Rightarrow> string option \<Rightarrow> 'db coord_state \<Rightarrow> 'db coord_state" where
  "send_watch event key tenant st =
     st\<lparr>cs_watch := cs_watch st @ [\<lparr>kc_event = event, kc_key = key, kc_tenant = tenant\<rparr>]\<rparr>"

section \<open>Management of API keys\<close>

record create_key_request =
  ck_name :: string
  ck_tenant :: string
  ck_role :: string
  ck_expires_in_secs :: "u64 option"

definition parse_role :: "string \<Rightarrow> role option" where
  "parse_role s =
     (let r = to_lowercase s in
      if r = ''admin'' then Some Admin
      else if r \<in> {''read_write'', ''readwrite'', ''rw''} then Some ReadWrite
      else if r \<in> {''read_only'', ''readonly'', ''ro'', ''''} then Some ReadOnly
      else None)"

fun auth_error_display :: "auth_error \<Rightarrow> string" where
  "auth_error_display (HashError e) = ''Hash error: '' @ e"
| "auth_error_display (JwtError e) = ''JWT error: '' @ e"
| "auth_error_display (KeyNotFound e) = ''Key not found: '' @ e"
| "auth_error_display (Unauthorized e) = ''Unauthorized: '' @ e"
| "auth_error_display (auth_error.Forbidden e) = ''Forbidden: '' @ e"

definition admin_create_key ::
  "'h auth_ext \<Rightarrow> bytes \<Rightarrow> string \<Rightarrow> string \<Rightarrow> u64 \<Rightarrow> create_key_request \<Rightarrow> 'db coord_state \<Rightarrow> http_response \<times> 'db coord_state" where
  "admin_create_key x rnd uuid salt now req st =
     (case parse_role (ck_role req) of
        None \<Rightarrow> (\<lparr>rs_status = 400, rs_body = BJson (JObj [(''error'', JStr ''Invalid role''),
                   (''valid_roles'', JArr [JStr ''admin'', JStr ''read_write'', JStr ''read_only''])])\<rparr>, st)
      | Some r \<Rightarrow>
          let expires_in = map_option (\<lambda>s. seconds (unat s)) (ck_expires_in_secs req) in
          case generate_key x rnd uuid salt now (ck_name req) (ck_tenant req) r expires_in (cs_keys st) of
            (Inr (i, key), ks) \<Rightarrow>
              (\<lparr>rs_status = 201, rs_body = BJson (JObj [(''id'', JStr i), (''key'', JStr key), (''tenant'', JStr (ck_tenant req)),
                  (''role'', JStr (role_debug r)), (''warning'', JStr ''Store this key securely - it cannot be retrieved again!'')])\<rparr>,
               log_event ApiKeyCreated (ck_name req) (Some i)
                 (''API key created for tenant '' @ ck_tenant req @ '' with role '' @ role_debug r) (st\<lparr>cs_keys := ks\<rparr>))
          | (Inl e, ks) \<Rightarrow> (error_json 500 (auth_error_display e), st\<lparr>cs_keys := ks\<rparr>))"

definition opt_num :: "u64 option \<Rightarrow> json" where
  "opt_num v = (case v of Some n \<Rightarrow> JNum (uint n) | None \<Rightarrow> JNull)"

text \<open>The fields of a key that the endpoints show.\<close>

definition safe_key :: "api_key \<Rightarrow> json" where
  "safe_key k = JObj [(''id'', JStr (ak_id k)), (''name'', JStr (ak_name k)), (''tenant'', JStr (ak_tenant k)),
     (''role'', JStr (role_debug (ak_role k))), (''active'', JBool (ak_active k)),
     (''created_at'', JNum (uint (ak_created_at k))), (''expires_at'', opt_num (ak_expires_at k)),
     (''last_used_at'', opt_num (ak_last_used_at k))]"

definition admin_list_keys :: "string option \<Rightarrow> 'db coord_state \<Rightarrow> http_response" where
  "admin_list_keys tenant st =
     (let keys = (case tenant of Some t \<Rightarrow> list_keys_for_tenant (cs_keys st) t | None \<Rightarrow> list_api_keys (cs_keys st));
          safe_keys = map safe_key keys
      in ok_json (JObj [(''keys'', JArr safe_keys), (''total'', JNum (int (length safe_keys)))]))"

definition admin_get_key :: "string \<Rightarrow> 'db coord_state \<Rightarrow> http_response" where
  "admin_get_key key_id st =
     (case get_api_key (cs_keys st) key_id of Some k \<Rightarrow> ok_json (safe_key k) | None \<Rightarrow> error_json 404 ''Key not found'')"

definition admin_revoke_key :: "string \<Rightarrow> 'db coord_state \<Rightarrow> http_response \<times> 'db coord_state" where
  "admin_revoke_key key_id st =
     (case revoke_key key_id (cs_keys st) of
        (Inr _, ks) \<Rightarrow>
          (ok_json (JObj [(''status'', JStr ''revoked''), (''id'', JStr key_id)]),
           send_watch ''revoke'' key_id None
             (log_event ApiKeyRevoked ''admin'' (Some key_id) ''API key revoked'' (st\<lparr>cs_keys := ks\<rparr>)))
      | (Inl e, ks) \<Rightarrow> (error_json 404 (auth_error_display e), st\<lparr>cs_keys := ks\<rparr>))"

definition admin_delete_key :: "string \<Rightarrow> 'db coord_state \<Rightarrow> http_response \<times> 'db coord_state" where
  "admin_delete_key key_id st =
     (case delete_api_key key_id (cs_keys st) of
        (Inr _, ks) \<Rightarrow>
          (ok_json (JObj [(''status'', JStr ''deleted''), (''id'', JStr key_id)]),
           send_watch ''delete'' key_id None
             (log_event ApiKeyDeleted ''admin'' (Some key_id) ''API key deleted'' (st\<lparr>cs_keys := ks\<rparr>)))
      | (Inl e, ks) \<Rightarrow> (error_json 404 (auth_error_display e), st\<lparr>cs_keys := ks\<rparr>))"

section \<open>Objects\<close>

definition unwrap_or_default :: "'a list result \<Rightarrow> 'a list" where
  "unwrap_or_default r = (case r of Inr v \<Rightarrow> v | Inl _ \<Rightarrow> [])"

text \<open>The volumes a write selects; an error of the metadata or of the placement selects none.\<close>

definition target_volumes :: "'db meta_ext \<Rightarrow> (bytes \<Rightarrow> bytes) \<Rightarrow> string \<Rightarrow> 'db coord_state \<Rightarrow> string list" where
  "target_volumes x digest key st =
     unwrap_or_default (select_volumes digest key (unwrap_or_default (get_healthy_volumes x (cs_metadata st))) (cs_placement st))"

text \<open>Both phases are simulated: every prepare succeeds.\<close>

fun prepare_phase :: "string list \<Rightarrow> bool" where
  "prepare_phase [] = True"
| "prepare_phase (volume_id # vs) = (let simulated_prepare = True in if \<not> simulated_prepare then False else prepare_phase vs)"

definition ttl_header :: "(string \<times> bytes) list \<Rightarrow> u64 option" where
  "ttl_header headers = Option.bind (Option.bind (map_of headers ''x-minikv-ttl'') header_to_str) parse_u64"

definition s3_put_object ::
  "'db meta_ext \<Rightarrow> (bytes \<Rightarrow> bytes) \<Rightarrow> string \<Rightarrow> string \<Rightarrow> (string \<times> bytes) list \<Rightarrow> bytes \<Rightarrow> 'db coord_state
     \<Rightarrow> http_response \<times> 'db coord_state" where
  "s3_put_object x digest bucket key headers b st =
     (let full_key = bucket @ ''/'' @ key;
          ttl_secs = ttl_header headers;
          st = st\<lparr>cs_storage := storage_put full_key b (cs_storage st)\<rparr>;
          stored_bytes = length b;
          st = send_watch ''put'' full_key (Some ''default'') st;
          targets = target_volumes x digest full_key st
      in if \<not> prepare_phase targets
         then (\<lparr>rs_status = 500, rs_body = BText (''PUT S3 '' @ bucket @ ''/'' @ key @ '' failed: prepare phase error (2PC)'')\<rparr>, st)
         else let ttl_info = (case ttl_secs of Some t \<Rightarrow> '', TTL: '' @ show_nat (unat t) @ ''s'' | None \<Rightarrow> [])
              in (\<lparr>rs_status = 200, rs_body = BText (''PUT S3 '' @ bucket @ ''/'' @ key @ '' committed via 2PC ('' @
                    show_nat stored_bytes @ '' bytes'' @ ttl_info @ '')'')\<rparr>, st))"

definition s3_get_object :: "string \<Rightarrow> string \<Rightarrow> 'db coord_state \<Rightarrow> http_response" where
  "s3_get_object bucket key st =
     (case storage_get (cs_storage st) (bucket @ ''/'' @ key) of
        Some d \<Rightarrow> \<lparr>rs_status = 200, rs_body = BRaw d\<rparr>
      | None \<Rightarrow> \<lparr>rs_status = 404, rs_body = BRaw (as_bytes (''S3 object '' @ bucket @ ''/'' @ key @ '' not found''))\<rparr>)"

section \<open>Health\<close>

definition health_ready :: "'db meta_ext \<Rightarrow> 'db coord_state \<Rightarrow> http_response" where
  "health_ready x st =
     (let volumes = unwrap_or_default (get_healthy_volumes x (cs_metadata st));
          has_leader = is_leader (cs_raft st) \<or> peers (cs_raft st) \<noteq> []
      in if volumes \<noteq> [] \<and> has_leader
         then ok_json (JObj [(''ready'', JBool True), (''healthy_volumes'', JNum (int (length volumes))),
                (''is_leader'', JBool (is_leader (cs_raft st)))])
         else \<lparr>rs_status = 503, rs_body = BJson (JObj [(''ready'', JBool False),
                (''healthy_volumes'', JNum (int (length volumes))), (''is_leader'', JBool (is_leader (cs_raft st))),
                (''reason'', JStr (if volumes = [] then ''No healthy volumes'' else ''No Raft leader''))])\<rparr>)"

definition health_live :: "u64 \<Rightarrow> http_response" where
  "health_live now_secs = ok_json (JObj [(''alive'', JBool True), (''version'', JStr ''0.7.0''), (''timestamp'', JNum (uint now_secs))])"

definition role_text :: "'db coord_state \<Rightarrow> string" where
  "role_text st = (if is_leader (cs_raft st) then ''Leader'' else ''Follower'')"

definition admin_status :: "'db meta_ext \<Rightarrow> 'db coord_state \<Rightarrow> http_response" where
  "admin_status x st =
     (let volumes = unwrap_or_default (get_healthy_volumes x (cs_metadata st))
      in ok_json (JObj [(''role'', JStr (role_text st)), (''is_leader'', JBool (is_leader (cs_raft st))),
           (''nb_peers'', JNum (int (length (peers (cs_raft st))))), (''nb_volumes'', JNum (int (length volumes))),
           (''volume_ids'', JArr (map (JStr \<circ> vm_volume_id) volumes)), (''nb_s3_objects'', JNum 0)]))"

definition health :: "'db coord_state \<Rightarrow> http_response" where
  "health st = ok_json (JObj [(''status'', JStr ''healthy''), (''role'', JStr (role_text st)),
     (''is_leader'', JBool (is_leader (cs_raft st))), (''version'', JStr ''0.7.0'')])"

section \<open>Import, export, transactions and search\<close>

definition admin_import :: "(string \<times> string) list \<Rightarrow> 'db coord_state \<Rightarrow> http_response \<times> 'db coord_state" where
  "admin_import entries st =
     (let st = fold (\<lambda>(k, v) st. st\<lparr>cs_storage := storage_put k (as_bytes v) (cs_storage st)\<rparr>) entries st;
          success_count = length entries
      in (ok_json (JObj [(''imported'', JNum (int success_count)), (''errors'', JArr [])]),
          log_event System ''admin'' None (''Imported '' @ show_nat success_count @ '' keys'') st))"

definition export_line :: "'db coord_state \<Rightarrow> string \<Rightarrow> json option" where
  "export_line st key =
     map_option (\<lambda>v. JObj [(''key'', JStr key), (''value'', JStr (of_bytes (utf8_lossy v)))]) (storage_get (cs_storage st) key)"

definition admin_export :: "(error \<Rightarrow> string) \<Rightarrow> 'db meta_ext \<Rightarrow> 'db coord_state \<Rightarrow> http_response" where
  "admin_export to_string x st =
     (case meta_list_keys x (cs_metadata st) of
        Inl e \<Rightarrow> \<lparr>rs_status = 500, rs_body = BText (''list_keys error: '' @ to_string e)\<rparr>
      | Inr keys \<Rightarrow> \<lparr>rs_status = 200, rs_body = BLines (List.map_filter (export_line st) keys)\<rparr>)"

record tx_operation =
  tx_op :: string
  tx_key :: string
  tx_value :: "string option"

record tx_result =
  tr_op :: string
  tr_key :: string
  tr_success :: bool
  tr_error :: "string option"

definition transaction_step ::
  "tx_operation \<Rightarrow> tx_result list \<times> nat \<times> storage \<Rightarrow> tx_result list \<times> nat \<times> storage" where
  "transaction_step t = (\<lambda>(results, success_count, s).
     let res = (\<lambda>b e. \<lparr>tr_op = tx_op t, tr_key = tx_key t, tr_success = b, tr_error = e\<rparr>) in
     if tx_op t = ''put'' then
       (case tx_value t of
          Some v \<Rightarrow> (results @ [res True None], success_count + 1, storage_put (tx_key t) (as_bytes v) s)
        | None \<Rightarrow> (results @ [res False (Some ''value required for put'')], success_count, s))
     else if tx_op t = ''delete'' then
       (results @ [res True None], success_count + 1, storage_delete (tx_key t) s)
     else (results @ [res False (Some ''unknown operation'')], success_count, s))"

definition opt_str :: "string option \<Rightarrow> json" where
  "opt_str v = (case v of Some s \<Rightarrow> JStr s | None \<Rightarrow> JNull)"

definition tx_result_json :: "tx_result \<Rightarrow> json" where
  "tx_result_json r = JObj [(''op'', JStr (tr_op r)), (''key'', JStr (tr_key r)), (''success'', JBool (tr_success r)),
     (''error'', opt_str (tr_error r))]"

definition transaction_ops :: "tx_operation list \<Rightarrow> 'db coord_state \<Rightarrow> http_response \<times> 'db coord_state" where
  "transaction_ops operations st =
     (case fold transaction_step operations ([], 0, cs_storage st) of
        (results, success_count, s) \<Rightarrow>
          (ok_json (JObj [(''results'', JArr (map tx_result_json results)), (''total_operations'', JNum (int (length operations))),
             (''successful_operations'', JNum (int success_count))]),
           log_event System ''transaction'' None (''Executed '' @ show_nat success_count @ '' operations in transaction'')
             (st\<lparr>cs_storage := s\<rparr>)))"

text \<open>\<open>str::contains\<close>.\<close>

fun contains :: "string \<Rightarrow> string \<Rightarrow> bool" where
  "contains [] p = (p = [])"
| "contains (c # s) p = (starts_with (c # s) p \<or> contains s p)"

definition search_match :: "'db coord_state \<Rightarrow> string \<Rightarrow> string \<Rightarrow> bool" where
  "search_match st v key =
     (case storage_get (cs_storage st) key of
        Some value_bytes \<Rightarrow> (case from_utf8 value_bytes of Some value_str \<Rightarrow> contains value_str v | None \<Rightarrow> False)
      | None \<Rightarrow> False)"

definition search_keys :: "(error \<Rightarrow> string) \<Rightarrow> 'db meta_ext \<Rightarrow> string \<Rightarrow> 'db coord_state \<Rightarrow> http_response" where
  "search_keys to_string x v st =
     (case meta_list_keys x (cs_metadata st) of
        Inr keys \<Rightarrow>
          let matching_keys = filter (search_match st v) keys
          in ok_json (JObj [(''query'', JStr v), (''matching_keys'', JArr (map JStr matching_keys)),
               (''total_matches'', JNum (int (length matching_keys)))])
      | Inl e \<Rightarrow> ok_json (JObj [(''error'', JStr (''list_keys error: '' @ to_string e))]))"

section \<open>Ranges and batches\<close>

fun key_state_text :: "key_state \<Rightarrow> string" where
  "key_state_text KeyActive = ''active''"
| "key_state_text Tombstone = ''tombstone''"

definition key_metadata_json :: "key_metadata \<Rightarrow> json" where
  "key_metadata_json m = JObj [(''key'', JStr (km_key m)), (''replicas'', JArr (map JStr (km_replicas m))),
     (''size'', JNum (uint (km_size m))), (''blake3'', JStr (km_blake3 m)), (''created_at'', JNum (uint (km_created_at m))),
     (''updated_at'', JNum (uint (km_updated_at m))), (''state'', JStr (key_state_text (km_state m)))]"

definition range_keys :: "string \<Rightarrow> string \<Rightarrow> string list \<Rightarrow> string list" where
  "range_keys start end_key keys = sort (filter (\<lambda>k. start \<le> k \<and> k \<le> end_key) keys)"

definition range_value :: "'db meta_ext \<Rightarrow> 'db \<Rightarrow> string \<Rightarrow> json" where
  "range_value x db k = (case meta_get_key x k db of Inr (Some meta) \<Rightarrow> key_metadata_json meta | _ \<Rightarrow> JNull)"

definition range_query ::
  "(error \<Rightarrow> string) \<Rightarrow> (json \<Rightarrow> string) \<Rightarrow> 'db meta_ext \<Rightarrow> string \<Rightarrow> string \<Rightarrow> bool option \<Rightarrow> 'db coord_state \<Rightarrow> http_response" where
  "range_query to_string json_text x start end_key include_values st =
     (case meta_list_keys x (cs_metadata st) of
        Inl e \<Rightarrow> \<lparr>rs_status = 500, rs_body = BText (''list_keys error: '' @ to_string e)\<rparr>
      | Inr keys \<Rightarrow>
          let filtered = range_keys start end_key keys in
          if include_values = Some True
          then \<lparr>rs_status = 200, rs_body = BText (json_text (JObj [(''keys'', JArr (map JStr filtered)),
                  (''values'', JArr (map (range_value x (cs_metadata st)) filtered))]))\<rparr>
          else \<lparr>rs_status = 200, rs_body = BText (json_text (JObj [(''keys'', JArr (map JStr filtered))]))\<rparr>)"

record batch_result =
  br_ok :: bool
  br_key :: string
  br_value :: "string option"
  br_error :: "string option"

definition error_of :: "(error \<Rightarrow> string) \<Rightarrow> 'a result \<Rightarrow> string option" where
  "error_of to_string r = (case r of Inl e \<Rightarrow> Some (to_string e) | Inr _ \<Rightarrow> None)"

definition batch_step ::
  "(error \<Rightarrow> string) \<Rightarrow> (json \<Rightarrow> string) \<Rightarrow> 'db meta_ext \<Rightarrow> tx_operation \<Rightarrow> batch_result list \<times> 'db \<Rightarrow> batch_result list \<times> 'db" where
  "batch_step to_string json_text x t = (\<lambda>(results, db).
     let res = (\<lambda>b v e. results @ [\<lparr>br_ok = b, br_key = tx_key t, br_value = v, br_error = e\<rparr>]) in
     if tx_op t = ''put'' then
       (case tx_value t of
          Some v \<Rightarrow>
            (case meta_put_key x (plain_key (tx_key t) (word_of_nat (length v))) db of
               (r, db) \<Rightarrow> (res (is_ok r) None (error_of to_string r), db))
        | None \<Rightarrow> (res False None (Some ''Missing value for put''), db))
     else if tx_op t = ''get'' then
       (case meta_get_key x (tx_key t) db of
          Inr (Some meta) \<Rightarrow> (res True (Some (json_text (key_metadata_json meta))) None, db)
        | Inr None \<Rightarrow> (res False None (Some ''Not found''), db)
        | Inl e \<Rightarrow> (res False None (Some (to_string e)), db))
     else if tx_op t = ''delete'' then
       (case meta_delete_key x (tx_key t) db of (r, db) \<Rightarrow> (res (is_ok r) None (error_of to_string r), db))
     else (res False None (Some ''Unknown op''), db))"

definition batch_result_json :: "batch_result \<Rightarrow> json" where
  "batch_result_json r = JObj [(''ok'', JBool (br_ok r)), (''key'', JStr (br_key r)), (''value'', opt_str (br_value r)),
     (''error'', opt_str (br_error r))]"

definition batch_ops ::
  "(error \<Rightarrow> string) \<Rightarrow> (json \<Rightarrow> string) \<Rightarrow> 'db meta_ext \<Rightarrow> tx_operation list \<Rightarrow> 'db coord_state \<Rightarrow> http_response \<times> 'db coord_state" where
  "batch_ops to_string json_text x ops st =
     (case fold (batch_step to_string json_text x) ops ([], cs_metadata st) of
        (results, db) \<Rightarrow> (ok_json (JObj [(''results'', JArr (map batch_result_json results))]), st\<lparr>cs_metadata := db\<rparr>))"

section \<open>Metrics\<close>

definition metric_line :: "string \<Rightarrow> string \<Rightarrow> nat \<Rightarrow> string" where
  "metric_line name volume_id n =
     name @ '' {volume_id='' @ [CHR 0x22] @ volume_id @ [CHR 0x22] @ ''} '' @ show_nat n @ [CHR 0x0A]"

definition http_metrics :: "string \<Rightarrow> 'db meta_ext \<Rightarrow> 'db coord_state \<Rightarrow> http_response" where
  "http_metrics registry_text x st =
     (let volumes = unwrap_or_default (get_healthy_volumes x (cs_metadata st));
          total_keys = sum_list (map vm_total_keys volumes)
      in \<lparr>rs_status = 200, rs_body = BText
           (''minikv_total_keys {} '' @ show_nat (unat total_keys) @ [CHR 0x0A] @
            ''minikv_healthy_volumes {} '' @ show_nat (length volumes) @ [CHR 0x0A] @
            concat (map (\<lambda>v. metric_line ''minikv_volume_bytes'' (vm_volume_id v) (unat (vm_total_bytes v)) @
                             metric_line ''minikv_volume_free_bytes'' (vm_volume_id v) (unat (vm_free_bytes v)) @
                             metric_line ''minikv_volume_total_keys'' (vm_volume_id v) (unat (vm_total_keys v))) volumes) @
            ''minikv_raft_role {} '' @ [CHR 0x22] @ (if is_leader (cs_raft st) then ''leader'' else ''follower'') @ [CHR 0x22, CHR 0x0A] @
            registry_text @
            ''minikv_s3_objects_total {} 0'' @ [CHR 0x0A] @ ''minikv_s3_objects_with_ttl {} 0'' @ [CHR 0x0A])\<rparr>)"

section \<open>Single keys\<close>

definition http_put_key ::
  "'db meta_ext \<Rightarrow> (bytes \<Rightarrow> bytes) \<Rightarrow> string \<Rightarrow> bytes \<Rightarrow> 'db coord_state \<Rightarrow> http_response \<times> 'db coord_state" where
  "http_put_key x digest key b st =
     (let targets = target_volumes x digest key st
      in if \<not> prepare_phase targets
         then (\<lparr>rs_status = 500, rs_body = BText (''PUT '' @ key @ '' failed: prepare phase error (2PC)'')\<rparr>, st)
         else (\<lparr>rs_status = 200, rs_body = BText (''PUT '' @ key @ '' committed via 2PC'')\<rparr>, st))"

definition http_get_key :: "string \<Rightarrow> 'db coord_state \<Rightarrow> http_response" where
  "http_get_key key st = \<lparr>rs_status = 200, rs_body = BText (''Value for key '' @ key @ '' (fetched from volume)'')\<rparr>"

definition http_delete_key :: "string \<Rightarrow> 'db coord_state \<Rightarrow> http_response \<times> 'db coord_state" where
  "http_delete_key key st = (\<lparr>rs_status = 200, rs_body = BText (''DELETE '' @ key @ '' succeeded'')\<rparr>, st)"

section \<open>The gRPC service\<close>

definition status_internal :: "string \<Rightarrow> grpc_status" where
  "status_internal msg = \<lparr>st_code = CodeInternal, st_message = msg, st_metadata = []\<rparr>"

definition status_unimplemented :: "string \<Rightarrow> grpc_status" where
  "status_unimplemented msg = \<lparr>st_code = CodeUnimplemented, st_message = msg, st_metadata = []\<rparr>"

definition ser_or_default :: "'db meta_ext \<Rightarrow> key_metadata \<Rightarrow> bytes" where
  "ser_or_default x m = (case ser_key x m of Inr b \<Rightarrow> b | Inl _ \<Rightarrow> [])"

text \<open>Both data methods work on the global store and panic, \<open>None\<close>, when there is none.\<close>

definition grpc_range ::
  "(error \<Rightarrow> string) \<Rightarrow> 'db meta_ext \<Rightarrow> string \<Rightarrow> string \<Rightarrow> bool \<Rightarrow> 'db coord_state
     \<Rightarrow> (grpc_status + string list \<times> bytes list) option" where
  "grpc_range to_string x start end_key include_values st =
     (case get_global_store (cs_global st) of
        None \<Rightarrow> None
      | Some db \<Rightarrow> Some
          (case meta_list_keys x db of
             Inl e \<Rightarrow> Inl (status_internal (''list_keys error: '' @ to_string e))
           | Inr keys \<Rightarrow>
               let filtered = range_keys start end_key keys
               in Inr (filtered, if include_values
                    then map (\<lambda>k. case meta_get_key x k db of Inr (Some meta) \<Rightarrow> ser_or_default x meta | _ \<Rightarrow> []) filtered
                    else [])))"

record grpc_batch_op =
  gb_type :: int
  gb_key :: string
  gb_value :: bytes

record grpc_batch_result =
  gr_ok :: bool
  gr_key :: string
  gr_value :: bytes
  gr_error :: string

definition grpc_batch_step ::
  "(error \<Rightarrow> string) \<Rightarrow> 'db meta_ext \<Rightarrow> grpc_batch_op \<Rightarrow> grpc_batch_result list \<times> 'db \<Rightarrow> grpc_batch_result list \<times> 'db" where
  "grpc_batch_step to_string x b = (\<lambda>(results, db).
     let res = (\<lambda>k v e. results @ [\<lparr>gr_ok = k, gr_key = gb_key b, gr_value = v, gr_error = (case e of Some s \<Rightarrow> s | None \<Rightarrow> [])\<rparr>]) in
     if gb_type b = 0 then
       (case meta_put_key x (plain_key (gb_key b) (word_of_nat (length (gb_value b)))) db of
          (Inr _, db) \<Rightarrow> (res True [] None, db) | (Inl e, db) \<Rightarrow> (res False [] (Some (to_string e)), db))
     else if gb_type b = 1 then
       (case meta_get_key x (gb_key b) db of
          Inr (Some meta) \<Rightarrow> (res True (ser_or_default x meta) None, db)
        | Inr None \<Rightarrow> (res False [] (Some ''Not found''), db)
        | Inl e \<Rightarrow> (res False [] (Some (to_string e)), db))
     else if gb_type b = 2 then
       (case meta_delete_key x (gb_key b) db of
          (Inr _, db) \<Rightarrow> (res True [] None, db) | (Inl e, db) \<Rightarrow> (res False [] (Some (to_string e)), db))
     else (res False [] (Some ''Unknown op''), db))"

definition grpc_batch ::
  "(error \<Rightarrow> string) \<Rightarrow> 'db meta_ext \<Rightarrow> grpc_batch_op list \<Rightarrow> 'db coord_state
     \<Rightarrow> (grpc_batch_result list \<times> 'db coord_state) option" where
  "grpc_batch to_string x ops st =
     (case get_global_store (cs_global st) of
        None \<Rightarrow> None
      | Some db \<Rightarrow>
          (case fold (grpc_batch_step to_string x) ops ([], db) of
             (results, db) \<Rightarrow> Some (results, st\<lparr>cs_global := Some db\<rparr>)))"

definition grpc_install_snapshot :: "grpc_status + unit" where
  "grpc_install_snapshot = Inl (status_unimplemented ''InstallSnapshot not implemented'')"

definition grpc_join :: "grpc_status + bool \<times> string" where
  "grpc_join = Inr (True, ''cluster-1'')"

definition grpc_heartbeat :: "grpc_status + bool \<times> string list" where
  "grpc_heartbeat = Inr (True, [])"

section \<open>Lemmas\<close>

text \<open>The write an operation of a transaction stands for, if it is well-formed.\<close>

definition tx_write :: "tx_operation \<Rightarrow> kv_write option" where
  "tx_write t =
     (if tx_op t = ''put'' then map_option (\<lambda>v. WPut (tx_key t) (as_bytes v)) (tx_value t)
      else if tx_op t = ''delete'' then Some (WDelete (tx_key t))
      else None)"

definition tx_answer :: "tx_operation \<Rightarrow> tx_result" where
  "tx_answer t = \<lparr>tr_op = tx_op t, tr_key = tx_key t, tr_success = (tx_write t \<noteq> None),
     tr_error = (if tx_write t \<noteq> None then None
       else Some (if tx_op t = ''put'' then ''value required for put'' else ''unknown operation''))\<rparr>"

lemma transaction_step_write:
  "transaction_step t (rs, n, s) = (rs @ [tx_answer t],
     case tx_write t of Some w \<Rightarrow> (n + 1, global.write_op w s) | None \<Rightarrow> (n, s))"
  by (simp add: transaction_step_def tx_write_def tx_answer_def Let_def split: option.splits)

lemma transaction_fold:
  "fold transaction_step ts (rs, n, s) = (rs @ map tx_answer ts, n + length (List.map_filter tx_write ts),
     fold global.write_op (List.map_filter tx_write ts) s)"
  by (induction ts arbitrary: rs n s) (simp_all add: transaction_step_write map_filter_simps split: option.splits)

lemma map_filter_eqI: "(\<And>y. y \<in> set ys \<Longrightarrow> f y = g y) \<Longrightarrow> List.map_filter f ys = List.map_filter g ys"
  by (induction ys) (simp_all add: map_filter_simps split: option.split)

lemma prepare_phase_True [simp]: "prepare_phase vs"
  by (induction vs) simp_all

lemma range_keys_exact:
  assumes "meta_laws x V" "meta_list_keys x db = Inr keys"
  shows "sorted (range_keys a b keys)" "distinct (range_keys a b keys)"
    "k \<in> set (range_keys a b keys) \<longleftrightarrow> V db CF_KEYS (as_bytes k) \<noteq> None \<and> a \<le> k \<and> k \<le> b"
  using list_keys_view [OF assms] by (auto simp: range_keys_def)

text \<open>
  Batches on a map of keys to metadata. An operation comes with the text of the error if
  the database refuses it.
\<close>

definition batch_spec_step ::
  "(json \<Rightarrow> string) \<Rightarrow> tx_operation \<times> string option \<Rightarrow> batch_result list \<times> (string \<rightharpoonup> key_metadata)
     \<Rightarrow> batch_result list \<times> (string \<rightharpoonup> key_metadata)" where
  "batch_spec_step jt = (\<lambda>(t, refused) (rs, m).
     let k = tx_key t; res = (\<lambda>b v e. rs @ [\<lparr>br_ok = b, br_key = k, br_value = v, br_error = e\<rparr>]) in
     if tx_op t \<notin> {''put'', ''get'', ''delete''} then (res False None (Some ''Unknown op''), m)
     else if tx_op t = ''put'' \<and> tx_value t = None then (res False None (Some ''Missing value for put''), m)
     else case refused of
       Some e \<Rightarrow> (res False None (Some e), m)
     | None \<Rightarrow>
         if tx_op t = ''put''
         then (res True None None, m(k \<mapsto> plain_key k (word_of_nat (length (the (tx_value t))))))
         else if tx_op t = ''delete'' then (res True None None, m(k := None))
         else (case m k of
                 Some meta \<Rightarrow> (res True (Some (jt (key_metadata_json meta))) None, m)
               | None \<Rightarrow> (res False None (Some ''Not found''), m)))"

lemma batch_step_spec:
  assumes laws: "meta_laws x V" and step: "batch_step ts jt x t (rs, db) = (rs', db')"
  shows "\<exists>refused. batch_spec_step jt (t, refused) (rs, meta_map x V db) = (rs', meta_map x V db') \<and>
    (meta_sound x V db \<longrightarrow> meta_sound x V db' \<and> (meta_works x \<longrightarrow> refused = None))"
proof -
  consider (put) v where "tx_op t = ''put''" "tx_value t = Some v" | (get) "tx_op t = ''get''" | (del) "tx_op t = ''delete''"
    | (bad) "tx_op t = ''put''" "tx_value t = None" | (other) "tx_op t \<notin> {''put'', ''get'', ''delete''}"
    by (cases "tx_value t") auto
  then show ?thesis
  proof cases
    case put
    let ?m = "plain_key (tx_key t) (word_of_nat (length v))"
    obtain r db1 where p: "meta_put_key x ?m db = (r, db1)" by fastforce
    have km: "km_key ?m = tx_key t" by (simp add: plain_key_def)
    show ?thesis
    proof (cases r)
      case (Inl e)
      note f = put_key_failed [OF laws p [unfolded Inl]]
      show ?thesis
        using Inl put step p meta_map_cong [of V, OF f(1)] meta_sound_cong [of V, OF f(1)] f(2) [OF refl]
        by (intro exI [of _ "Some (ts e)"]) (auto simp: batch_step_def batch_spec_step_def error_of_def Let_def)
    next
      case (Inr u)
      then show ?thesis
        using put step p put_key_map [OF laws p [unfolded Inr, simplified]] km
        by (intro exI [of _ None]) (auto simp: batch_step_def batch_spec_step_def error_of_def Let_def)
    qed
  next
    case get
    show ?thesis
    proof (cases "meta_get_key x (tx_key t) db")
      case (Inl e)
      then show ?thesis
        using get step get_key_unreadable(2) [OF laws Inl]
        by (intro exI [of _ "Some (ts e)"]) (auto simp: batch_step_def batch_spec_step_def Let_def)
    next
      case (Inr r)
      then show ?thesis
        using get step get_key_map [OF laws Inr]
        by (intro exI [of _ None]) (auto simp: batch_step_def batch_spec_step_def Let_def split: option.splits)
    qed
  next
    case del
    obtain r db1 where p: "meta_delete_key x (tx_key t) db = (r, db1)" by fastforce
    show ?thesis
    proof (cases r)
      case (Inl e)
      note f = delete_key_failed [OF laws p [unfolded Inl]]
      show ?thesis
        using Inl del step p meta_map_cong [of V, OF f(1)] meta_sound_cong [of V, OF f(1)] f(2)
        by (intro exI [of _ "Some (ts e)"]) (auto simp: batch_step_def batch_spec_step_def error_of_def Let_def)
    next
      case (Inr u)
      then show ?thesis
        using del step p delete_key_map [OF laws p [unfolded Inr, simplified]]
        by (intro exI [of _ None]) (auto simp: batch_step_def batch_spec_step_def error_of_def Let_def)
    qed
  next
    case bad
    then show ?thesis using step by (intro exI [of _ None]) (auto simp: batch_step_def batch_spec_step_def Let_def)
  next
    case other
    then show ?thesis using step by (intro exI [of _ None]) (auto simp: batch_step_def batch_spec_step_def Let_def)
  qed
qed

lemma batch_fold_spec:
  assumes laws: "meta_laws x V" and "fold (batch_step ts jt x) ops (rs, db) = (rs', db')"
  shows "\<exists>refused. length refused = length ops \<and>
    fold (batch_spec_step jt) (zip ops refused) (rs, meta_map x V db) = (rs', meta_map x V db') \<and>
    (meta_sound x V db \<longrightarrow> meta_sound x V db' \<and> (meta_works x \<longrightarrow> set refused \<subseteq> {None}))"
  using assms(2)
proof (induction ops arbitrary: rs db)
  case (Cons t ops)
  obtain rs1 db1 where s: "batch_step ts jt x t (rs, db) = (rs1, db1)" by fastforce
  then have f: "fold (batch_step ts jt x) ops (rs1, db1) = (rs', db')" using Cons.prems by simp
  obtain e where e: "batch_spec_step jt (t, e) (rs, meta_map x V db) = (rs1, meta_map x V db1)"
    "meta_sound x V db \<longrightarrow> meta_sound x V db1 \<and> (meta_works x \<longrightarrow> e = None)"
    using batch_step_spec [OF laws s] by blast
  obtain es where "length es = length ops"
    "fold (batch_spec_step jt) (zip ops es) (rs1, meta_map x V db1) = (rs', meta_map x V db')"
    "meta_sound x V db1 \<longrightarrow> meta_sound x V db' \<and> (meta_works x \<longrightarrow> set es \<subseteq> {None})"
    using Cons.IH [OF f] by blast
  then show ?case using e by (intro exI [of _ "e # es"]) auto
qed simp

section \<open>Properties\<close>

text \<open>
  C26. What a transaction does: it answers 200 whatever its operations are, every
  well-formed operation is carried out and reported as successful, in order, every other
  one is reported as failed and skipped. Afterwards a key holds what the last well-formed
  operation on it wrote. A failed operation takes nothing back.
\<close>

theorem transaction_effect:
  assumes "transaction_ops ops st = (resp, st')" and "ws = List.map_filter tx_write ops"
  shows "storage_get (cs_storage st') k = last_write k ws (storage_get (cs_storage st) k) \<and>
    resp = ok_json (JObj [(''results'', JArr (map (tx_result_json \<circ> tx_answer) ops)),
      (''total_operations'', JNum (int (length ops))), (''successful_operations'', JNum (int (length ws)))])"
  using assms by (auto simp: transaction_ops_def transaction_fold global.get_writes log_event_def)

definition demo_state :: "demo_db coord_state" where
  "demo_state = \<lparr>cs_metadata = (\<lambda>_. []), cs_placement = placement_new 256 3, cs_raft = raft_new ''n1'',
     cs_storage = new_memory, cs_keys = keystore_new, cs_audit = [], cs_watch = [], cs_global = None\<rparr>"

theorem transaction_effect_witness:
  "storage_get (cs_storage (snd (transaction_ops [\<lparr>tx_op = ''put'', tx_key = ''a'', tx_value = Some ''1''\<rparr>,
       \<lparr>tx_op = ''incr'', tx_key = ''a'', tx_value = None\<rparr>] demo_state))) ''a'' = Some (as_bytes ''1'')"
  using transaction_effect [OF surjective_pairing refl, of "[\<lparr>tx_op = ''put'', tx_key = ''a'', tx_value = Some ''1''\<rparr>,
      \<lparr>tx_op = ''incr'', tx_key = ''a'', tx_value = None\<rparr>]" demo_state "''a''"]
  by (simp add: map_filter_simps tx_write_def last_write_def)

text \<open>
  C27. Objects: a stored object is read back as it was written under every bucket and key
  that join to the same path, all other objects are unchanged, and the answer is 200 with
  the number of bytes whatever the TTL header says and whether or not there are volumes.
  The metadata does not change, so an object whose key the metadata does not know is
  listed neither by a search nor by an export.
\<close>

theorem s3_roundtrip:
  assumes "s3_put_object x digest b k hs d st = (resp, st')"
  shows "rs_status resp = 200 \<and> cs_metadata st' = cs_metadata st \<and>
    s3_get_object b' k' st' = (if b' @ ''/'' @ k' = b @ ''/'' @ k then \<lparr>rs_status = 200, rs_body = BRaw d\<rparr>
      else s3_get_object b' k' st) \<and>
    (meta_laws x V \<longrightarrow> V (cs_metadata st) CF_KEYS (as_bytes (b @ ''/'' @ k)) = None \<longrightarrow>
      meta_list_keys x (cs_metadata st) = Inr keys \<longrightarrow>
        search_keys ts x v st' = search_keys ts x v st \<and> admin_export ts x st' = admin_export ts x st)"
proof (intro conjI impI)
  let ?k = "b @ ''/'' @ k"
  have st': "cs_metadata st' = cs_metadata st" "cs_storage st' = storage_put ?k d (cs_storage st)" "rs_status resp = 200"
    using assms by (auto simp: s3_put_object_def send_watch_def Let_def)
  then show "rs_status resp = 200" "cs_metadata st' = cs_metadata st" by simp_all
  show "s3_get_object b' k' st' = (if b' @ ''/'' @ k' = ?k then \<lparr>rs_status = 200, rs_body = BRaw d\<rparr>
      else s3_get_object b' k' st)"
    by (simp add: s3_get_object_def st' global.get_put del: append_Cons append.simps)
  assume laws: "meta_laws x V" and none: "V (cs_metadata st) CF_KEYS (as_bytes ?k) = None"
    and keys: "meta_list_keys x (cs_metadata st) = Inr keys"
  have "?k \<notin> set keys" using list_keys_view(3) [OF laws keys, of ?k] none by blast
  then have same: "storage_get (cs_storage st') key = storage_get (cs_storage st) key" if "key \<in> set keys" for key
    using that by (metis st'(2) global.get_put)
  have "filter (search_match st' v) keys = filter (search_match st v) keys"
    by (rule filter_cong) (simp_all add: search_match_def same)
  then show "search_keys ts x v st' = search_keys ts x v st" by (simp add: search_keys_def st'(1) keys)
  have "List.map_filter (export_line st') keys = List.map_filter (export_line st) keys"
    by (rule map_filter_eqI) (simp_all add: export_line_def same)
  then show "admin_export ts x st' = admin_export ts x st" by (simp add: admin_export_def st'(1) keys)
qed

theorem s3_roundtrip_witness:
  "s3_get_object ''a'' ''b'' (snd (s3_put_object demo_meta sum_digest ''a'' ''b'' [(''x-minikv-ttl'', as_bytes ''1'')] [1, 2] demo_state))
     = \<lparr>rs_status = 200, rs_body = BRaw [1, 2]\<rparr>"
  using s3_roundtrip [OF surjective_pairing, of demo_meta sum_digest "''a''" "''b''" "[(''x-minikv-ttl'', as_bytes ''1'')]"
      "[1, 2]" demo_state "''a''" "''b''"] by simp

text \<open>
  C29. Range queries over HTTP: if the keys cannot be listed, the answer is 500 with the
  error. Otherwise the keys answered are exactly the stored keys between the bounds, both
  included, in ascending order and none twice; with the values asked for, each key comes
  with the metadata stored for it, or null if that cannot be read.
\<close>

theorem range_query_exact:
  assumes "meta_laws x V"
  shows "case meta_list_keys x (cs_metadata st) of
      Inl e \<Rightarrow> range_query ts jt x a b iv st = \<lparr>rs_status = 500, rs_body = BText (''list_keys error: '' @ ts e)\<rparr>
    | Inr keys \<Rightarrow> \<exists>ks vs. sorted ks \<and> distinct ks \<and>
        (\<forall>k. k \<in> set ks \<longleftrightarrow> V (cs_metadata st) CF_KEYS (as_bytes k) \<noteq> None \<and> a \<le> k \<and> k \<le> b) \<and>
        list_all2 (\<lambda>k v. v = (case meta_map x V (cs_metadata st) k of Some m \<Rightarrow> key_metadata_json m | None \<Rightarrow> JNull) \<or>
          v = JNull \<and> \<not> meta_works x) ks vs \<and>
        range_query ts jt x a b iv st = \<lparr>rs_status = 200, rs_body = BText (jt (JObj ((''keys'', JArr (map JStr ks)) #
          (if iv = Some True then [(''values'', JArr vs)] else []))))\<rparr>"
proof (cases "meta_list_keys x (cs_metadata st)")
  case (Inr keys)
  let ?ks = "range_keys a b keys" and ?db = "cs_metadata st"
  have v: "range_value x ?db k = (case meta_map x V ?db k of Some m \<Rightarrow> key_metadata_json m | None \<Rightarrow> JNull) \<or>
      range_value x ?db k = JNull \<and> \<not> meta_works x" for k
  proof (cases "meta_get_key x k ?db")
    case (Inl e)
    then show ?thesis using get_key_unreadable(1) [OF assms Inl] by (auto simp: range_value_def)
  next
    case (Inr r)
    then show ?thesis using get_key_map [OF assms Inr] by (simp add: range_value_def split: option.split)
  qed
  have "list_all2 (\<lambda>k v. v = (case meta_map x V ?db k of Some m \<Rightarrow> key_metadata_json m | None \<Rightarrow> JNull) \<or>
      v = JNull \<and> \<not> meta_works x) ?ks (map (range_value x ?db) ?ks)"
    unfolding list_all2_map2 by (rule list_all2_refl) (rule v)
  moreover have "range_query ts jt x a b iv st = \<lparr>rs_status = 200, rs_body = BText (jt (JObj ((''keys'', JArr (map JStr ?ks)) #
      (if iv = Some True then [(''values'', JArr (map (range_value x ?db) ?ks))] else []))))\<rparr>"
    using Inr by (simp add: range_query_def Let_def)
  ultimately show ?thesis
    unfolding Inr sum.case using range_keys_exact [OF assms Inr, where a = a and b = b]
    by (intro exI [of _ ?ks] exI [of _ "map (range_value x ?db) ?ks"]) blast
qed (simp add: range_query_def)

definition demo_keys :: demo_db where
  "demo_keys = (\<lambda>_. [])(CF_KEYS := [(as_bytes ''c'', u64_to_le 3 @ as_bytes ''c''), (as_bytes ''x'', u64_to_le 9 @ as_bytes ''x''),
     (as_bytes ''a'', u64_to_le 1 @ as_bytes ''a'')])"

lemma demo_keys_view: "demo_view demo_keys CF_KEYS (as_bytes k) \<noteq> None \<longleftrightarrow> k \<in> {''a'', ''c'', ''x''}"
  by (auto simp: demo_view_def demo_keys_def simp flip: as_bytes_inject)

lemma demo_keys_map:
  "meta_map demo_meta demo_view demo_keys ''a'' = Some (plain_key ''a'' 1)"
  "meta_map demo_meta demo_view demo_keys ''c'' = Some (plain_key ''c'' 3)"
  by (simp_all add: meta_map_def demo_view_def demo_keys_def demo_meta_def codec_simps)

theorem range_query_exact_witness:
  "\<forall>jt. range_query (\<lambda>_. []) jt demo_meta ''a'' ''d'' (Some True) (demo_state\<lparr>cs_metadata := demo_keys\<rparr>) =
     \<lparr>rs_status = 200, rs_body = BText (jt (JObj [(''keys'', JArr [JStr ''a'', JStr ''c'']),
        (''values'', JArr [key_metadata_json (plain_key ''a'' 1), key_metadata_json (plain_key ''c'' 3)])]))\<rparr>"
proof
  fix jt
  let ?st = "demo_state\<lparr>cs_metadata := demo_keys\<rparr>"
  obtain keys where "meta_list_keys demo_meta demo_keys = Inr keys"
    by (simp add: meta_list_keys_def demo_meta_def demo_keys_def from_utf8_def res_simps string_eval)
  then obtain ks vs where k: "sorted ks" "distinct ks"
    "\<And>k. k \<in> set ks \<longleftrightarrow> demo_view demo_keys CF_KEYS (as_bytes k) \<noteq> None \<and> ''a'' \<le> k \<and> k \<le> ''d''"
    and v: "list_all2 (\<lambda>k v. v = (case meta_map demo_meta demo_view demo_keys k of Some m \<Rightarrow> key_metadata_json m | None \<Rightarrow> JNull) \<or>
        v = JNull \<and> \<not> meta_works demo_meta) ks vs"
    and r: "range_query (\<lambda>_. []) jt demo_meta ''a'' ''d'' (Some True) ?st = \<lparr>rs_status = 200, rs_body = BText (jt
        (JObj [(''keys'', JArr (map JStr ks)), (''values'', JArr vs)]))\<rparr>"
    using range_query_exact [OF demo_meta_laws, where st = ?st and ts = "\<lambda>_. []" and jt = jt and a = "''a''"
        and b = "''d''" and iv = "Some True"] by auto
  have "set ks = set [''a'', ''c'']" unfolding demo_keys_view k(3) set_eq_iff by auto
  then have ks: "ks = [''a'', ''c'']"
    using k(1,2) by (intro sorted_distinct_set_unique) auto
  then show "range_query (\<lambda>_. []) jt demo_meta ''a'' ''d'' (Some True) ?st =
     \<lparr>rs_status = 200, rs_body = BText (jt (JObj [(''keys'', JArr [JStr ''a'', JStr ''c'']),
        (''values'', JArr [key_metadata_json (plain_key ''a'' 1), key_metadata_json (plain_key ''c'' 3)])]))\<rparr>"
    using v r by (auto simp: list_all2_Cons1 demo_keys_map demo_meta_works)
qed



text \<open>
  Writing a single key over HTTP stores nothing: whatever the volumes are, the answer
  is that the write was committed, the state is the same as before, and a read of any key
  answers 200 with a text made from its name.
\<close>

theorem put_key_stores_nothing:
  "http_put_key x digest key b st = (\<lparr>rs_status = 200, rs_body = BText (''PUT '' @ key @ '' committed via 2PC'')\<rparr>, st) \<and>
   rs_status (http_get_key key' st) = 200 \<and> snd (http_delete_key key' st) = st"
  by (simp add: http_put_key_def http_get_key_def http_delete_key_def)

end
