(* ===== verification/CoordServer.thy ===== *)
theory CoordServer
  imports Config RaftTimer Http
begin

text \<open>
  \<open>src/src/coordinator/server.rs\<close> and the command of \<open>src/src/bin/coord.rs\<close>: what state a
  coordinator starts with, whether it serves TLS, how starting can fail and how the
  process ends. The sockets and the servers behind them are calls of crates: what these
  return is the record \<open>serve_ext\<close>, and which server ends first, if any does, is an argument.
\<close>

section \<open>Start-up\<close>

record coordinator =
  co_config :: coordinator_config
  co_node_id :: string

definition coordinator_new :: "coordinator_config \<Rightarrow> string \<Rightarrow> coordinator" where
  "coordinator_new c nid = \<lparr>co_config = c, co_node_id = nid\<rparr>"

text \<open>The state \<open>serve\<close> hands to the router, with the statics as they are at the start of the process.\<close>

definition serve_state :: "'db meta_ext \<Rightarrow> coordinator \<Rightarrow> 'db coord_state result" where
  "serve_state x co =
     rbind (meta_open x (cc_db_path (co_config co))) (\<lambda>metadata.
     Inr \<lparr>cs_metadata = metadata,
          cs_placement = placement_new (cc_num_shards (co_config co)) (cc_replicas (co_config co)),
          cs_raft = raft_new (co_node_id co),
          cs_storage = new_memory, cs_keys = keystore_new, cs_audit = [], cs_watch = [], cs_global = None\<rparr>)"

definition use_tls :: "coordinator \<Rightarrow> bool" where
  "use_tls co \<longleftrightarrow> cc_tls_cert_path (co_config co) \<noteq> None \<and> cc_tls_key_path (co_config co) \<noteq> None"

text \<open>The branch of the gRPC server: the paths of certificate and key it loads.\<close>

definition grpc_tls :: "coordinator \<Rightarrow> (string \<times> string) option" where
  "grpc_tls co =
     (case (cc_tls_cert_path (co_config co), cc_tls_key_path (co_config co)) of
        (Some cert_path, Some key_path) \<Rightarrow> Some (cert_path, key_path)
      | _ \<Rightarrow> None)"

text \<open>
  The calls of \<open>axum_server\<close>, \<open>tokio\<close> and \<open>tonic\<close> that can fail: loading certificate and
  key for HTTP, binding the address, reading a file, accepting the identity for gRPC.
\<close>

record serve_ext =
  sx_from_pem_file :: "string \<Rightarrow> string \<Rightarrow> io_error + unit"
  sx_bind :: "socket_addr \<Rightarrow> io_error + unit"
  sx_read :: "string \<Rightarrow> io_error + bytes"
  sx_tls_config :: "bytes \<Rightarrow> bytes \<Rightarrow> string + unit"

text \<open>Creating the HTTP server; \<open>None\<close> is the panic of \<open>unwrap\<close>.\<close>

definition http_server :: "serve_ext \<Rightarrow> coordinator \<Rightarrow> unit result option" where
  "http_server sx co =
     (if use_tls co
      then (case sx_from_pem_file sx (the (cc_tls_cert_path (co_config co))) (the (cc_tls_key_path (co_config co))) of
              Inl _ \<Rightarrow> None
            | Inr _ \<Rightarrow> Some (Inr ()))
      else Some (map_err Io (sx_bind sx (cc_bind_addr (co_config co)))))"

text \<open>Creating the gRPC server; \<open>None\<close> is the panic of \<open>expect\<close>. It binds its address when it runs.\<close>

definition grpc_server :: "serve_ext \<Rightarrow> coordinator \<Rightarrow> unit option" where
  "grpc_server sx co =
     (case grpc_tls co of
        Some (cert_path, key_path) \<Rightarrow>
          (case sx_read sx cert_path of
             Inl _ \<Rightarrow> None
           | Inr cert \<Rightarrow>
               (case sx_read sx key_path of
                  Inl _ \<Rightarrow> None
                | Inr key \<Rightarrow> (case sx_tls_config sx cert key of Inl _ \<Rightarrow> None | Inr _ \<Rightarrow> Some ())))
      | None \<Rightarrow> Some ())"

text \<open>Which of the two servers ends first, and with what; \<open>Serving\<close> is a process that goes on.\<close>

datatype server_end = HttpEnds "string + unit" | GrpcEnds "string + unit"

datatype serve_outcome = Panics | Serving | Returned "unit result" "string list"

fun select_server :: "server_end option \<Rightarrow> serve_outcome" where
  "select_server None = Serving"
| "select_server (Some (HttpEnds (Inl e))) = Returned (Inr ()) [''HTTP server error: '' @ e]"
| "select_server (Some (HttpEnds (Inr _))) = Returned (Inr ()) []"
| "select_server (Some (GrpcEnds (Inl e))) = Returned (Inr ()) [''gRPC server error: '' @ e]"
| "select_server (Some (GrpcEnds (Inr _))) = Returned (Inr ()) []"

definition coordinator_serve :: "'db meta_ext \<Rightarrow> serve_ext \<Rightarrow> server_end option \<Rightarrow> coordinator \<Rightarrow> serve_outcome" where
  "coordinator_serve x sx ends co =
     (case serve_state x co of
        Inl e \<Rightarrow> Returned (Inl e) []
      | Inr st \<Rightarrow>
          (case http_server sx co of
             None \<Rightarrow> Panics
           | Some (Inl e) \<Rightarrow> Returned (Inl e) []
           | Some (Inr _) \<Rightarrow>
               (case grpc_server sx co of
                  None \<Rightarrow> Panics
                | Some _ \<Rightarrow> select_server ends)))"

text \<open>The command: merge the configurations and create the coordinator.\<close>

definition serve_command :: "serve_args \<Rightarrow> config \<Rightarrow> coordinator" where
  "serve_command a loaded = coordinator_new (serve_config a loaded) (sa_id a)"

text \<open>
  \<open>main\<close>: the exit status of the process, \<open>None\<close> while it serves. A \<open>main\<close> that returns
  an error exits with 1, one that panics with 101.
\<close>

definition coord_main :: "'db meta_ext \<Rightarrow> serve_ext \<Rightarrow> server_end option \<Rightarrow> serve_args \<Rightarrow> config \<Rightarrow> nat option" where
  "coord_main x sx ends a loaded =
     (case coordinator_serve x sx ends (serve_command a loaded) of
        Serving \<Rightarrow> None
      | Panics \<Rightarrow> Some 101
      | Returned (Inr _) _ \<Rightarrow> Some 0
      | Returned (Inl _) _ \<Rightarrow> Some 1)"

section \<open>Properties\<close>

lemma serve_stateD:
  assumes "serve_state x co = Inr st"
  shows "cs_raft st = raft_new (co_node_id co)"
    "cs_placement st = placement_new (cc_num_shards (co_config co)) (cc_replicas (co_config co))"
  using assms by (auto simp: serve_state_def res_simps)

text \<open>A node without peers elects itself in the first round after its timeout.\<close>

lemma alone_leads:
  assumes "rd_now d > now + 300 * 1000000"
    and "k = snd (raft_tick d (start_raft_tasks now r (raft_new nid)))"
  shows "is_leader (rk_node k) \<and> current_term (rk_node k) = 1 \<and> leader_id (rk_node k) = Some nid"
proof -
  let ?k = "start_raft_tasks now r (raft_new nid)"
  have n: "\<not> is_leader (raft_new nid)" "peers (raft_new nid) = []" "current_term (raft_new nid) = 0"
    "node_id (raft_new nid) = nid"
    by (simp_all add: raft_new_def is_leader_def)
  have "rd_now d - now > random_timeout r" using assms(1) random_timeout_bounds [of r] by linarith
  then have "rd_now d - rk_last_heartbeat ?k > rk_election_timeout ?k" "rk_node ?k = raft_new nid"
    by (simp_all add: start_raft_tasks_def)
  then show ?thesis
    using n assms(2) by (simp add: raft_tick_def election_alone Let_def is_leader_def)
qed

text \<open>
  C17. A cluster of coordinators is never formed: whatever peers the command line and the
  file name, a started coordinator knows none of them and leads term 1 after the first
  round later than 300 milliseconds. So any two coordinators with different ids lead the
  same term at once, in whatever way they were configured.
\<close>

theorem coordinators_all_lead:
  assumes "serve_state x (serve_command a loaded) = Inr st" and "serve_state y (serve_command b loaded') = Inr st'"
    and "sa_id a \<noteq> sa_id b"
    and "rd_now d > now + 300 * 1000000" and "rd_now d' > now' + 300 * 1000000"
    and "k = snd (raft_tick d (start_raft_tasks now r (cs_raft st)))"
    and "k' = snd (raft_tick d' (start_raft_tasks now' r' (cs_raft st')))"
  shows "peers (cs_raft st) = [] \<and> is_leader (rk_node k) \<and> is_leader (rk_node k') \<and>
    current_term (rk_node k) = current_term (rk_node k') \<and> leader_id (rk_node k) \<noteq> leader_id (rk_node k')"
proof -
  have s: "cs_raft st = raft_new (sa_id a)" "cs_raft st' = raft_new (sa_id b)"
    using serve_stateD(1) [OF assms(1)] serve_stateD(1) [OF assms(2)] by (simp_all add: serve_command_def coordinator_new_def)
  then show ?thesis
    using alone_leads [OF assms(4), of k r "sa_id a"] alone_leads [OF assms(5), of k' r' "sa_id b"] assms(3,6,7)
    by (simp add: raft_new_def)
qed

theorem coordinators_all_lead_witness:
  "\<exists>st st'. serve_state demo_meta (serve_command ((serve_args_default ''a'')\<lparr>sa_peers := [''b'']\<rparr>) demo_file) = Inr st \<and>
     serve_state demo_meta (serve_command ((serve_args_default ''b'')\<lparr>sa_peers := [''a'']\<rparr>) demo_file) = Inr st' \<and>
     is_leader (rk_node (snd (raft_tick demo_round (start_raft_tasks 0 7 (cs_raft st))))) \<and>
     is_leader (rk_node (snd (raft_tick demo_round (start_raft_tasks 0 7 (cs_raft st')))))"
proof -
  have start: "\<exists>st. serve_state demo_meta co = Inr st" for co
    by (simp add: serve_state_def meta_open_def demo_meta_def res_simps)
  obtain st st' where st:
    "serve_state demo_meta (serve_command ((serve_args_default ''a'')\<lparr>sa_peers := [''b'']\<rparr>) demo_file) = Inr st"
    "serve_state demo_meta (serve_command ((serve_args_default ''b'')\<lparr>sa_peers := [''a'']\<rparr>) demo_file) = Inr st'"
    using start by blast
  have "rd_now demo_round > 0 + 300 * 1000000" by (simp add: demo_round_def)
  from coordinators_all_lead [OF st _ this this refl refl, of 7 7] show ?thesis
    using st by (simp add: serve_args_default_def)
qed

text \<open>
  Certificates in the configuration file are not used: a started coordinator serves
  HTTP and gRPC without TLS whatever the file says.
\<close>

theorem configured_tls_unused:
  "\<not> use_tls (serve_command a loaded) \<and> grpc_tls (serve_command a loaded) = None"
  by (simp add: serve_command_def coordinator_new_def use_tls_def grpc_tls_def serve_config_unset)

lemma select_server_Returned:
  "select_server ends = (case ends of None \<Rightarrow> Serving
     | Some (HttpEnds r) \<Rightarrow> Returned (Inr ()) (case r of Inl e \<Rightarrow> [''HTTP server error: '' @ e] | Inr _ \<Rightarrow> [])
     | Some (GrpcEnds r) \<Rightarrow> Returned (Inr ()) (case r of Inl e \<Rightarrow> [''gRPC server error: '' @ e] | Inr _ \<Rightarrow> []))"
  by (cases ends rule: select_server.cases) simp_all

text \<open>
  The exit status of a coordinator: it fails exactly when the metadata store cannot be
  opened or the HTTP address cannot be bound, and it never panics. Once both servers are
  created the process serves until one of them ends and then exits with success, also
  when that server ended with an error, such as a gRPC address that is taken.
\<close>

theorem coord_exit_status:
  "coord_main x sx ends a loaded =
     (if \<not> is_ok (meta_open x (cc_db_path (serve_config a loaded))) \<or>
         \<not> is_ok (sx_bind sx (cc_bind_addr (serve_config a loaded))) then Some 1
      else if ends = None then None
      else Some 0)"
proof -
  have tls: "\<not> use_tls (serve_command a loaded)" "grpc_server sx (serve_command a loaded) = Some ()"
    by (simp_all add: serve_command_def coordinator_new_def use_tls_def grpc_server_def grpc_tls_def serve_config_unset)
  have "serve_state x (serve_command a loaded) = Inl e" if "meta_open x (cc_db_path (serve_config a loaded)) = Inl e" for e
    using that by (simp add: serve_state_def serve_command_def coordinator_new_def)
  moreover have "\<exists>st. serve_state x (serve_command a loaded) = Inr st"
    if "meta_open x (cc_db_path (serve_config a loaded)) = Inr m" for m
    using that by (simp add: serve_state_def serve_command_def coordinator_new_def)
  moreover have "http_server sx (serve_command a loaded) = Some (map_err Io (sx_bind sx (cc_bind_addr (serve_config a loaded))))"
    using tls(1) by (simp add: http_server_def) (simp add: serve_command_def coordinator_new_def)
  ultimately show ?thesis
    using tls(2) by (cases "meta_open x (cc_db_path (serve_config a loaded))";
        cases "sx_bind sx (cc_bind_addr (serve_config a loaded))")
      (auto simp: coord_main_def coordinator_serve_def select_server_Returned split: option.splits server_end.splits)
qed

end
