(* ===== verification/CoordRun.thy ===== *)
theory CoordRun
  imports CoordServer
begin

text \<open>
  A coordinator from its start on: every handler of \<open>src/src/coordinator/http.rs\<close> and
  \<open>src/src/coordinator/grpc.rs\<close> that changes state, and the rounds of the Raft task, as one
  step relation. A step is labelled with the writes it does to the storage behind the
  object endpoints. The lemmas show what each step leaves alone, from which the root
  theory derives what a coordinator answers after any sequence of requests.
\<close>

section \<open>Steps\<close>

inductive coord_step ::
  "'h auth_ext \<Rightarrow> 'db meta_ext \<Rightarrow> 'db coord_state \<Rightarrow> kv_write list \<Rightarrow> 'db coord_state \<Rightarrow> bool"
  for ax :: "'h auth_ext" and x :: "'db meta_ext" where
  do_create_key: "coord_step ax x st [] (snd (admin_create_key ax rnd uuid salt now req st))"
| do_revoke_key: "coord_step ax x st [] (snd (admin_revoke_key key_id st))"
| do_delete_api_key: "coord_step ax x st [] (snd (admin_delete_key key_id st))"
| do_put_object: "coord_step ax x st [WPut (bucket @ ''/'' @ key) b] (snd (s3_put_object x digest bucket key headers b st))"
| do_import: "coord_step ax x st (map (\<lambda>(k, v). WPut k (as_bytes v)) entries) (snd (admin_import entries st))"
| do_transaction: "coord_step ax x st (List.map_filter tx_write operations) (snd (transaction_ops operations st))"
| do_batch: "coord_step ax x st [] (snd (batch_ops to_string json_text x operations st))"
| do_put_key: "coord_step ax x st [] (snd (http_put_key x digest key b st))"
| do_delete_key: "coord_step ax x st [] (snd (http_delete_key key st))"
| do_grpc_batch: "grpc_batch to_string x batch st = Some (results, st') \<Longrightarrow> coord_step ax x st [] st'"
| do_raft_round: "rk_node k = cs_raft st \<Longrightarrow> raft_tick d k = (sent, k') \<Longrightarrow> coord_step ax x st [] (st\<lparr>cs_raft := rk_node k'\<rparr>)"

inductive coord_run ::
  "'h auth_ext \<Rightarrow> 'db meta_ext \<Rightarrow> 'db coord_state \<Rightarrow> kv_write list \<Rightarrow> 'db coord_state \<Rightarrow> bool"
  for ax :: "'h auth_ext" and x :: "'db meta_ext" where
  run_start: "coord_run ax x st [] st"
| run_step: "coord_run ax x st ws st' \<Longrightarrow> coord_step ax x st' us st'' \<Longrightarrow> coord_run ax x st (ws @ us) st''"

section \<open>What steps change\<close>

lemmas handler_defs = admin_create_key_def admin_revoke_key_def admin_delete_key_def s3_put_object_def
  admin_import_def transaction_ops_def batch_ops_def http_put_key_def http_delete_key_def log_event_def send_watch_def

lemma import_fold:
  "fold (\<lambda>(k, v) st. st\<lparr>cs_storage := storage_put k (as_bytes v) (cs_storage st)\<rparr>) entries st
     = st\<lparr>cs_storage := fold global.write_op (map (\<lambda>(k, v). WPut k (as_bytes v)) entries) (cs_storage st)\<rparr>"
  by (induction entries arbitrary: st) (auto simp: global.write_op.simps)

text \<open>The storage is written by the labelled writes and by nothing else.\<close>

lemma coord_step_storage:
  "coord_step ax x st ws st' \<Longrightarrow> cs_storage st' = fold global.write_op ws (cs_storage st)"
  by (induction rule: coord_step.induct)
    (auto simp: handler_defs import_fold transaction_fold grpc_batch_def Let_def global.write_op.simps
      split: option.splits prod.splits sum.splits)

text \<open>No step gives the gRPC service a store.\<close>

lemma coord_step_global: "coord_step ax x st ws st' \<Longrightarrow> cs_global st = None \<Longrightarrow> cs_global st' = None"
  by (induction rule: coord_step.induct)
    (auto simp: handler_defs import_fold grpc_batch_def get_global_store_def Let_def
      split: option.splits prod.splits sum.splits)

lemma raft_tick_peers: "raft_tick d k = (sent, k') \<Longrightarrow> peers (rk_node k') = peers (rk_node k)"
  by (auto simp: raft_tick_def Let_def start_election_and_collect_votes_def start_election_def finish_election_def
      become_leader_def step_down_def split: if_splits)

lemma coord_step_peers: "coord_step ax x st ws st' \<Longrightarrow> peers (cs_raft st') = peers (cs_raft st)"
  by (induction rule: coord_step.induct)
    (auto simp: handler_defs import_fold grpc_batch_def Let_def raft_tick_peers
      split: option.splits prod.splits sum.splits)

lemma coord_run_storage:
  "coord_run ax x st ws st' \<Longrightarrow> storage_get (cs_storage st') k = last_write k ws (storage_get (cs_storage st) k)"
proof -
  assume "coord_run ax x st ws st'"
  then have "cs_storage st' = fold global.write_op ws (cs_storage st)"
    by (induction rule: coord_run.induct) (simp_all add: coord_step_storage)
  then show ?thesis by (simp add: global.get_writes)
qed

lemma coord_run_global: "coord_run ax x st ws st' \<Longrightarrow> cs_global st = None \<Longrightarrow> cs_global st' = None"
  by (induction rule: coord_run.induct) (auto dest: coord_step_global)

lemma coord_run_peers: "coord_run ax x st ws st' \<Longrightarrow> peers (cs_raft st') = peers (cs_raft st)"
  by (induction rule: coord_run.induct) (auto dest: coord_step_peers)

lemma started_state:
  assumes "serve_state x co = Inr st"
  shows "storage_get (cs_storage st) k = None" "cs_global st = None" "peers (cs_raft st) = []"
  using assms
  by (auto simp: serve_state_def res_simps rbind_eq_Inr new_memory_def mem_new_def storage_get_def mem_get_def raft_new_def)

end
