(* ===== verification/Ops.thy ===== *)
theory Ops
  imports Http
begin

text \<open>
  The operations tools \<open>src/src/ops/compact.rs\<close>, \<open>repair.rs\<close> and \<open>verify.rs\<close>, and the
  handlers of \<open>src/src/coordinator/http.rs\<close> that call them or stream change events. Reads of
  a file with a timeout and receptions from a channel are given as the sequence of their
  results. A loop that need not end is a partial function.
\<close>

section \<open>Reports\<close>

record compact_report =
  cp_volumes_compacted :: nat
  cp_bytes_freed :: u64

definition compact_cluster :: "string \<Rightarrow> u64 option \<Rightarrow> compact_report result" where
  "compact_cluster coordinator_url shard = Inr \<lparr>cp_volumes_compacted = 1, cp_bytes_freed = 1024 * 1024 * 1024\<rparr>"

record repair_report =
  rp_keys_checked :: nat
  rp_keys_repaired :: nat
  rp_bytes_copied :: u64

definition repair_cluster :: "string \<Rightarrow> nat \<Rightarrow> bool \<Rightarrow> repair_report result" where
  "repair_cluster coordinator_url replicas dry_run =
     Inr \<lparr>rp_keys_checked = 1000, rp_keys_repaired = 10, rp_bytes_copied = 10 * 1024 * 1024\<rparr>"

record verify_report =
  vf_total_keys :: nat
  vf_healthy :: nat
  vf_under_replicated :: nat
  vf_corrupted :: nat
  vf_orphaned :: nat

definition verify_cluster :: "string \<Rightarrow> bool \<Rightarrow> nat \<Rightarrow> verify_report result" where
  "verify_cluster coordinator_url deep concurrency =
     Inr \<lparr>vf_total_keys = 1000, vf_healthy = 980, vf_under_replicated = 10, vf_corrupted = 5, vf_orphaned = 5\<rparr>"

definition prepare_seamless_upgrade :: "string \<Rightarrow> unit result" where
  "prepare_seamless_upgrade coordinator_url = Inr ()"

text \<open>The rebalancing tool with the volumes it logs; \<open>to_string\<close> is the text of an error.\<close>

definition auto_rebalance_cluster :: "(error \<Rightarrow> string) \<Rightarrow> 'db meta_ext \<Rightarrow> string \<Rightarrow> string list \<times> unit result" where
  "auto_rebalance_cluster to_string x coordinator_url =
     (case rbind (map_err (\<lambda>e. Internal (''metadata: '' @ to_string e)) (meta_open x ''/data/coord.db'')) (\<lambda>metadata.
           map_err (\<lambda>e. Internal (''volumes: '' @ to_string e)) (get_healthy_volumes x metadata)) of
        Inl e \<Rightarrow> ([], Inl e)
      | Inr volumes \<Rightarrow>
          let overloaded = filter (\<lambda>v. vm_total_bytes v > 10 * 1024 * 1024 * 1024) volumes
          in (map vm_volume_id overloaded, Inr ()))"

section \<open>Streaming of a blob\<close>

datatype read_outcome = ReadOk nat | ReadErr string | ReadTimeout

partial_function (option) stream_loop :: "(nat \<Rightarrow> read_outcome) \<Rightarrow> nat \<Rightarrow> unit result option" where
  "stream_loop reads i =
     (case reads i of
        ReadOk n \<Rightarrow> if n = 0 then Some (Inr ()) else stream_loop reads (i + 1)
      | ReadErr e \<Rightarrow> Some (Inl (Internal (''stream error: '' @ e)))
      | ReadTimeout \<Rightarrow> Some (Inl (Internal ''stream timeout'')))"

text \<open>\<open>file\<close> tells whether the file at a path can be opened, and if so what the reads return.\<close>

definition stream_large_blob :: "(string \<Rightarrow> (nat \<Rightarrow> read_outcome) option) \<Rightarrow> string \<Rightarrow> string \<Rightarrow> unit result option" where
  "stream_large_blob file volume_id key =
     (case file (''/data/volumes/'' @ volume_id @ ''/'' @ key @ ''.blob'') of
        None \<Rightarrow> Some (Inl (NotFound key))
      | Some reads \<Rightarrow> stream_loop reads 0)"

section \<open>The handlers\<close>

definition repair_json :: "repair_report \<Rightarrow> json" where
  "repair_json r = JObj [(''keys_checked'', JNum (int (rp_keys_checked r))), (''keys_repaired'', JNum (int (rp_keys_repaired r))),
     (''bytes_copied'', JNum (uint (rp_bytes_copied r)))]"

definition compact_json :: "compact_report \<Rightarrow> json" where
  "compact_json r = JObj [(''volumes_compacted'', JNum (int (cp_volumes_compacted r))), (''bytes_freed'', JNum (uint (cp_bytes_freed r)))]"

definition verify_json :: "verify_report \<Rightarrow> json" where
  "verify_json r = JObj [(''total_keys'', JNum (int (vf_total_keys r))), (''healthy'', JNum (int (vf_healthy r))),
     (''under_replicated'', JNum (int (vf_under_replicated r))), (''corrupted'', JNum (int (vf_corrupted r))),
     (''orphaned'', JNum (int (vf_orphaned r)))]"

definition report_response :: "(error \<Rightarrow> string) \<Rightarrow> ('r \<Rightarrow> json) \<Rightarrow> 'r result \<Rightarrow> http_response" where
  "report_response to_string js res =
     (case res of
        Inr report \<Rightarrow> ok_json (JObj [(''status'', JStr ''ok''), (''report'', js report)])
      | Inl e \<Rightarrow> ok_json (JObj [(''status'', JStr ''error''), (''error'', JStr (to_string e))]))"

definition admin_repair :: "(error \<Rightarrow> string) \<Rightarrow> http_response" where
  "admin_repair to_string = report_response to_string repair_json (repair_cluster ''http://localhost:5000'' 3 False)"

definition admin_compact :: "(error \<Rightarrow> string) \<Rightarrow> http_response" where
  "admin_compact to_string = report_response to_string compact_json (compact_cluster ''http://localhost:5000'' None)"

definition admin_verify :: "(error \<Rightarrow> string) \<Rightarrow> http_response" where
  "admin_verify to_string = report_response to_string verify_json (verify_cluster ''http://localhost:5000'' False 16)"

definition admin_scale :: http_response where
  "admin_scale = ok_json (JObj [(''status'', JStr ''scaling triggered'')])"

section \<open>Change events\<close>

text \<open>
  A reception from the broadcast channel delivers an event, reports how many events were
  skipped because the receiver was too slow, or finds the channel closed.
\<close>

datatype recv_outcome = RecvEvent key_change_event | RecvLagged nat | RecvClosed

text \<open>The first \<open>n\<close> receptions of a subscriber of \<open>watch_sse\<close>: what it was sent, and whether it is still subscribed.\<close>

fun watch_sse :: "(key_change_event \<Rightarrow> string) \<Rightarrow> recv_outcome list \<Rightarrow> string list \<times> bool" where
  "watch_sse to_json [] = ([], True)"
| "watch_sse to_json (RecvEvent e # rs) = (case watch_sse to_json rs of (out, live) \<Rightarrow> (to_json e # out, live))"
| "watch_sse to_json (RecvLagged n # rs) = ([], False)"
| "watch_sse to_json (RecvClosed # rs) = ([], False)"

text \<open>The same over a web socket, whose sends may fail.\<close>

fun handle_ws :: "(key_change_event \<Rightarrow> string) \<Rightarrow> (string \<Rightarrow> bool) \<Rightarrow> recv_outcome list \<Rightarrow> string list \<times> bool" where
  "handle_ws to_json send [] = ([], True)"
| "handle_ws to_json send (RecvEvent e # rs) =
     (if \<not> send (to_json e) then ([], False)
      else case handle_ws to_json send rs of (out, live) \<Rightarrow> (to_json e # out, live))"
| "handle_ws to_json send (RecvLagged n # rs) = ([], False)"
| "handle_ws to_json send (RecvClosed # rs) = ([], False)"

section \<open>Properties\<close>

fun is_final :: "read_outcome \<Rightarrow> bool" where
  "is_final (ReadOk n) = (n = 0)"
| "is_final _ = True"

fun final_result :: "read_outcome \<Rightarrow> unit result" where
  "final_result (ReadOk n) = Inr ()"
| "final_result (ReadErr e) = Inl (Internal (''stream error: '' @ e))"
| "final_result ReadTimeout = Inl (Internal ''stream timeout'')"

lemma stream_loop_final: "is_final (reads i) \<Longrightarrow> stream_loop reads i = Some (final_result (reads i))"
  by (cases "reads i") (simp_all add: stream_loop.simps)

lemma stream_loop_next: "\<not> is_final (reads i) \<Longrightarrow> stream_loop reads i = stream_loop reads (Suc i)"
  by (cases "reads i") (simp_all add: stream_loop.simps [of reads i])

lemma stream_loop_skip: "i \<le> k \<Longrightarrow> \<forall>j \<in> {i ..< k}. \<not> is_final (reads j) \<Longrightarrow> stream_loop reads i = stream_loop reads k"
proof (induction "k - i" arbitrary: i)
  case (Suc n)
  then have "stream_loop reads i = stream_loop reads (Suc i)" by (intro stream_loop_next) simp
  also have "\<dots> = stream_loop reads k" using Suc by (intro Suc.hyps(1)) simp_all
  finally show ?case .
qed simp

lemma stream_loop_returns: "stream_loop reads i = Some r \<Longrightarrow> \<exists>k. is_final (reads k)"
proof (erule stream_loop.raw_induct [rotated, where P = "\<lambda>reads i r. \<exists>k. is_final (reads k)"], goal_cases)
  case (1 loop reads i r)
  show ?case
  proof (cases "is_final (reads i)")
    case False
    then show ?thesis using 1(2) by (cases "reads i") (auto dest!: 1(1))
  qed blast
qed

text \<open>
  When streaming a blob ends and with what: it returns exactly when some read returns
  no bytes, fails or times out, and then with the result of the first such read; if every
  read returns bytes it never returns. A file that cannot be opened is reported as not
  found.
\<close>

theorem stream_outcome:
  "stream_large_blob file volume_id key =
     (case file (''/data/volumes/'' @ volume_id @ ''/'' @ key @ ''.blob'') of
        None \<Rightarrow> Some (Inl (NotFound key))
      | Some reads \<Rightarrow>
          if \<exists>k. is_final (reads k) then Some (final_result (reads (LEAST k. is_final (reads k)))) else None)"
proof -
  have "stream_loop reads 0 = Some (final_result (reads (LEAST k. is_final (reads k))))" if "is_final (reads k)" for reads k
  proof -
    have "stream_loop reads 0 = stream_loop reads (LEAST k. is_final (reads k))"
      by (rule stream_loop_skip) (auto dest: not_less_Least)
    also have "\<dots> = Some (final_result (reads (LEAST k. is_final (reads k))))"
      by (rule stream_loop_final) (rule LeastI [of "\<lambda>k. is_final (reads k)", OF that])
    finally show ?thesis .
  qed
  moreover have "stream_loop reads 0 = None" if "\<nexists>k. is_final (reads k)" for reads
    using stream_loop_returns [of reads 0] that by (cases "stream_loop reads 0") auto
  ultimately show ?thesis by (auto simp: stream_large_blob_def split: option.split)
qed

text \<open>
  A subscriber receives every change event in order until it lags: what it is sent are
  exactly the events before the first reception that is not an event, and from a
  reception that reports skipped events on it is unsubscribed for good. Over a web socket
  that accepts every message it is the same.
\<close>

theorem watch_ends_on_lag:
  "watch_sse to_json rs =
     (map (\<lambda>r. case r of RecvEvent e \<Rightarrow> to_json e) (takeWhile (\<lambda>r. case r of RecvEvent e \<Rightarrow> True | _ \<Rightarrow> False) rs),
      list_all (\<lambda>r. case r of RecvEvent e \<Rightarrow> True | _ \<Rightarrow> False) rs) \<and>
   handle_ws to_json (\<lambda>m. True) rs = watch_sse to_json rs"
  by (induction to_json rs rule: watch_sse.induct) auto

end
