(* ===== verification/HttpRouter.thy ===== *)
theory HttpRouter
  imports Ops
begin

text \<open>
  The route table of \<open>create_router\<close> in \<open>src/src/coordinator/http.rs\<close> and which requests
  reach the handlers of single keys. Matching a request against the table is done by the
  crate axum: it is the parameter \<open>dispatch\<close>, and \<open>axum_laws\<close> states its documented
  behaviour (a route without captures is preferred, a capture stands for one non-empty
  segment, a path that is known for other methods only is answered with 405). Routes are
  matched on the path as it was sent; what a handler gets for a capture is percent-decoded,
  and a capture that does not decode to a string is rejected.
\<close>

section \<open>The table\<close>

datatype segment = Static string | Capture string
datatype http_method = GET | POST | PUT | DELETE

datatype handler =
    H_watch_sse | H_watch_ws | H_s3_put_object | H_s3_get_object | H_health | H_health_ready | H_health_live
  | H_put_key | H_get_key | H_delete_key | H_admin_repair | H_admin_compact | H_admin_verify | H_admin_scale
  | H_admin_status | H_admin_create_key | H_admin_list_keys | H_admin_get_key | H_admin_revoke_key
  | H_admin_delete_key | H_admin_import | H_admin_export | H_transaction_ops | H_search_keys | H_metrics
  | H_range_query | H_batch_ops

type_synonym route = "segment list \<times> http_method \<times> handler"

definition create_router :: "route list" where
  "create_router =
     [([Static ''watch'', Static ''sse''], GET, H_watch_sse),
      ([Static ''watch'', Static ''ws''], GET, H_watch_ws),
      ([Static ''s3'', Capture ''bucket'', Capture ''key''], PUT, H_s3_put_object),
      ([Static ''s3'', Capture ''bucket'', Capture ''key''], GET, H_s3_get_object),
      ([Static ''health''], GET, H_health),
      ([Static ''health'', Static ''ready''], GET, H_health_ready),
      ([Static ''health'', Static ''live''], GET, H_health_live),
      ([Capture ''key''], POST, H_put_key),
      ([Capture ''key''], GET, H_get_key),
      ([Capture ''key''], DELETE, H_delete_key),
      ([Static ''admin'', Static ''repair''], POST, H_admin_repair),
      ([Static ''admin'', Static ''compact''], POST, H_admin_compact),
      ([Static ''admin'', Static ''verify''], POST, H_admin_verify),
      ([Static ''admin'', Static ''scale''], POST, H_admin_scale),
      ([Static ''admin'', Static ''status''], GET, H_admin_status),
      ([Static ''admin'', Static ''keys''], POST, H_admin_create_key),
      ([Static ''admin'', Static ''keys''], GET, H_admin_list_keys),
      ([Static ''admin'', Static ''keys'', Capture ''key_id''], GET, H_admin_get_key),
      ([Static ''admin'', Static ''keys'', Capture ''key_id'', Static ''revoke''], POST, H_admin_revoke_key),
      ([Static ''admin'', Static ''keys'', Capture ''key_id''], DELETE, H_admin_delete_key),
      ([Static ''admin'', Static ''import''], POST, H_admin_import),
      ([Static ''admin'', Static ''export''], GET, H_admin_export),
      ([Static ''transaction''], POST, H_transaction_ops),
      ([Static ''search''], GET, H_search_keys),
      ([Static ''metrics''], GET, H_metrics),
      ([Static ''range''], GET, H_range_query),
      ([Static ''batch''], POST, H_batch_ops)]"

section \<open>Matching\<close>

datatype routed = Handled handler "(string \<times> string) list" | MethodNotAllowed | RouteNotFound | PathRejected

text \<open>The values of the captures when a pattern matches the segments of a path.\<close>

fun captures :: "segment list \<Rightarrow> string list \<Rightarrow> (string \<times> string) list option" where
  "captures [] [] = Some []"
| "captures (Static s # ps) (x # xs) = (if s = x then captures ps xs else None)"
| "captures (Capture n # ps) (x # xs) = (if x = [] then None else map_option (\<lambda>bs. (n, x) # bs) (captures ps xs))"
| "captures _ _ = None"

definition pick_method :: "route list \<Rightarrow> segment list \<Rightarrow> http_method \<Rightarrow> (string \<times> string) list \<Rightarrow> routed" where
  "pick_method rs pat m bs =
     (case filter (\<lambda>(p, m', h). p = pat \<and> m' = m) rs of (p, m', h) # _ \<Rightarrow> Handled h bs | [] \<Rightarrow> MethodNotAllowed)"

definition matching :: "route list \<Rightarrow> string list \<Rightarrow> segment list set" where
  "matching rs segs = {p \<in> fst ` set rs. captures p segs \<noteq> None}"

text \<open>What the extractor hands to a handler; a text without a percent sign decodes to itself.\<close>

fun captured :: "(string \<Rightarrow> string option) \<Rightarrow> routed \<Rightarrow> routed" where
  "captured decode (Handled h bs) =
     (if list_all (\<lambda>(n, v). decode v \<noteq> None) bs then Handled h (map (\<lambda>(n, v). (n, the (decode v))) bs) else PathRejected)"
| "captured decode r = r"

definition axum_laws ::
  "(string \<Rightarrow> string option) \<Rightarrow> (route list \<Rightarrow> http_method \<Rightarrow> string list \<Rightarrow> routed) \<Rightarrow> bool" where
  "axum_laws decode dispatch \<longleftrightarrow>
     (\<forall>v. CHR ''%'' \<notin> set v \<longrightarrow> decode v = Some v) \<and>
     (\<forall>rs m segs. map Static segs \<in> fst ` set rs \<longrightarrow> dispatch rs m segs = pick_method rs (map Static segs) m []) \<and>
     (\<forall>rs m segs p bs. matching rs segs = {p} \<and> captures p segs = Some bs \<longrightarrow>
        dispatch rs m segs = captured decode (pick_method rs p m bs)) \<and>
     (\<forall>rs m segs. matching rs segs = {} \<longrightarrow> dispatch rs m segs = RouteNotFound)"

text \<open>The names that the table takes away from single keys.\<close>

definition reserved :: "string list" where
  "reserved = [''health'', ''transaction'', ''search'', ''metrics'', ''range'', ''batch'']"

section \<open>Properties\<close>

lemma captures_static: "captures (map Static xs) ys = (if xs = ys then Some [] else None)"
proof (induction xs arbitrary: ys)
  case Nil
  then show ?case by (cases ys) auto
next
  case (Cons x xs)
  then show ?case by (cases ys) auto
qed

lemma captures_length: "captures p xs = Some bs \<Longrightarrow> length xs = length p"
  by (induction p xs arbitrary: bs rule: captures.induct) (auto split: if_splits)

lemma router_short:
  "filter (\<lambda>p. length p = 1) (map fst create_router) =
     [Static ''health''] # replicate 3 [Capture ''key''] @ map (\<lambda>s. [Static s]) (tl reserved)"
  by (simp add: create_router_def reserved_def numeral_3_eq_3)

lemma router_patterns1:
  "p \<in> fst ` set create_router \<and> length p = 1 \<longleftrightarrow> p = [Capture ''key''] \<or> p \<in> (\<lambda>s. [Static s]) ` set reserved"
proof -
  have "(\<lambda>s. [Static s]) ` set reserved = insert [Static ''health''] ((\<lambda>s. [Static s]) ` set (tl reserved))"
    by (simp add: reserved_def)
  moreover have "p \<in> fst ` set create_router \<and> length p = 1 \<longleftrightarrow> p \<in> set (filter (\<lambda>p. length p = 1) (map fst create_router))"
    by auto
  ultimately show ?thesis unfolding router_short by auto
qed

lemma router_key_pattern:
  assumes "k \<noteq> []" "k \<notin> set reserved"
  shows "matching create_router [k] = {[Capture ''key'']}"
proof -
  have "p = [Capture ''key'']" if "p \<in> fst ` set create_router" "captures p [k] \<noteq> None" for p
  proof -
    have "length p = 1" using that(2) captures_length [of p "[k]"] by auto
    then show ?thesis using router_patterns1 [of p] that assms(2) by (auto split: if_splits)
  qed
  moreover have "[Capture ''key''] \<in> fst ` set create_router" using router_patterns1 by blast
  moreover have "captures [Capture ''key''] [k] \<noteq> None" using assms(1) by simp
  ultimately show ?thesis unfolding matching_def by blast
qed

lemma pick_key:
  "pick_method create_router [Capture ''key''] m bs =
     (case m of POST \<Rightarrow> Handled H_put_key bs | GET \<Rightarrow> Handled H_get_key bs | DELETE \<Rightarrow> Handled H_delete_key bs | PUT \<Rightarrow> MethodNotAllowed)"
  by (cases m) (simp_all add: pick_method_def create_router_def)

lemma route_key:
  assumes "axum_laws decode dispatch" "k \<noteq> []" "k \<notin> set reserved"
  shows "dispatch create_router m [k] =
    captured decode (case m of POST \<Rightarrow> Handled H_put_key [(''key'', k)] | GET \<Rightarrow> Handled H_get_key [(''key'', k)]
     | DELETE \<Rightarrow> Handled H_delete_key [(''key'', k)] | PUT \<Rightarrow> MethodNotAllowed)"
proof -
  have "captures [Capture ''key''] [k] = Some [(''key'', k)]" using assms(2) by simp
  then show ?thesis
    using assms(1) router_key_pattern [OF assms(2,3)] unfolding axum_laws_def pick_key [symmetric] by blast
qed

lemma decode_plain: "axum_laws decode dispatch \<Longrightarrow> CHR ''%'' \<notin> set v \<Longrightarrow> decode v = Some v"
  by (simp add: axum_laws_def)

lemma pick_reserved:
  assumes "k \<in> set reserved"
  shows "pick_method create_router [Static k] m [] =
    (if m = GET \<and> k \<in> {''health'', ''search'', ''metrics'', ''range''}
     then Handled (if k = ''health'' then H_health else if k = ''search'' then H_search_keys else if k = ''metrics'' then H_metrics else H_range_query) []
     else if m = POST \<and> k \<in> {''transaction'', ''batch''}
     then Handled (if k = ''batch'' then H_batch_ops else H_transaction_ops) []
     else MethodNotAllowed)"
proof -
  have "k = ''health'' \<or> k = ''transaction'' \<or> k = ''search'' \<or> k = ''metrics'' \<or> k = ''range'' \<or> k = ''batch''"
    using assms by (auto simp: reserved_def)
  then show ?thesis
    by (elim disjE; cases m) (simp_all add: pick_method_def create_router_def)
qed

lemma route_reserved:
  assumes "axum_laws decode dispatch" "k \<in> set reserved"
  shows "dispatch create_router m [k] = pick_method create_router [Static k] m []"
proof -
  have "map Static [k] \<in> fst ` set create_router"
    using assms(2) router_patterns1 [of "[Static k]"] by auto
  then have "dispatch create_router m [k] = pick_method create_router (map Static [k]) m []"
    using assms(1) unfolding axum_laws_def by blast
  then show ?thesis by simp
qed

text \<open>
  C35. Which keys can be reached by their own path: a request for the one-segment path
  \<open>/k\<close> reaches the write, read or delete handler, with the key that \<open>k\<close> decodes to, exactly
  when \<open>k\<close> as it was sent is none of the six names of other endpoints; a segment without a percent
  sign is its own key. For those names a write is refused with 405 or taken as a batch or a
  transaction, a read answers something else, and a delete is always refused.
\<close>

theorem key_routes_exact:
  assumes "axum_laws decode dispatch" and "k \<noteq> []"
  shows "(\<forall>key. decode k = Some key \<longrightarrow>
      (dispatch create_router POST [k] = Handled H_put_key [(''key'', key)] \<longleftrightarrow> k \<notin> set reserved) \<and>
      (dispatch create_router GET [k] = Handled H_get_key [(''key'', key)] \<longleftrightarrow> k \<notin> set reserved) \<and>
      (dispatch create_router DELETE [k] = Handled H_delete_key [(''key'', key)] \<longleftrightarrow> k \<notin> set reserved)) \<and>
    (CHR ''%'' \<notin> set k \<longrightarrow> decode k = Some k) \<and>
    (k \<in> set reserved \<longrightarrow> dispatch create_router DELETE [k] = MethodNotAllowed \<and>
       dispatch create_router POST [k] \<in> {MethodNotAllowed, Handled H_batch_ops [], Handled H_transaction_ops []})"
  using route_key [OF assms] route_reserved [OF assms(1), of k] pick_reserved [of k] decode_plain [OF assms(1), of k]
  by (cases "k \<in> set reserved") (simp_all split: if_splits)

text \<open>A dispatcher with the documented behaviour, which takes no percent-encoded captures.\<close>

definition plain_decode :: "string \<Rightarrow> string option" where
  "plain_decode v = (if CHR ''%'' \<in> set v then None else Some v)"

definition first_match :: "route list \<Rightarrow> http_method \<Rightarrow> string list \<Rightarrow> routed" where
  "first_match rs m segs =
     (if map Static segs \<in> set (map fst rs) then pick_method rs (map Static segs) m []
      else case filter (\<lambda>p. captures p segs \<noteq> None) (map fst rs) of
        [] \<Rightarrow> RouteNotFound
      | p # _ \<Rightarrow> captured plain_decode (pick_method rs p m (the (captures p segs))))"

lemma captured_static: "captured decode (pick_method rs p m []) = pick_method rs p m []"
  by (simp add: pick_method_def split: list.split)

lemma first_match_laws: "axum_laws plain_decode first_match"
proof -
  have "first_match rs m segs = captured plain_decode (pick_method rs p m bs)"
    if "matching rs segs = {p}" "captures p segs = Some bs" for rs m segs p bs
  proof (cases "map Static segs \<in> fst ` set rs")
    case True
    then have "map Static segs \<in> matching rs segs" by (simp add: matching_def captures_static)
    then have "p = map Static segs" "bs = []" using that by (auto simp: captures_static)
    then show ?thesis using True by (simp add: first_match_def captured_static)
  next
    case False
    define l where "l = filter (\<lambda>p. captures p segs \<noteq> None) (map fst rs)"
    have s: "set l = {p}" using that(1) by (auto simp: matching_def l_def)
    then obtain p' ps where l: "l = p' # ps" by (cases l) simp_all
    have "p' \<in> {p}" unfolding s [symmetric] l by simp
    then have "filter (\<lambda>p. captures p segs \<noteq> None) (map fst rs) = p # ps"
      using l by (simp add: l_def)
    then show ?thesis using False that(2) by (simp add: first_match_def)
  qed
  moreover have "first_match rs m segs = RouteNotFound" if "matching rs segs = {}" for rs m segs
  proof -
    have "captures (map Static segs) segs \<noteq> None" by (simp add: captures_static)
    then have "map Static segs \<notin> fst ` set rs" using that unfolding matching_def by blast
    moreover have "filter (\<lambda>p. captures p segs \<noteq> None) (map fst rs) = []"
      using that by (auto simp: matching_def filter_empty_conv)
    ultimately show ?thesis by (simp add: first_match_def)
  qed
  ultimately show ?thesis by (auto simp: axum_laws_def first_match_def plain_decode_def)
qed

theorem key_routes_exact_witness:
  "first_match create_router POST [''user42''] = Handled H_put_key [(''key'', ''user42'')] \<and>
   first_match create_router DELETE [''metrics''] = MethodNotAllowed"
  using key_routes_exact [OF first_match_laws, of "''user42''"] key_routes_exact [OF first_match_laws, of "''metrics''"]
  by (simp add: reserved_def plain_decode_def)

end
