(* ===== verification/Cli.thy ===== *)
theory Cli
  imports HttpRouter
begin

text \<open>
  The command-line client \<open>src/src/bin/cli.rs\<close>, and what its key commands do together with
  the coordinator behind the router. Files, HTTP requests and the text of a status are the
  environment of a command; parsing of arguments is a call of the crate clap. The result
  of a command is what it prints, what it writes to files and its exit, \<open>None\<close> when it does
  not return.
\<close>

section \<open>Commands\<close>

datatype commands =
    CmdVerify (vy_deep: bool) (vy_concurrency: nat)
  | CmdRepair (ry_replicas: nat) (ry_dry_run: bool)
  | CmdCompact (cy_shard: "u64 option")
  | CmdPut (py_key: string) (py_file: string)
  | CmdGet (gy_key: string) (gy_output: string)
  | CmdDelete (dy_key: string)
  | CmdRebalance
  | CmdUpgrade
  | CmdStream (sy_key: string)

record 's cli_env =
  ce_read :: "string \<Rightarrow> string + bytes"
  ce_write :: "string \<Rightarrow> bytes \<Rightarrow> string + unit"
  ce_http :: "http_method \<Rightarrow> string \<Rightarrow> bytes \<Rightarrow> 's \<Rightarrow> (string + nat \<times> bytes) \<times> 's"
  ce_status :: "nat \<Rightarrow> string"
  ce_blob :: "string \<Rightarrow> (nat \<Rightarrow> read_outcome) option"

record cli_result =
  cr_out :: "string list"
  cr_files :: "(string \<times> bytes) list"
  cr_exit :: "string + unit"

definition printed :: "string list \<Rightarrow> cli_result" where
  "printed ls = \<lparr>cr_out = ls, cr_files = [], cr_exit = Inr ()\<rparr>"

definition failed :: "string \<Rightarrow> cli_result" where
  "failed e = \<lparr>cr_out = [], cr_files = [], cr_exit = Inl e\<rparr>"

definition with_report :: "(error \<Rightarrow> string) \<Rightarrow> 'r result \<Rightarrow> ('r \<Rightarrow> string list) \<Rightarrow> cli_result" where
  "with_report to_string res ls = (case res of Inr r \<Rightarrow> printed (ls r) | Inl e \<Rightarrow> failed (to_string e))"

definition cli_put :: "'s cli_env \<Rightarrow> string \<Rightarrow> string \<Rightarrow> string \<Rightarrow> 's \<Rightarrow> cli_result \<times> 's" where
  "cli_put env coordinator key file st =
     (case ce_read env file of
        Inl e \<Rightarrow> (failed e, st)
      | Inr value \<Rightarrow>
          (case ce_http env POST (coordinator @ ''/'' @ key) value st of
             (Inl e, st) \<Rightarrow> (failed e, st)
           | (Inr (status, b), st) \<Rightarrow> (printed [''PUT '' @ key @ '': '' @ ce_status env status], st)))"

text \<open>\<open>Response::text\<close> decodes the body as UTF-8 and replaces what is not.\<close>

definition cli_get :: "'s cli_env \<Rightarrow> string \<Rightarrow> string \<Rightarrow> string \<Rightarrow> 's \<Rightarrow> cli_result \<times> 's" where
  "cli_get env coordinator key output st =
     (case ce_http env GET (coordinator @ ''/'' @ key) [] st of
        (Inl e, st) \<Rightarrow> (failed e, st)
      | (Inr (status, b), st) \<Rightarrow>
          let v = utf8_lossy b
          in if output = [] then (printed [''GET '' @ key @ '': '' @ of_bytes v], st)
             else (case ce_write env output v of
                     Inl e \<Rightarrow> (failed e, st)
                   | Inr _ \<Rightarrow> ((printed [''GET '' @ key @ '': value written to file''])\<lparr>cr_files := [(output, v)]\<rparr>, st)))"

definition cli_delete :: "'s cli_env \<Rightarrow> string \<Rightarrow> string \<Rightarrow> 's \<Rightarrow> cli_result \<times> 's" where
  "cli_delete env coordinator key st =
     (case ce_http env DELETE (coordinator @ ''/'' @ key) [] st of
        (Inl e, st) \<Rightarrow> (failed e, st)
      | (Inr (status, b), st) \<Rightarrow> (printed [''DELETE '' @ key @ '': '' @ ce_status env status], st))"

fun cli_main ::
  "(error \<Rightarrow> string) \<Rightarrow> 'db meta_ext \<Rightarrow> 's cli_env \<Rightarrow> string \<Rightarrow> commands \<Rightarrow> 's \<Rightarrow> (cli_result \<times> 's) option" where
  "cli_main to_string x env coordinator (CmdVerify deep concurrency) st =
     Some (with_report to_string (verify_cluster coordinator deep concurrency) (\<lambda>r.
       [''Verification report:'', ''  Total keys: '' @ show_nat (vf_total_keys r), ''  Healthy: '' @ show_nat (vf_healthy r),
        ''  Under-replicated: '' @ show_nat (vf_under_replicated r), ''  Corrupted: '' @ show_nat (vf_corrupted r),
        ''  Orphaned: '' @ show_nat (vf_orphaned r)]), st)"
| "cli_main to_string x env coordinator (CmdRepair replicas dry_run) st =
     Some (with_report to_string (repair_cluster coordinator replicas dry_run) (\<lambda>r.
       [''Repair report:'', ''  Keys checked: '' @ show_nat (rp_keys_checked r),
        ''  Keys repaired: '' @ show_nat (rp_keys_repaired r), ''  Bytes copied: '' @ show_nat (unat (rp_bytes_copied r))]), st)"
| "cli_main to_string x env coordinator (CmdCompact shard) st =
     Some (with_report to_string (compact_cluster coordinator shard) (\<lambda>r.
       [''Compaction report:'', ''  Volumes compacted: '' @ show_nat (cp_volumes_compacted r),
        ''  Bytes freed: '' @ show_nat (unat (cp_bytes_freed r))]), st)"
| "cli_main to_string x env coordinator (CmdPut key file) st = Some (cli_put env coordinator key file st)"
| "cli_main to_string x env coordinator CmdRebalance st =
     Some (with_report to_string (snd (auto_rebalance_cluster to_string x coordinator)) (\<lambda>_. [''Auto-rebalancing triggered.'']), st)"
| "cli_main to_string x env coordinator CmdUpgrade st =
     Some (with_report to_string (prepare_seamless_upgrade coordinator) (\<lambda>_. [''Seamless upgrade prepared.'']), st)"
| "cli_main to_string x env coordinator (CmdStream key) st =
     map_option (\<lambda>r. (with_report to_string r (\<lambda>_. [''Streaming large blob for key: '' @ key]), st))
       (stream_large_blob (ce_blob env) ''volume-1'' key)"
| "cli_main to_string x env coordinator (CmdGet key output) st = Some (cli_get env coordinator key output st)"
| "cli_main to_string x env coordinator (CmdDelete key) st = Some (cli_delete env coordinator key st)"

section \<open>The coordinator behind the client\<close>

fun body_bytes :: "(json \<Rightarrow> string) \<Rightarrow> body \<Rightarrow> bytes" where
  "body_bytes to_text (BText s) = as_bytes s"
| "body_bytes to_text (BJson j) = as_bytes (to_text j)"
| "body_bytes to_text (BRaw b) = b"
| "body_bytes to_text (BLines js) = as_bytes (concat (map (\<lambda>j. to_text j @ [CHR 0x0A]) js))"

text \<open>The requests that the router gives to one of the three handlers of single keys.\<close>

definition serve_key ::
  "(route list \<Rightarrow> http_method \<Rightarrow> string list \<Rightarrow> routed) \<Rightarrow> 'db meta_ext \<Rightarrow> (bytes \<Rightarrow> bytes) \<Rightarrow> http_method \<Rightarrow>
     string list \<Rightarrow> bytes \<Rightarrow> 'db coord_state \<Rightarrow> (http_response \<times> 'db coord_state) option" where
  "serve_key dispatch x digest m segs b st =
     (case dispatch create_router m segs of
        Handled H_put_key [(_, k)] \<Rightarrow> Some (http_put_key x digest k b st)
      | Handled H_get_key [(_, k)] \<Rightarrow> Some (http_get_key k st, st)
      | Handled H_delete_key [(_, k)] \<Rightarrow> Some (http_delete_key k st)
      | _ \<Rightarrow> None)"

text \<open>Characters that stand for themselves in a URL.\<close>

definition plain_char :: "char \<Rightarrow> bool" where
  "plain_char c \<longleftrightarrow> (let n = of_char c :: nat in (48 \<le> n \<and> n \<le> 57) \<or> (65 \<le> n \<and> n \<le> 90) \<or> (97 \<le> n \<and> n \<le> 122) \<or> n = 45 \<or> n = 95)"

definition plain_segment :: "string \<Rightarrow> bool" where
  "plain_segment k \<longleftrightarrow> k \<noteq> [] \<and> list_all plain_char k"

text \<open>
  The transport: a request for \<open>base/k\<close> with a body up to the limit of axum, 2 MiB, arrives
  as a request for the path with the one segment \<open>k\<close>, and its response comes back.
\<close>

definition delivers ::
  "string \<Rightarrow> (http_method \<Rightarrow> string list \<Rightarrow> bytes \<Rightarrow> 's \<Rightarrow> (nat \<times> bytes \<times> 's) option) \<Rightarrow> 's cli_env \<Rightarrow> bool" where
  "delivers base serve env \<longleftrightarrow>
     (\<forall>m k b st code rb st'. plain_segment k \<and> length b \<le> 2 * 1024 * 1024 \<and> serve m [k] b st = Some (code, rb, st') \<longrightarrow>
        ce_http env m (base @ ''/'' @ k) b st = (Inr (code, rb), st'))"

definition key_service ::
  "(route list \<Rightarrow> http_method \<Rightarrow> string list \<Rightarrow> routed) \<Rightarrow> (json \<Rightarrow> string) \<Rightarrow> 'db meta_ext \<Rightarrow> (bytes \<Rightarrow> bytes) \<Rightarrow>
     http_method \<Rightarrow> string list \<Rightarrow> bytes \<Rightarrow> 'db coord_state \<Rightarrow> (nat \<times> bytes \<times> 'db coord_state) option" where
  "key_service dispatch to_text x digest m segs b st =
     map_option (\<lambda>(r, st'). (rs_status r, body_bytes to_text (rs_body r), st')) (serve_key dispatch x digest m segs b st)"

section \<open>Properties\<close>

lemma utf8_valid_ascii: "list_all (\<lambda>b. b \<le> 0x7F) bs \<Longrightarrow> utf8_valid bs"
  by (induction bs) (simp_all add: utf8_step_def)

lemma plain_char_ascii: "plain_char c \<Longrightarrow> (word_of_nat (of_char c) :: byte) \<le> 0x7F"
  by (auto simp: plain_char_def Let_def word_le_nat_alt unat_of_nat)

lemma plain_ascii: "list_all plain_char k \<Longrightarrow> list_all (\<lambda>b. b \<le> 0x7F) (as_bytes k)"
  by (induction k) (simp_all add: as_bytes_def plain_char_ascii)

lemma key_service_plain:
  assumes "axum_laws decode dispatch" "k \<noteq> []" "k \<notin> set reserved" "CHR ''%'' \<notin> set k"
  shows "key_service dispatch to_text x digest POST [k] b st = Some (200, as_bytes (''PUT '' @ k @ '' committed via 2PC''), st)"
    "key_service dispatch to_text x digest GET [k] b st = Some (200, as_bytes (''Value for key '' @ k @ '' (fetched from volume)''), st)"
    "key_service dispatch to_text x digest DELETE [k] b st = Some (200, as_bytes (''DELETE '' @ k @ '' succeeded''), st)"
  using route_key [OF assms(1-3)] decode_plain [OF assms(1,4)]
  by (simp_all add: key_service_def serve_key_def http_put_key_def http_get_key_def http_delete_key_def Let_def)

lemma fixed_text_valid:
  assumes "list_all plain_char k"
  shows "utf8_lossy (as_bytes (''Value for key '' @ k @ '' (fetched from volume)'')) = as_bytes (''Value for key '' @ k @ '' (fetched from volume)'')"
proof (rule utf8_lossy_valid, rule utf8_valid_ascii)
  have "list_all (\<lambda>b. b \<le> 0x7F) (as_bytes ''Value for key '')" "list_all (\<lambda>b. b \<le> 0x7F) (as_bytes '' (fetched from volume)'')"
    by (simp_all add: as_bytes_def)
  then show "list_all (\<lambda>b. b \<le> 0x7F) (as_bytes (''Value for key '' @ k @ '' (fetched from volume)''))"
    unfolding as_bytes_append list_all_append using plain_ascii [OF assms] by blast
qed

text \<open>
  C34. What the client's put, get and delete do with a key against the coordinator: all three
  report success and leave its state unchanged, and the file that get writes holds the same
  fixed text whatever file was put before and whether the key was ever put.
\<close>

theorem cli_keys_outcome:
  assumes "axum_laws decode dispatch" and "delivers base (key_service dispatch to_text x digest) env"
    and "plain_segment k" and "k \<notin> set reserved"
    and "ce_read env file = Inr v" and "length v \<le> 2 * 1024 * 1024"
    and "out \<noteq> []" and "\<forall>b. ce_write env out b = Inr ()"
  shows "cli_main to_string y env base (CmdPut k file) st = Some (printed [''PUT '' @ k @ '': '' @ ce_status env 200], st) \<and>
    cli_main to_string y env base (CmdGet k out) st =
      Some ((printed [''GET '' @ k @ '': value written to file''])
        \<lparr>cr_files := [(out, as_bytes (''Value for key '' @ k @ '' (fetched from volume)''))]\<rparr>, st) \<and>
    cli_main to_string y env base (CmdDelete k) st = Some (printed [''DELETE '' @ k @ '': '' @ ce_status env 200], st)"
proof -
  have k: "k \<noteq> []" "list_all plain_char k" "CHR ''%'' \<notin> set k"
    using assms(3) by (auto simp: plain_segment_def list_all_iff plain_char_def)
  note s = key_service_plain [OF assms(1) k(1) assms(4) k(3), of to_text x digest]
  have "ce_http env POST (base @ ''/'' @ k) v st = (Inr (200, as_bytes (''PUT '' @ k @ '' committed via 2PC'')), st)"
    using assms(2,3,6) s(1) [of v st] unfolding delivers_def by blast
  moreover have "ce_http env GET (base @ ''/'' @ k) [] st = (Inr (200, as_bytes (''Value for key '' @ k @ '' (fetched from volume)'')), st)"
    using assms(2,3) s(2) [of "[]" st] unfolding delivers_def by (metis le0 list.size(3))
  moreover have "ce_http env DELETE (base @ ''/'' @ k) [] st = (Inr (200, as_bytes (''DELETE '' @ k @ '' succeeded'')), st)"
    using assms(2,3) s(3) [of "[]" st] unfolding delivers_def by (metis le0 list.size(3))
  ultimately show ?thesis
    unfolding cli_main.simps cli_put_def cli_get_def cli_delete_def assms(5) using assms(7,8) fixed_text_valid [OF k(2)]
    by (simp only: sum.case prod.case Let_def if_False)
qed

text \<open>A client connected to the coordinator of the examples.\<close>

definition demo_env :: "demo_db coord_state cli_env" where
  "demo_env =
     \<lparr>ce_read = (\<lambda>f. Inr [255, 0, 254]), ce_write = (\<lambda>f b. Inr ()),
      ce_http = (\<lambda>m url b st.
        case key_service first_match (\<lambda>j. []) demo_meta (\<lambda>b. b) m [drop 15 url] b st of
          Some (code, rb, st') \<Rightarrow> (Inr (code, rb), st')
        | None \<Rightarrow> (Inl ''refused'', st)),
      ce_status = (\<lambda>n. show_nat n), ce_blob = (\<lambda>p. None)\<rparr>"

theorem cli_keys_outcome_witness:
  "\<exists>r. cli_main (\<lambda>e. []) demo_meta demo_env ''http://host:80'' (CmdGet ''k'' ''out.bin'') demo_state = Some (r, demo_state) \<and>
     cr_files r = [(''out.bin'', as_bytes ''Value for key k (fetched from volume)'')]"
proof -
  have "drop 15 (''http://host:80'' @ ''/'' @ k) = k" for k :: string by simp
  then have "delivers ''http://host:80'' (key_service first_match (\<lambda>j. []) demo_meta (\<lambda>b. b)) demo_env"
    by (simp add: delivers_def demo_env_def)
  moreover have "plain_segment ''k''" "''k'' \<notin> set reserved"
    by (simp_all add: plain_segment_def plain_char_def reserved_def)
  moreover have "ce_read demo_env ''in.bin'' = Inr [255, 0, 254]" "\<forall>b. ce_write demo_env ''out.bin'' b = Inr ()"
    by (simp_all add: demo_env_def)
  ultimately have "cli_main (\<lambda>e. []) demo_meta demo_env ''http://host:80'' (CmdGet ''k'' ''out.bin'') demo_state =
      Some ((printed [''GET '' @ ''k'' @ '': value written to file''])
        \<lparr>cr_files := [(''out.bin'', as_bytes (''Value for key '' @ ''k'' @ '' (fetched from volume)''))]\<rparr>, demo_state)"
    using cli_keys_outcome [OF first_match_laws, of "''http://host:80''" "\<lambda>j. []" demo_meta "\<lambda>b. b" demo_env "''k''"
        "''in.bin''" "[255, 0, 254]" "''out.bin''" "\<lambda>e. []" demo_meta demo_state]
    by (simp del: cli_main.simps)
  then show ?thesis by (simp del: cli_main.simps)
qed

end
