(* ===== verification/AuditLog.thy ===== *)
theory AuditLog
  imports Http
begin

text \<open>
  The logger of \<open>src/src/common/audit.rs\<close>: what the entries of the audit log become in the
  file and on the terminal. \<open>to_json\<close> is \<open>serde_json::to_string\<close>, \<open>None\<close> when it fails; the
  file is its content, \<open>None\<close> when it could not be opened.
\<close>

record audit_logger =
  al_file :: "string option"
  al_to_stdout :: bool
  al_stdout :: "string list"

definition audit_new :: "string option \<Rightarrow> bool \<Rightarrow> audit_logger" where
  "audit_new opened to_stdout = \<lparr>al_file = opened, al_to_stdout = to_stdout, al_stdout = []\<rparr>"

definition audit_line :: "(audit_entry \<Rightarrow> string option) \<Rightarrow> audit_entry \<Rightarrow> string" where
  "audit_line to_json entry = (case to_json entry of Some s \<Rightarrow> s | None \<Rightarrow> ''{}'')"

definition audit_log :: "(audit_entry \<Rightarrow> string option) \<Rightarrow> audit_entry \<Rightarrow> audit_logger \<Rightarrow> audit_logger" where
  "audit_log to_json entry l =
     (let line = audit_line to_json entry;
          l = l\<lparr>al_file := map_option (\<lambda>c. c @ line @ [CHR 0x0A]) (al_file l)\<rparr>
      in if al_to_stdout l then l\<lparr>al_stdout := al_stdout l @ [''[AUDIT] '' @ line]\<rparr> else l)"

section \<open>Reading the log back\<close>

fun lines_of :: "string \<Rightarrow> string \<Rightarrow> string list" where
  "lines_of [] acc = (if acc = [] then [] else [acc])"
| "lines_of (c # cs) acc = (if c = CHR 0x0A then acc # lines_of cs [] else lines_of cs (acc @ [c]))"

lemma lines_of_line: "CHR 0x0A \<notin> set s \<Longrightarrow> lines_of (s @ CHR 0x0A # r) acc = (acc @ s) # lines_of r []"
  by (induction s arbitrary: acc) auto

lemma lines_of_concat:
  "\<forall>s \<in> set ss. CHR 0x0A \<notin> set s \<Longrightarrow> lines_of (concat (map (\<lambda>s. s @ [CHR 0x0A]) ss)) [] = ss"
  by (induction ss) (simp_all add: lines_of_line)

lemma audit_log_fold:
  "al_file (fold (audit_log to_json) es l) =
     map_option (\<lambda>c. c @ concat (map (\<lambda>e. audit_line to_json e @ [CHR 0x0A]) es)) (al_file l)"
  by (induction es arbitrary: l) (simp_all add: audit_log_def Let_def option.map_comp comp_def option.map_ident)

text \<open>
  The file is the trail: started on an empty file, the lines of the log are the texts of the
  entries in order, one line for each, since JSON text holds no line break.
\<close>

theorem audit_trail_lines:
  assumes "\<And>e s. to_json e = Some s \<Longrightarrow> CHR 0x0A \<notin> set s"
  shows "map_option (\<lambda>c. lines_of c []) (al_file (fold (audit_log to_json) es (audit_new (Some []) b))) =
    Some (map (audit_line to_json) es)"
proof -
  have "CHR 0x0A \<notin> set (audit_line to_json e)" for e
    using assms [of e] by (simp add: audit_line_def split: option.split)
  then have "lines_of (concat (map (\<lambda>s. s @ [CHR 0x0A]) (map (audit_line to_json) es))) [] = map (audit_line to_json) es"
    by (intro lines_of_concat) auto
  then show ?thesis by (simp add: audit_log_fold audit_new_def comp_def)
qed

end
