(* ===== verification/DbStorage.thy ===== *)
theory DbStorage
  imports Storage
begin

text \<open>
  The persistent backends of \<open>src/src/common/storage.rs\<close>, \<open>RocksStore\<close> and \<open>SledStore\<close>, over
  the crates they call. A database is a parameter of type \<open>'d\<close> with its operations, which
  may fail with a text; \<open>db_laws\<close> states that one that succeeds changes the contents as
  it says. The backends unwrap every result, so a failure is a panic, \<open>None\<close>.
\<close>

section \<open>The crates\<close>

record 'd db_ext =
  dx_open :: "string \<Rightarrow> string + 'd"
  dx_get :: "'d \<Rightarrow> bytes \<Rightarrow> string + bytes option"
  dx_put :: "'d \<Rightarrow> bytes \<Rightarrow> bytes \<Rightarrow> string + 'd"
  dx_remove :: "'d \<Rightarrow> bytes \<Rightarrow> string + 'd"

definition db_laws :: "'d db_ext \<Rightarrow> ('d \<Rightarrow> bytes \<rightharpoonup> bytes) \<Rightarrow> bool" where
  "db_laws x V \<longleftrightarrow>
     (\<forall>d k r. dx_get x d k = Inr r \<longrightarrow> r = V d k) \<and>
     (\<forall>d k v d'. dx_put x d k v = Inr d' \<longrightarrow> V d' = (V d)(k \<mapsto> v)) \<and>
     (\<forall>d k d'. dx_remove x d k = Inr d' \<longrightarrow> V d' = (V d)(k := None))"

text \<open>A database that is its contents satisfies the laws.\<close>

definition map_db :: "(bytes \<rightharpoonup> bytes) db_ext" where
  "map_db = \<lparr>dx_open = (\<lambda>path. Inr Map.empty), dx_get = (\<lambda>d k. Inr (d k)), dx_put = (\<lambda>d k v. Inr (d(k \<mapsto> v))),
     dx_remove = (\<lambda>d k. Inr (d(k := None)))\<rparr>"

lemma map_db_laws: "db_laws map_db (\<lambda>d. d)"
  by (simp add: db_laws_def map_db_def)

fun unwrap :: "'e + 'a \<Rightarrow> 'a option" where
  "unwrap (Inr a) = Some a"
| "unwrap (Inl e) = None"

section \<open>RocksDB\<close>

record 'd rocks_store = rk_db :: 'd

definition rocks_new :: "'d db_ext \<Rightarrow> string \<Rightarrow> 'd rocks_store option" where
  "rocks_new x path = map_option (\<lambda>d. \<lparr>rk_db = d\<rparr>) (unwrap (dx_open x path))"

definition rocks_get :: "'d db_ext \<Rightarrow> 'd rocks_store \<Rightarrow> string \<Rightarrow> bytes option option" where
  "rocks_get x s key = unwrap (dx_get x (rk_db s) (as_bytes key))"

definition rocks_put :: "'d db_ext \<Rightarrow> string \<Rightarrow> bytes \<Rightarrow> 'd rocks_store \<Rightarrow> 'd rocks_store option" where
  "rocks_put x key v s = map_option (\<lambda>d. s\<lparr>rk_db := d\<rparr>) (unwrap (dx_put x (rk_db s) (as_bytes key) v))"

definition rocks_delete :: "'d db_ext \<Rightarrow> string \<Rightarrow> 'd rocks_store \<Rightarrow> 'd rocks_store option" where
  "rocks_delete x key s = map_option (\<lambda>d. s\<lparr>rk_db := d\<rparr>) (unwrap (dx_remove x (rk_db s) (as_bytes key)))"

section \<open>Sled\<close>

record 'd sled_store = sl_db :: 'd

definition sled_new :: "'d db_ext \<Rightarrow> string \<Rightarrow> 'd sled_store option" where
  "sled_new x path = map_option (\<lambda>d. \<lparr>sl_db = d\<rparr>) (unwrap (dx_open x path))"

definition sled_get :: "'d db_ext \<Rightarrow> 'd sled_store \<Rightarrow> string \<Rightarrow> bytes option option" where
  "sled_get x s key = unwrap (dx_get x (sl_db s) (as_bytes key))"

definition sled_put :: "'d db_ext \<Rightarrow> string \<Rightarrow> bytes \<Rightarrow> 'd sled_store \<Rightarrow> 'd sled_store option" where
  "sled_put x key v s = map_option (\<lambda>d. s\<lparr>sl_db := d\<rparr>) (unwrap (dx_put x (sl_db s) (as_bytes key) v))"

definition sled_delete :: "'d db_ext \<Rightarrow> string \<Rightarrow> 'd sled_store \<Rightarrow> 'd sled_store option" where
  "sled_delete x key s = map_option (\<lambda>d. s\<lparr>sl_db := d\<rparr>) (unwrap (dx_remove x (sl_db s) (as_bytes key)))"

section \<open>Runs of writes\<close>

text \<open>A backend whose operations may panic, and the contents it stands for.\<close>

locale partial_store =
  fixes pget :: "'s \<Rightarrow> string \<Rightarrow> bytes option option"
    and pput :: "string \<Rightarrow> bytes \<Rightarrow> 's \<Rightarrow> 's option"
    and pdelete :: "string \<Rightarrow> 's \<Rightarrow> 's option"
    and laws :: "('s \<Rightarrow> string \<Rightarrow> bytes option) \<Rightarrow> bool"
  assumes pget_law: "laws C \<Longrightarrow> pget s k = Some r \<Longrightarrow> r = C s k"
    and pput_law: "laws C \<Longrightarrow> pput k v s = Some s' \<Longrightarrow> C s' = (C s)(k \<mapsto> v)"
    and pdelete_law: "laws C \<Longrightarrow> pdelete k s = Some s' \<Longrightarrow> C s' = (C s)(k := None)"
begin

primrec pwrite :: "kv_write \<Rightarrow> 's \<Rightarrow> 's option" where
  "pwrite (WPut k v) s = pput k v s"
| "pwrite (WDelete k) s = pdelete k s"

primrec pwrites :: "kv_write list \<Rightarrow> 's \<Rightarrow> 's option" where
  "pwrites [] s = Some s"
| "pwrites (w # ws) s = Option.bind (pwrite w s) (pwrites ws)"

lemma pwrite_content: "laws C \<Longrightarrow> pwrite w s = Some s' \<Longrightarrow> C s' = (C s)(write_key w := write_value w)"
  by (cases w) (auto simp: fun_eq_iff dest: pput_law pdelete_law)

lemma pwrites_content: "laws C \<Longrightarrow> pwrites ws s = Some s' \<Longrightarrow> C s' k = last_write k ws (C s k)"
proof (induction ws arbitrary: s)
  case (Cons w ws)
  then obtain s1 where "pwrite w s = Some s1" "pwrites ws s1 = Some s'" by (auto simp: Option.bind_eq_Some_conv)
  then show ?case
    using Cons.IH [of s1] Cons.prems(1) pwrite_content [of C w s s1] by (auto simp: last_write_def split: list.splits)
qed (simp add: last_write_def)

lemma get_after_writes:
  "laws C \<Longrightarrow> pwrites ws s = Some s' \<Longrightarrow> pget s' k = Some r \<Longrightarrow> r = last_write k ws (C s k)"
  using pget_law pwrites_content by metis

end

definition rocks_laws :: "'d db_ext \<Rightarrow> ('d rocks_store \<Rightarrow> string \<Rightarrow> bytes option) \<Rightarrow> bool" where
  "rocks_laws x C \<longleftrightarrow> (\<exists>V. db_laws x V \<and> C = (\<lambda>s k. V (rk_db s) (as_bytes k)))"

definition sled_laws :: "'d db_ext \<Rightarrow> ('d sled_store \<Rightarrow> string \<Rightarrow> bytes option) \<Rightarrow> bool" where
  "sled_laws x C \<longleftrightarrow> (\<exists>V. db_laws x V \<and> C = (\<lambda>s k. V (sl_db s) (as_bytes k)))"

lemma unwrap_Some: "unwrap r = Some a \<longleftrightarrow> r = Inr a"
  by (cases r) auto

interpretation rocks: partial_store "rocks_get x" "rocks_put x" "rocks_delete x" "rocks_laws x" for x
  by unfold_locales
    (auto simp: rocks_laws_def db_laws_def rocks_get_def rocks_put_def rocks_delete_def unwrap_Some fun_eq_iff)

interpretation sled: partial_store "sled_get x" "sled_put x" "sled_delete x" "sled_laws x" for x
  by unfold_locales
    (auto simp: sled_laws_def db_laws_def sled_get_def sled_put_def sled_delete_def unwrap_Some fun_eq_iff)

text \<open>A backend that cannot fail is a partial one that never panics.\<close>

sublocale kv_store \<subseteq> total: partial_store "\<lambda>s k. Some (get s k)" "\<lambda>k v s. Some (put k v s)" "\<lambda>k s. Some (delete k s)" "\<lambda>C. C = get"
  by unfold_locales (auto simp: get_put get_delete fun_eq_iff)

section \<open>The storage over any backend\<close>

text \<open>
  The field of type \<open>Arc<dyn KVStore>\<close>: one of the three backends, whose method the call
  is dispatched to. The storage of the HTTP handlers is the one \<open>new_memory\<close> makes.
\<close>

datatype ('r, 's) dyn_store = MemBackend mem_store | RocksBackend "'r rocks_store" | SledBackend "'s sled_store"

definition new_memory_dyn :: "('r, 's) dyn_store" where
  "new_memory_dyn = MemBackend mem_new"

definition new_rocks :: "'r db_ext \<Rightarrow> string \<Rightarrow> ('r, 's) dyn_store option" where
  "new_rocks xr path = map_option RocksBackend (rocks_new xr path)"

definition new_sled :: "'s db_ext \<Rightarrow> string \<Rightarrow> ('r, 's) dyn_store option" where
  "new_sled xs path = map_option SledBackend (sled_new xs path)"

fun dyn_get :: "'r db_ext \<Rightarrow> 's db_ext \<Rightarrow> ('r, 's) dyn_store \<Rightarrow> string \<Rightarrow> bytes option option" where
  "dyn_get xr xs (MemBackend m) key = Some (mem_get m key)"
| "dyn_get xr xs (RocksBackend r) key = rocks_get xr r key"
| "dyn_get xr xs (SledBackend d) key = sled_get xs d key"

fun dyn_put :: "'r db_ext \<Rightarrow> 's db_ext \<Rightarrow> string \<Rightarrow> bytes \<Rightarrow> ('r, 's) dyn_store \<Rightarrow> ('r, 's) dyn_store option" where
  "dyn_put xr xs key v (MemBackend m) = Some (MemBackend (mem_put key v m))"
| "dyn_put xr xs key v (RocksBackend r) = map_option RocksBackend (rocks_put xr key v r)"
| "dyn_put xr xs key v (SledBackend d) = map_option SledBackend (sled_put xs key v d)"

fun dyn_delete :: "'r db_ext \<Rightarrow> 's db_ext \<Rightarrow> string \<Rightarrow> ('r, 's) dyn_store \<Rightarrow> ('r, 's) dyn_store option" where
  "dyn_delete xr xs key (MemBackend m) = Some (MemBackend (mem_delete key m))"
| "dyn_delete xr xs key (RocksBackend r) = map_option RocksBackend (rocks_delete xr key r)"
| "dyn_delete xr xs key (SledBackend d) = map_option SledBackend (sled_delete xs key d)"

text \<open>What a backend holds, for databases with the contents \<open>V\<close> and \<open>U\<close>.\<close>

fun dyn_content :: "('r \<Rightarrow> bytes \<rightharpoonup> bytes) \<Rightarrow> ('s \<Rightarrow> bytes \<rightharpoonup> bytes) \<Rightarrow> ('r, 's) dyn_store \<Rightarrow> string \<rightharpoonup> bytes" where
  "dyn_content V U (MemBackend m) = mem_get m"
| "dyn_content V U (RocksBackend r) = (\<lambda>k. V (rk_db r) (as_bytes k))"
| "dyn_content V U (SledBackend d) = (\<lambda>k. U (sl_db d) (as_bytes k))"

definition dyn_laws :: "'r db_ext \<Rightarrow> 's db_ext \<Rightarrow> (('r, 's) dyn_store \<Rightarrow> string \<Rightarrow> bytes option) \<Rightarrow> bool" where
  "dyn_laws xr xs C \<longleftrightarrow> (\<exists>V U. db_laws xr V \<and> db_laws xs U \<and> C = dyn_content V U)"

lemma dyn_parts:
  assumes "dyn_laws xr xs C"
  obtains R S where "rocks_laws xr R" "sled_laws xs S"
    "\<And>m. C (MemBackend m) = mem_get m" "\<And>r. C (RocksBackend r) = R r" "\<And>d. C (SledBackend d) = S d"
  using assms that unfolding dyn_laws_def rocks_laws_def sled_laws_def by force

interpretation backends: partial_store "dyn_get xr xs" "dyn_put xr xs" "dyn_delete xr xs" "dyn_laws xr xs" for xr xs
proof
  fix C s k r assume "dyn_laws xr xs C" and "dyn_get xr xs s k = Some r"
  then show "r = C s k"
    by (elim dyn_parts, cases s) (auto dest: rocks.pget_law sled.pget_law)
next
  fix C k v s s' assume "dyn_laws xr xs C" and "dyn_put xr xs k v s = Some s'"
  then show "C s' = (C s)(k \<mapsto> v)"
    by (elim dyn_parts, cases s) (auto dest: rocks.pput_law sled.pput_law simp: mem.total.pput_law)
next
  fix C k s s' assume "dyn_laws xr xs C" and "dyn_delete xr xs k s = Some s'"
  then show "C s' = (C s)(k := None)"
    by (elim dyn_parts, cases s) (auto dest: rocks.pdelete_law sled.pdelete_law simp: mem.total.pdelete_law)
qed

section \<open>Properties\<close>

text \<open>
  Every backend of the storage stores as the in-memory one does: after any writes none of
  which panics, a read that does not panic returns what the last write to its key left, or
  what the backend held before.
\<close>

theorem backend_writes:
  assumes "db_laws xr V" and "db_laws xs U" and "backends.pwrites xr xs ws s = Some s'" and "dyn_get xr xs s' k = Some r"
  shows "r = last_write k ws (dyn_content V U s k)"
  using backends.get_after_writes [of xr xs "dyn_content V U"] assms unfolding dyn_laws_def by blast

theorem backend_writes_witness:
  "last_write ''a'' [WPut ''a'' [1], WDelete ''b'', WPut ''a'' [2]] None = Some [2] \<and>
   new_rocks map_db ''db'' = Some (RocksBackend \<lparr>rk_db = Map.empty\<rparr>)"
  using backend_writes [OF map_db_laws map_db_laws, of "[WPut ''a'' [1], WDelete ''b'', WPut ''a'' [2]]"
      "RocksBackend \<lparr>rk_db = Map.empty\<rparr>" _ "''a''"]
  by (simp add: rocks_put_def rocks_delete_def rocks_get_def map_db_def new_rocks_def rocks_new_def)

end
