(* ===== verification/Quota.thy ===== *)
theory Quota
  imports Errors
begin

text \<open>
  \<open>src/src/common/quota.rs\<close>: tenant quotas for storage, objects and request rates. An
  \<open>Instant\<close> is an integer number of nanoseconds of the monotonic clock, and the time an
  operation reads is its argument \<open>now\<close>. Sums of \<open>u64\<close> wrap as in a release build.
  The rate limiter prunes its history while it checks; \<open>sliding_window\<close> is the
  limiter that remembers every admitted request, and the two are shown to agree.
\<close>

section \<open>Quotas\<close>

type_synonym instant = int

definition DEFAULT_STORAGE_LIMIT :: u64 where "DEFAULT_STORAGE_LIMIT = 10 * 1024 * 1024 * 1024"
definition DEFAULT_OBJECT_LIMIT :: u64 where "DEFAULT_OBJECT_LIMIT = 1000000"
definition DEFAULT_RATE_LIMIT :: u32 where "DEFAULT_RATE_LIMIT = 1000"
definition DEFAULT_RATE_WINDOW :: int where "DEFAULT_RATE_WINDOW = 1000000000"

record tenant_quota =
  tenant_id :: string
  storage_limit :: u64
  object_limit :: u64
  rate_limit :: u32
  enabled :: bool
  created_at :: "instant option"

definition quota_new :: "instant \<Rightarrow> string \<Rightarrow> tenant_quota" where
  "quota_new now t = \<lparr>tenant_id = t, storage_limit = DEFAULT_STORAGE_LIMIT, object_limit = DEFAULT_OBJECT_LIMIT,
     rate_limit = DEFAULT_RATE_LIMIT, enabled = True, created_at = Some now\<rparr>"

definition quota_unlimited :: "instant \<Rightarrow> string \<Rightarrow> tenant_quota" where
  "quota_unlimited now t = \<lparr>tenant_id = t, storage_limit = 0, object_limit = 0, rate_limit = 0,
     enabled = True, created_at = Some now\<rparr>"

definition with_limits :: "instant \<Rightarrow> string \<Rightarrow> u64 \<Rightarrow> u64 \<Rightarrow> u32 \<Rightarrow> tenant_quota" where
  "with_limits now t s b r = \<lparr>tenant_id = t, storage_limit = s, object_limit = b, rate_limit = r,
     enabled = True, created_at = Some now\<rparr>"

section \<open>Usage\<close>

record tenant_usage =
  storage_used :: u64
  object_count :: u64
  request_times :: "instant list"

definition usage_default :: tenant_usage where
  "usage_default = \<lparr>storage_used = 0, object_count = 0, request_times = []\<rparr>"

definition usage_check_storage :: "tenant_quota \<Rightarrow> u64 \<Rightarrow> tenant_usage \<Rightarrow> bool" where
  "usage_check_storage q additional_bytes u \<longleftrightarrow>
     storage_limit q = 0 \<or> storage_used u + additional_bytes \<le> storage_limit q"

definition usage_check_objects :: "tenant_quota \<Rightarrow> u64 \<Rightarrow> tenant_usage \<Rightarrow> bool" where
  "usage_check_objects q additional_objects u \<longleftrightarrow>
     object_limit q = 0 \<or> object_count u + additional_objects \<le> object_limit q"

definition check_rate :: "instant \<Rightarrow> tenant_quota \<Rightarrow> tenant_usage \<Rightarrow> bool \<times> tenant_usage" where
  "check_rate now q u =
     (if rate_limit q = 0 then (True, u)
      else let window_start = now - DEFAULT_RATE_WINDOW;
               u = u\<lparr>request_times := filter (\<lambda>t. t > window_start) (request_times u)\<rparr>
           in ((word_of_nat (length (request_times u)) :: u32) < rate_limit q, u))"

definition record_request :: "instant \<Rightarrow> tenant_usage \<Rightarrow> tenant_usage" where
  "record_request now u = u\<lparr>request_times := request_times u @ [now]\<rparr>"

definition add_storage :: "u64 \<Rightarrow> tenant_usage \<Rightarrow> tenant_usage" where
  "add_storage bytes u = u\<lparr>storage_used := saturating_add (storage_used u) bytes\<rparr>"

definition remove_storage :: "u64 \<Rightarrow> tenant_usage \<Rightarrow> tenant_usage" where
  "remove_storage bytes u = u\<lparr>storage_used := saturating_sub (storage_used u) bytes\<rparr>"

definition add_objects :: "u64 \<Rightarrow> tenant_usage \<Rightarrow> tenant_usage" where
  "add_objects c u = u\<lparr>object_count := saturating_add (object_count u) c\<rparr>"

definition remove_objects :: "u64 \<Rightarrow> tenant_usage \<Rightarrow> tenant_usage" where
  "remove_objects c u = u\<lparr>object_count := saturating_sub (object_count u) c\<rparr>"

section \<open>Check results\<close>

datatype quota_check_result =
    Allowed
  | TenantNotFound
  | StorageLimitExceeded (sle_limit: u64) (sle_used: u64) (sle_requested: u64)
  | ObjectLimitExceeded (ole_limit: u64) (ole_count: u64)
  | RateLimitExceeded (rle_limit: u32) (rle_window_secs: u64)
  | TenantDisabled

fun is_allowed :: "quota_check_result \<Rightarrow> bool" where
  "is_allowed Allowed = True"
| "is_allowed TenantNotFound = True"
| "is_allowed _ = False"

fun error_message :: "quota_check_result \<Rightarrow> string option" where
  "error_message (StorageLimitExceeded limit used requested) =
     Some (''Storage quota exceeded: limit='' @ show_nat (unat limit) @ '' bytes, used='' @ show_nat (unat used) @
           '' bytes, requested='' @ show_nat (unat requested) @ '' bytes'')"
| "error_message (ObjectLimitExceeded limit cnt) =
     Some (''Object count quota exceeded: limit='' @ show_nat (unat limit) @ '', current count='' @ show_nat (unat cnt))"
| "error_message (RateLimitExceeded limit window_secs) =
     Some (''Rate limit exceeded: '' @ show_nat (unat limit) @ '' requests per '' @ show_nat (unat window_secs) @ '' second(s)'')"
| "error_message TenantDisabled = Some ''Tenant is disabled''"
| "error_message Allowed = None"
| "error_message TenantNotFound = None"

section \<open>The manager\<close>

record quota_manager =
  quotas :: "(string, tenant_quota) hashmap"
  usage :: "(string, tenant_usage) hashmap"
  default_quota :: tenant_quota

definition manager_new :: "instant \<Rightarrow> quota_manager" where
  "manager_new now = \<lparr>quotas = [], usage = [], default_quota = quota_new now ''__default__''\<rparr>"

definition set_default_quota :: "tenant_quota \<Rightarrow> quota_manager \<Rightarrow> quota_manager" where
  "set_default_quota q m = m\<lparr>default_quota := q\<rparr>"

definition set_quota :: "tenant_quota \<Rightarrow> quota_manager \<Rightarrow> quota_manager" where
  "set_quota q m = m\<lparr>quotas := hm_insert (tenant_id q) q (quotas m)\<rparr>"

definition get_quota :: "quota_manager \<Rightarrow> string \<Rightarrow> tenant_quota option" where
  "get_quota m t = hm_get (quotas m) t"

definition remove_quota :: "string \<Rightarrow> quota_manager \<Rightarrow> tenant_quota option \<times> quota_manager" where
  "remove_quota t m = (hm_get (quotas m) t, m\<lparr>quotas := hm_remove t (quotas m)\<rparr>)"

definition get_usage :: "quota_manager \<Rightarrow> string \<Rightarrow> tenant_usage" where
  "get_usage m t = (case hm_get (usage m) t of Some u \<Rightarrow> u | None \<Rightarrow> usage_default)"

definition list_quotas :: "quota_manager \<Rightarrow> tenant_quota list" where
  "list_quotas m = map snd (quotas m)"

definition quota_of :: "quota_manager \<Rightarrow> string \<Rightarrow> tenant_quota" where
  "quota_of m t = (case hm_get (quotas m) t of Some q \<Rightarrow> q | None \<Rightarrow> default_quota m)"

definition check_storage :: "quota_manager \<Rightarrow> string \<Rightarrow> u64 \<Rightarrow> quota_check_result" where
  "check_storage m t additional_bytes =
     (let q = quota_of m t in
      if \<not> enabled q then TenantDisabled
      else let u = get_usage m t in
           if usage_check_storage q additional_bytes u then Allowed
           else StorageLimitExceeded (storage_limit q) (storage_used u) additional_bytes)"

definition check_objects :: "quota_manager \<Rightarrow> string \<Rightarrow> quota_check_result" where
  "check_objects m t =
     (let q = quota_of m t in
      if \<not> enabled q then TenantDisabled
      else let u = get_usage m t in
           if usage_check_objects q 1 u then Allowed
           else ObjectLimitExceeded (object_limit q) (object_count u))"

text \<open>The clock is read twice: \<open>now\<close> for the check, and \<open>done_at\<close> for the record of an admitted request.\<close>

definition check_and_record_request :: "instant \<Rightarrow> instant \<Rightarrow> string \<Rightarrow> quota_manager \<Rightarrow> quota_check_result \<times> quota_manager" where
  "check_and_record_request now done_at t m =
     (let q = quota_of m t in
      if \<not> enabled q then (TenantDisabled, m)
      else case check_rate now q (get_usage m t) of
        (ok, u) \<Rightarrow>
          if ok then (Allowed, m\<lparr>usage := hm_insert t (record_request done_at u) (usage m)\<rparr>)
          else (RateLimitExceeded (rate_limit q) (word_of_int (DEFAULT_RATE_WINDOW div 1000000000)),
                m\<lparr>usage := hm_insert t u (usage m)\<rparr>))"

definition record_storage_add :: "string \<Rightarrow> u64 \<Rightarrow> quota_manager \<Rightarrow> quota_manager" where
  "record_storage_add t bytes m =
     m\<lparr>usage := hm_insert t (add_objects 1 (add_storage bytes (get_usage m t))) (usage m)\<rparr>"

definition record_storage_remove :: "string \<Rightarrow> u64 \<Rightarrow> quota_manager \<Rightarrow> quota_manager" where
  "record_storage_remove t bytes m =
     (case hm_get (usage m) t of
        Some u \<Rightarrow> m\<lparr>usage := hm_insert t (remove_objects 1 (remove_storage bytes u)) (usage m)\<rparr>
      | None \<Rightarrow> m)"

definition quota_line :: "string \<Rightarrow> string \<Rightarrow> u64 \<Rightarrow> string" where
  "quota_line metric t v = metric @ ''{tenant='' @ [CHR 0x22] @ t @ [CHR 0x22] @ ''} '' @ show_nat (unat v) @ [CHR 0x0A]"

definition quota_to_prometheus :: "quota_manager \<Rightarrow> string" where
  "quota_to_prometheus m = concat (map (\<lambda>(t, u).
     let q = quota_of m t in
     quota_line ''minikv_tenant_storage_used_bytes'' t (storage_used u) @
     quota_line ''minikv_tenant_storage_limit_bytes'' t (storage_limit q) @
     quota_line ''minikv_tenant_object_count'' t (object_count u) @
     quota_line ''minikv_tenant_object_limit'' t (object_limit q)) (usage m))"

section \<open>Accounting\<close>

definition within_limits :: "quota_manager \<Rightarrow> string \<Rightarrow> bool" where
  "within_limits m t \<longleftrightarrow>
     (storage_limit (quota_of m t) \<noteq> 0 \<longrightarrow> storage_used (get_usage m t) \<le> storage_limit (quota_of m t)) \<and>
     (object_limit (quota_of m t) \<noteq> 0 \<longrightarrow> object_count (get_usage m t) \<le> object_limit (quota_of m t))"

text \<open>
  The discipline the manager is made for: storage is recorded only after both checks
  allowed it, removals and requests come at any time, and no upload is so large that the
  tenant's limit and it exceed 64 bits together.
\<close>

inductive guarded :: "quota_manager \<Rightarrow> quota_manager \<Rightarrow> bool" where
  guarded_refl: "guarded m m"
| guarded_add: "guarded m m' \<Longrightarrow> check_storage m' t b = Allowed \<Longrightarrow> check_objects m' t = Allowed \<Longrightarrow>
    unat (storage_limit (quota_of m' t)) + unat b < 2 ^ 64 \<Longrightarrow> guarded m (record_storage_add t b m')"
| guarded_remove: "guarded m m' \<Longrightarrow> guarded m (record_storage_remove t b m')"
| guarded_request: "guarded m m' \<Longrightarrow> check_and_record_request now done_at t m' = (r, m'') \<Longrightarrow> guarded m m''"

lemma quota_of_usage_update [simp]: "quota_of (m\<lparr>usage := us\<rparr>) t = quota_of m t"
  by (simp add: quota_of_def split: option.splits)

lemma quota_of_add [simp]: "quota_of (record_storage_add t b m) t' = quota_of m t'"
  by (simp add: record_storage_add_def)

lemma quota_of_remove [simp]: "quota_of (record_storage_remove t b m) t' = quota_of m t'"
  by (simp add: record_storage_remove_def split: option.splits)

lemma get_usage_update [simp]:
  "get_usage (m\<lparr>usage := hm_insert t u (usage m)\<rparr>) t' = (if t' = t then u else get_usage m t')"
  by (simp add: get_usage_def)

lemma get_usage_add:
  "get_usage (record_storage_add t b m) t' =
     (if t' = t then add_objects 1 (add_storage b (get_usage m t)) else get_usage m t')"
  by (simp add: record_storage_add_def)

lemma get_usage_remove:
  "storage_used (get_usage (record_storage_remove t b m) t') \<le> storage_used (get_usage m t')"
  "object_count (get_usage (record_storage_remove t b m) t') \<le> object_count (get_usage m t')"
  by (auto simp: record_storage_remove_def get_usage_def remove_objects_def remove_storage_def
      word_le_nat_alt unat_saturating_sub split: option.splits)

lemma request_keeps_accounts:
  assumes "check_and_record_request now done_at t m = (r, m')"
  shows "quota_of m' t' = quota_of m t'" "storage_used (get_usage m' t') = storage_used (get_usage m t')"
    "object_count (get_usage m' t') = object_count (get_usage m t')"
  using assms
  by (auto simp: check_and_record_request_def check_rate_def record_request_def Let_def split: if_splits)

lemma allowed_storage:
  assumes "check_storage m t b = Allowed" "storage_limit (quota_of m t) \<noteq> 0"
  shows "storage_used (get_usage m t) + b \<le> storage_limit (quota_of m t)"
  using assms by (auto simp: check_storage_def usage_check_storage_def Let_def split: if_splits)

lemma allowed_objects:
  assumes "check_objects m t = Allowed" "object_limit (quota_of m t) \<noteq> 0"
  shows "object_count (get_usage m t) + 1 \<le> object_limit (quota_of m t)"
  using assms by (auto simp: check_objects_def usage_check_objects_def Let_def split: if_splits)

lemma saturating_add_le:
  assumes "a + b \<le> l" "unat a + unat (b :: 'a::len word) < 2 ^ LENGTH('a)"
  shows "saturating_add a b \<le> l"
  using assms by (simp add: saturating_add_def)

lemma saturating_inc_le:
  assumes "a \<le> l" "a + 1 \<le> (l :: u64)"
  shows "saturating_add a 1 \<le> l"
proof (cases "unat a + unat (1 :: u64) < 2 ^ LENGTH(64)")
  case False
  then have "unat a = 2 ^ 64 - 1" using unsigned_less [of a, where 'a = nat] by simp
  then have "unat l = 2 ^ 64 - 1" using assms(1) unsigned_less [of l, where 'a = nat] by (simp add: word_le_nat_alt)
  then show ?thesis by (simp add: word_le_nat_alt unat_saturating_add)
qed (use assms(2) saturating_add_le in blast)

lemma add_within_limits:
  assumes "within_limits m t'" "check_storage m t b = Allowed" "check_objects m t = Allowed"
    "unat (storage_limit (quota_of m t)) + unat b < 2 ^ 64"
  shows "within_limits (record_storage_add t b m) t'"
proof (cases "t' = t")
  case True
  have "saturating_add (storage_used (get_usage m t)) b \<le> storage_limit (quota_of m t)" if "storage_limit (quota_of m t) \<noteq> 0"
  proof (rule saturating_add_le)
    show "unat (storage_used (get_usage m t)) + unat b < 2 ^ LENGTH(64)"
      using assms(1,4) that True by (simp add: within_limits_def word_le_nat_alt)
  qed (rule allowed_storage [OF assms(2) that])
  moreover have "saturating_add (object_count (get_usage m t)) 1 \<le> object_limit (quota_of m t)" if "object_limit (quota_of m t) \<noteq> 0"
    using assms(1) that True allowed_objects [OF assms(3) that] by (intro saturating_inc_le) (simp_all add: within_limits_def)
  ultimately show ?thesis
    using True by (simp add: within_limits_def get_usage_add add_objects_def add_storage_def)
next
  case False
  then show ?thesis using assms(1) by (simp add: within_limits_def get_usage_add)
qed

section \<open>Request rates\<close>

text \<open>
  The limiter that keeps the whole history of admitted requests; a request comes with the two
  readings of the clock, and the answer with the second one.
\<close>

fun sliding_window :: "nat \<Rightarrow> instant list \<Rightarrow> (instant \<times> instant) list \<Rightarrow> (instant \<times> bool) list" where
  "sliding_window l h [] = []"
| "sliding_window l h ((now, done_at) # ts) =
     (let ok = length (filter (\<lambda>t. now - DEFAULT_RATE_WINDOW < t) h) < l
      in (done_at, ok) # sliding_window l (if ok then h @ [done_at] else h) ts)"

abbreviation in_window :: "instant \<Rightarrow> instant \<Rightarrow> bool" where
  "in_window s t \<equiv> s - DEFAULT_RATE_WINDOW < t \<and> t \<le> s"

lemma window_snoc:
  assumes "now \<le> done_at" "\<forall>s. length (filter (in_window s) h) \<le> l"
    "length (filter (\<lambda>t. now - DEFAULT_RATE_WINDOW < t) h) < l"
  shows "\<forall>s. length (filter (in_window s) (h @ [done_at])) \<le> l"
proof
  fix s
  show "length (filter (in_window s) (h @ [done_at])) \<le> l"
  proof (cases "done_at \<le> s")
    case True
    have "length (filter (in_window s) h) \<le> length (filter (\<lambda>t. now - DEFAULT_RATE_WINDOW < t) h)"
      using True assms(1) by (induction h) auto
    then show ?thesis using assms(3) by simp
  qed (use assms(2) in simp)
qed

lemma sliding_window_bound:
  assumes "\<forall>(now, done_at) \<in> set ts. now \<le> done_at" "\<forall>s. length (filter (in_window s) h) \<le> l"
  shows "length (filter (in_window s) h) + length (filter (\<lambda>(t, ok). ok \<and> in_window s t) (sliding_window l h ts)) \<le> l"
  using assms
proof (induction ts arbitrary: h)
  case (Cons x ts)
  obtain now done_at where x: "x = (now, done_at)" by (cases x)
  show ?case
  proof (cases "length (filter (\<lambda>t. now - DEFAULT_RATE_WINDOW < t) h) < l")
    case True
    have "\<forall>s. length (filter (in_window s) (h @ [done_at])) \<le> l"
      using Cons.prems True x by (intro window_snoc [of now]) auto
    then show ?thesis using Cons.IH [of "h @ [done_at]"] Cons.prems True x by (auto split: if_splits)
  next
    case False
    then show ?thesis using Cons.IH [of h] Cons.prems x by auto
  qed
qed simp

text \<open>
  Requests of several tenants, each with its two readings of the clock. Both are taken under
  the write lock of the usage, so no two requests interleave them.
\<close>

fun run_requests :: "quota_manager \<Rightarrow> (string \<times> instant \<times> instant) list \<Rightarrow> (string \<times> instant \<times> quota_check_result) list" where
  "run_requests m [] = []"
| "run_requests m ((t, now, done_at) # rs) =
     (case check_and_record_request now done_at t m of (r, m') \<Rightarrow> (t, done_at, r) # run_requests m' rs)"

definition readings :: "(string \<times> instant \<times> instant) list \<Rightarrow> instant list" where
  "readings rs = concat (map (\<lambda>(_, now, done_at). [now, done_at]) rs)"

definition tenant_log :: "string \<Rightarrow> (string \<times> instant \<times> quota_check_result) list \<Rightarrow> (instant \<times> bool) list" where
  "tenant_log t rs = map (\<lambda>(_, done_at, r). (done_at, is_allowed r)) (filter (\<lambda>(t', _). t' = t) rs)"

lemma readings_Cons:
  "sorted (readings ((t, now, done_at) # rs)) \<longleftrightarrow>
     now \<le> done_at \<and> (\<forall>x \<in> set (readings rs). done_at \<le> x) \<and> sorted (readings rs)"
  by (auto simp: readings_def intro: order.trans)

lemma readings_ordered: "sorted (readings rs) \<Longrightarrow> (t, now, done_at) \<in> set rs \<Longrightarrow> now \<le> done_at"
proof (induction rs)
  case (Cons x rs)
  then show ?case using readings_Cons by (cases x) auto
qed simp

text \<open>What the pruned history of a tenant has in common with the full one.\<close>

definition tracks :: "quota_manager \<Rightarrow> string \<Rightarrow> instant list \<Rightarrow> instant \<Rightarrow> bool" where
  "tracks m t h prev \<longleftrightarrow>
     (\<forall>w \<ge> prev - DEFAULT_RATE_WINDOW. filter (\<lambda>x. x > w) (request_times (get_usage m t)) = filter (\<lambda>x. x > w) h) \<and>
     length (request_times (get_usage m t)) \<le> unat (rate_limit (quota_of m t))"

lemma tracks_later: "tracks m t h prev \<Longrightarrow> prev \<le> now \<Longrightarrow> tracks m t h now"
  by (simp add: tracks_def)

lemma request_other:
  assumes "check_and_record_request now done_at t' m = (r, m')" "t' \<noteq> t"
  shows "get_usage m' t = get_usage m t" "quota_of m' t = quota_of m t"
  using assms by (auto simp: check_and_record_request_def Let_def split: if_splits prod.splits)

lemma request_same:
  assumes tr: "tracks m t h now" and q: "enabled (quota_of m t)" "rate_limit (quota_of m t) \<noteq> 0"
    and ok: "ok = (length (filter (\<lambda>x. now - DEFAULT_RATE_WINDOW < x) h) < unat (rate_limit (quota_of m t)))"
    and r: "check_and_record_request now done_at t m = (r, m')"
  shows "is_allowed r = ok" "tracks m' t (if ok then h @ [done_at] else h) now" "quota_of m' t = quota_of m t"
proof -
  let ?W = "now - DEFAULT_RATE_WINDOW" and ?l = "rate_limit (quota_of m t)"
  let ?rt = "filter (\<lambda>x. x > ?W) (request_times (get_usage m t))"
  have rt: "?rt = filter (\<lambda>x. x > ?W) h" using tr by (simp add: tracks_def)
  have le: "length ?rt \<le> unat ?l" using tr unfolding tracks_def by (meson length_filter_le order.trans)
  have "length ?rt < 2 ^ 32" using le unsigned_less [of ?l, where 'a = nat] by simp
  then have len: "(word_of_nat (length ?rt) :: u32) < ?l \<longleftrightarrow> length ?rt < unat ?l"
    by (simp add: word_less_nat_alt unsigned_of_nat take_bit_nat_eq_self)
  then have okr: "(word_of_nat (length ?rt) :: u32) < ?l \<longleftrightarrow> ok" using ok rt by simp
  have wd: "filter (\<lambda>x. x > w) ?rt = filter (\<lambda>x. x > w) h" if "w \<ge> ?W" for w
    using that unfolding rt by (auto simp: filter_filter intro: filter_cong)
  show "is_allowed r = ok" and q': "quota_of m' t = quota_of m t"
    using r q okr by (auto simp: check_and_record_request_def check_rate_def Let_def split: if_splits)
  have "request_times (get_usage m' t) = (if ok then ?rt @ [done_at] else ?rt)"
    using r q okr by (auto simp: check_and_record_request_def check_rate_def record_request_def Let_def split: if_splits)
  then show "tracks m' t (if ok then h @ [done_at] else h) now"
    using wd le okr len by (auto simp: tracks_def q')
qed

lemma run_requests_window:
  assumes "sorted (readings rs)" "\<forall>x \<in> set (readings rs). prev \<le> x" "tracks m t h prev"
    "enabled (quota_of m t)" "rate_limit (quota_of m t) \<noteq> 0"
  shows "tenant_log t (run_requests m rs) =
    sliding_window (unat (rate_limit (quota_of m t))) h (map snd (filter (\<lambda>(t', _). t' = t) rs))"
  using assms
proof (induction rs arbitrary: m h prev)
  case Nil
  then show ?case by (simp add: tenant_log_def)
next
  case (Cons x rs)
  obtain t' now done_at where x: "x = (t', now, done_at)" by (cases x)
  obtain r m' where r: "check_and_record_request now done_at t' m = (r, m')"
    by (cases "check_and_record_request now done_at t' m")
  have "prev \<le> now" using Cons.prems(2) x by (simp add: readings_def)
  then have tr: "tracks m t h now" by (rule tracks_later [OF Cons.prems(3)])
  have later: "\<forall>x \<in> set (readings rs). now \<le> x" "sorted (readings rs)"
    using Cons.prems(1) unfolding x readings_Cons by (auto intro: order.trans)
  show ?case
  proof (cases "t' = t")
    case True
    note s = request_same [OF tr Cons.prems(4,5) refl r [unfolded True]]
    show ?thesis
      using Cons.IH [OF later(2,1) s(2)] s(1,3) Cons.prems(4,5) r True x by (simp add: tenant_log_def Let_def)
  next
    case False
    note s = request_other [OF r False]
    have "tracks m' t h now" using tr s by (simp add: tracks_def)
    then show ?thesis
      using Cons.IH [OF later(2,1)] s Cons.prems(4,5) r False x by (simp add: tenant_log_def)
  qed
qed

section \<open>Properties\<close>

text \<open>
  C8. Quotas hold: whatever tenants add after both checks allowed it, remove and request,
  no tenant's recorded storage or object count exceeds its limit, as long as a limit and
  an upload together stay below 64 bits.
\<close>

theorem quota_enforced:
  assumes "guarded m m'" and "usage m = []"
  shows "within_limits m' t"
  using assms
proof (induction arbitrary: t)
  case (guarded_refl m)
  then show ?case by (simp add: within_limits_def get_usage_def usage_default_def)
next
  case (guarded_add m m' t b t')
  then show ?case by (intro add_within_limits) simp_all
next
  case (guarded_remove m m' t b t')
  then have "within_limits m' t'" by simp
  then show ?case using get_usage_remove [of t b m' t'] unfolding within_limits_def quota_of_remove
    by (meson order.trans)
next
  case (guarded_request m m' now done_at t r m'' t')
  then show ?case using request_keeps_accounts [of now done_at t m' r m'' t'] by (simp add: within_limits_def)
qed

definition demo_manager :: quota_manager where
  "demo_manager = set_quota (with_limits 0 ''t'' 100 2 2) (manager_new 0)"

lemma demo_quota: "quota_of demo_manager ''t'' = with_limits 0 ''t'' 100 2 2"
  by (simp add: demo_manager_def quota_of_def set_quota_def with_limits_def)

lemma demo_usage: "usage demo_manager = []"
  by (simp add: demo_manager_def set_quota_def manager_new_def)

theorem quota_enforced_witness:
  "within_limits (record_storage_remove ''t'' 5 (record_storage_add ''t'' 60 demo_manager)) ''t'' \<and>
   storage_used (get_usage (record_storage_remove ''t'' 5 (record_storage_add ''t'' 60 demo_manager)) ''t'') = 55"
proof
  have u: "get_usage demo_manager t = usage_default" for t
    by (simp add: get_usage_def demo_usage)
  have "guarded demo_manager (record_storage_add ''t'' 60 demo_manager)"
    using demo_quota u by (intro guarded_add guarded_refl)
      (simp_all add: check_storage_def check_objects_def Let_def usage_check_storage_def usage_check_objects_def
        with_limits_def usage_default_def)
  then have "guarded demo_manager (record_storage_remove ''t'' 5 (record_storage_add ''t'' 60 demo_manager))"
    by (rule guarded_remove)
  then show "within_limits (record_storage_remove ''t'' 5 (record_storage_add ''t'' 60 demo_manager)) ''t''"
    by (rule quota_enforced) (rule demo_usage)
  show "storage_used (get_usage (record_storage_remove ''t'' 5 (record_storage_add ''t'' 60 demo_manager)) ''t'') = 55"
    using u by (simp add: record_storage_remove_def record_storage_add_def get_usage_def add_storage_def
        add_objects_def remove_storage_def remove_objects_def saturating_add_def saturating_sub_def usage_default_def demo_usage)
qed

text \<open>
  C33. The storage check and the width of its sum: after an upload that the check allowed
  against a limit below the maximum, the tenant is within its limit exactly when used and
  uploaded bytes do not overflow 64 bits together; an upload that makes the sum wrap is
  allowed and leaves the recorded usage at the maximum.
\<close>

theorem storage_check_exact:
  assumes "check_storage m t b = Allowed" and "storage_limit (quota_of m t) \<noteq> 0" and "storage_limit (quota_of m t) \<noteq> - 1"
  shows "storage_used (get_usage (record_storage_add t b m) t) \<le> storage_limit (quota_of m t) \<longleftrightarrow>
     unat (storage_used (get_usage m t)) + unat b < 2 ^ 64"
proof (cases "unat (storage_used (get_usage m t)) + unat b < 2 ^ 64")
  case True
  then show ?thesis
    using allowed_storage [OF assms(1,2)]
    by (simp add: get_usage_add add_objects_def add_storage_def saturating_add_def)
next
  case False
  then have "storage_used (get_usage (record_storage_add t b m) t) = - 1"
    by (simp add: get_usage_add add_objects_def add_storage_def saturating_add_def)
  then show ?thesis using False assms(3) word_order.extremum_unique [of "storage_limit (quota_of m t)"] by simp
qed

theorem storage_check_exact_witness:
  "\<exists>m b. check_storage m ''t'' b = Allowed \<and>
     \<not> storage_used (get_usage (record_storage_add ''t'' b m) ''t'') \<le> storage_limit (quota_of m ''t'')"
proof (intro exI conjI)
  let ?m = "record_storage_add ''t'' 60 demo_manager" and ?b = "- 1 :: u64"
  have q: "quota_of ?m ''t'' = with_limits 0 ''t'' 100 2 2" by (simp add: demo_quota)
  have u: "storage_used (get_usage ?m ''t'') = 60"
    by (simp add: record_storage_add_def get_usage_def add_storage_def
        add_objects_def saturating_add_def usage_default_def demo_usage)
  show a: "check_storage ?m ''t'' ?b = Allowed"
    using q u by (simp add: check_storage_def Let_def usage_check_storage_def with_limits_def)
  show "\<not> storage_used (get_usage (record_storage_add ''t'' ?b ?m) ''t'') \<le> storage_limit (quota_of ?m ''t'')"
    using storage_check_exact [OF a] q u by (simp add: with_limits_def unsigned_minus_1_eq_mask mask_eq_exp_minus_1)
qed

text \<open>
  C7. The rate limiter is a sliding window: when requests of any tenants are checked in the
  order of time, those of an enabled tenant with a rate limit are answered as by the
  limiter that remembers every admitted request, and no window of one second, wherever it
  ends, holds more admitted requests of the tenant than its limit. The clock may advance
  between the check of a request and its record.
\<close>

theorem rate_limit_sliding_window:
  assumes "sorted (readings rs)" and "enabled (quota_of m t)" and "rate_limit (quota_of m t) \<noteq> 0"
    and "usage m = []"
  shows "tenant_log t (run_requests m rs) =
      sliding_window (unat (rate_limit (quota_of m t))) [] (map snd (filter (\<lambda>(t', _). t' = t) rs)) \<and>
    length (filter (\<lambda>(done_at, ok). ok \<and> s - DEFAULT_RATE_WINDOW < done_at \<and> done_at \<le> s) (tenant_log t (run_requests m rs)))
      \<le> unat (rate_limit (quota_of m t))"
proof -
  obtain prev where "\<forall>x \<in> set (readings rs). prev \<le> x"
    using assms(1) by (cases "readings rs") (auto intro: that)
  moreover have "tracks m t [] prev" using assms(4) by (simp add: tracks_def get_usage_def usage_default_def)
  ultimately have eq: "tenant_log t (run_requests m rs) =
      sliding_window (unat (rate_limit (quota_of m t))) [] (map snd (filter (\<lambda>(t', _). t' = t) rs))"
    using assms(1-3) by (intro run_requests_window)
  have "\<forall>(now, done_at) \<in> set (map snd (filter (\<lambda>(t', _). t' = t) rs)). now \<le> done_at"
    using readings_ordered [OF assms(1)] by auto
  then have "length (filter (\<lambda>(now, ok). ok \<and> in_window s now) (tenant_log t (run_requests m rs)))
      \<le> unat (rate_limit (quota_of m t))"
    unfolding eq using sliding_window_bound [of _ "[]" _ s] by simp
  with eq show ?thesis by simp
qed

theorem rate_limit_sliding_window_witness:
  "tenant_log ''t'' (run_requests demo_manager
       [(''t'', 0, 0), (''u'', 1, 1), (''t'', 2, 3), (''t'', 3, 4), (''t'', 1000000001, 1000000002)])
     = [(0, True), (3, True), (4, False), (1000000002, True)]"
proof -
  from demo_usage demo_quota rate_limit_sliding_window [of
      "[(''t'', 0, 0), (''u'', 1, 1), (''t'', 2, 3), (''t'', 3, 4), (''t'', 1000000001, 1000000002)]" demo_manager "''t''"]
  show ?thesis by (simp add: with_limits_def DEFAULT_RATE_WINDOW_def readings_def)
qed

end
