(* ===== verification/Encryption.thy ===== *)
theory Encryption
  imports Errors
begin

text \<open>
  \<open>src/src/common/encryption.rs\<close>: encryption at rest. The crates \<open>base64\<close>, \<open>hkdf\<close> and
  \<open>aes_gcm\<close> are the record \<open>enc_ext\<close> over a type of ciphers; a nonce is the argument that
  stands for what the random generator delivers. \<open>enc_laws\<close> states what AES-256-GCM
  guarantees: a ciphertext is a tag longer than its plaintext, decryption inverts
  encryption, and whatever decrypts is the ciphertext of what it decrypts to.
\<close>

section \<open>The model\<close>

definition KEY_SIZE :: nat where "KEY_SIZE = 32"
definition NONCE_SIZE :: nat where "NONCE_SIZE = 12"
definition TAG_SIZE :: nat where "TAG_SIZE = 16"

definition ENCRYPTION_MAGIC :: bytes where
  "ENCRYPTION_MAGIC = [0x4D, 0x4B, 0x56, 0x45, 0x4E, 0x43, 0x30, 0x31]"

record encryption_config =
  ec_enabled :: bool
  ec_master_key :: "string option"
  ec_key_contexts :: "string list"

definition encryption_config_default :: encryption_config where
  "encryption_config_default = \<lparr>ec_enabled = False, ec_master_key = None,
     ec_key_contexts = [''minikv-data'', ''minikv-wal'', ''minikv-index'']\<rparr>"

datatype encryption_error =
    NotEnabled
  | InvalidKey string
  | EncryptionFailed string
  | DecryptionFailed string
  | InvalidFormat string
  | KeyDerivationFailed string

fun encryption_error_display :: "encryption_error \<Rightarrow> string" where
  "encryption_error_display NotEnabled = ''Encryption is not enabled''"
| "encryption_error_display (InvalidKey msg) = ''Invalid encryption key: '' @ msg"
| "encryption_error_display (EncryptionFailed msg) = ''Encryption failed: '' @ msg"
| "encryption_error_display (DecryptionFailed msg) = ''Decryption failed: '' @ msg"
| "encryption_error_display (InvalidFormat msg) = ''Invalid encrypted data format: '' @ msg"
| "encryption_error_display (KeyDerivationFailed msg) = ''Key derivation failed: '' @ msg"

type_synonym 'a encryption_result = "encryption_error + 'a"

record encrypted_data =
  nonce :: bytes
  ciphertext :: bytes

definition enc_to_bytes :: "encrypted_data \<Rightarrow> bytes" where
  "enc_to_bytes e = ENCRYPTION_MAGIC @ nonce e @ ciphertext e"

definition enc_from_bytes :: "bytes \<Rightarrow> encrypted_data encryption_result" where
  "enc_from_bytes bs =
     (let min_size = length ENCRYPTION_MAGIC + NONCE_SIZE + TAG_SIZE in
      if length bs < min_size
      then Inl (InvalidFormat (''Data too short: '' @ show_nat (length bs) @ '' bytes, minimum '' @ show_nat min_size @ '' bytes''))
      else if take (length ENCRYPTION_MAGIC) bs \<noteq> ENCRYPTION_MAGIC
      then Inl (InvalidFormat ''Invalid magic bytes - data may not be encrypted'')
      else let nonce_start = length ENCRYPTION_MAGIC;
               ciphertext_start = nonce_start + NONCE_SIZE
           in Inr \<lparr>nonce = take NONCE_SIZE (drop nonce_start bs), ciphertext = drop ciphertext_start bs\<rparr>)"

definition is_encrypted :: "bytes \<Rightarrow> bool" where
  "is_encrypted bs \<longleftrightarrow> length bs \<ge> length ENCRYPTION_MAGIC \<and> take (length ENCRYPTION_MAGIC) bs = ENCRYPTION_MAGIC"

record 'c enc_ext =
  base64_decode :: "string \<Rightarrow> string + bytes"
  base64_encode :: "bytes \<Rightarrow> string"
  hkdf_expand :: "bytes \<Rightarrow> bytes \<Rightarrow> nat \<Rightarrow> string + bytes"
  new_from_slice :: "bytes \<Rightarrow> string + 'c"
  aes_encrypt :: "'c \<Rightarrow> bytes \<Rightarrow> bytes \<Rightarrow> string + bytes"
  aes_decrypt :: "'c \<Rightarrow> bytes \<Rightarrow> bytes \<Rightarrow> string + bytes"

definition enc_laws :: "'c enc_ext \<Rightarrow> bool" where
  "enc_laws x \<longleftrightarrow> (\<forall>c n p ct. length n = NONCE_SIZE \<longrightarrow>
     (aes_encrypt x c n p = Inr ct \<longleftrightarrow> aes_decrypt x c n ct = Inr p) \<and>
     (aes_encrypt x c n p = Inr ct \<longrightarrow> length ct = length p + TAG_SIZE))"

record 'c encryption_manager =
  em_config :: encryption_config
  data_key :: "bytes option"
  wal_key :: "bytes option"
  data_cipher :: "'c option"
  wal_cipher :: "'c option"

definition manager_default :: "'c encryption_manager" where
  "manager_default = \<lparr>em_config = encryption_config_default, data_key = None, wal_key = None,
     data_cipher = None, wal_cipher = None\<rparr>"

definition derive_key :: "'c enc_ext \<Rightarrow> bytes \<Rightarrow> bytes \<Rightarrow> bytes encryption_result" where
  "derive_key x master_key context =
     (case hkdf_expand x master_key context KEY_SIZE of
        Inl e \<Rightarrow> Inl (KeyDerivationFailed e) | Inr output \<Rightarrow> Inr output)"

text \<open>An early return keeps what was assigned before it.\<close>

definition init_ciphers :: "'c enc_ext \<Rightarrow> string \<Rightarrow> bytes \<Rightarrow> bytes \<Rightarrow> 'c encryption_manager
    \<Rightarrow> unit encryption_result \<times> 'c encryption_manager" where
  "init_ciphers x master_key dk wk m =
     (case new_from_slice x dk of
        Inl e \<Rightarrow> (Inl (InvalidKey (''Failed to create cipher: '' @ e)), m)
      | Inr dc \<Rightarrow>
          let m = m\<lparr>data_cipher := Some dc\<rparr> in
          case new_from_slice x wk of
            Inl e \<Rightarrow> (Inl (InvalidKey (''Failed to create WAL cipher: '' @ e)), m)
          | Inr wc \<Rightarrow> (Inr (), m\<lparr>wal_cipher := Some wc,
              em_config := (em_config m)\<lparr>ec_enabled := True, ec_master_key := Some master_key\<rparr>\<rparr>))"

definition initialize :: "'c enc_ext \<Rightarrow> string \<Rightarrow> 'c encryption_manager
    \<Rightarrow> unit encryption_result \<times> 'c encryption_manager" where
  "initialize x master_key m =
     (case base64_decode x master_key of
        Inl e \<Rightarrow> (Inl (InvalidKey (''Invalid base64: '' @ e)), m)
      | Inr key_bytes \<Rightarrow>
          if length key_bytes < 32
          then (Inl (InvalidKey (''Master key too short: '' @ show_nat (length key_bytes) @ '' bytes, minimum 32 bytes'')), m)
          else case derive_key x key_bytes (as_bytes ''minikv-data'') of
            Inl e \<Rightarrow> (Inl e, m)
          | Inr dk \<Rightarrow>
              let m = m\<lparr>data_key := Some dk\<rparr> in
              case derive_key x key_bytes (as_bytes ''minikv-wal'') of
                Inl e \<Rightarrow> (Inl e, m)
              | Inr wk \<Rightarrow> init_ciphers x master_key dk wk (m\<lparr>wal_key := Some wk\<rparr>))"

definition is_enabled :: "'c encryption_manager \<Rightarrow> bool" where
  "is_enabled m \<longleftrightarrow> ec_enabled (em_config m) \<and> data_cipher m \<noteq> None"

definition encrypt_with :: "'c enc_ext \<Rightarrow> bytes \<Rightarrow> 'c option \<Rightarrow> bytes \<Rightarrow> encrypted_data encryption_result" where
  "encrypt_with x nonce_bytes cipher plaintext =
     (case cipher of None \<Rightarrow> Inl NotEnabled
      | Some c \<Rightarrow> (case aes_encrypt x c nonce_bytes plaintext of
          Inl e \<Rightarrow> Inl (EncryptionFailed e)
        | Inr ct \<Rightarrow> Inr \<lparr>nonce = nonce_bytes, ciphertext = ct\<rparr>))"

definition decrypt_with :: "'c enc_ext \<Rightarrow> 'c option \<Rightarrow> encrypted_data \<Rightarrow> bytes encryption_result" where
  "decrypt_with x cipher e =
     (case cipher of None \<Rightarrow> Inl NotEnabled
      | Some c \<Rightarrow> (case aes_decrypt x c (nonce e) (ciphertext e) of
          Inl er \<Rightarrow> Inl (DecryptionFailed er) | Inr p \<Rightarrow> Inr p))"

definition encrypt :: "'c enc_ext \<Rightarrow> bytes \<Rightarrow> bytes \<Rightarrow> 'c encryption_manager \<Rightarrow> encrypted_data encryption_result" where
  "encrypt x nonce_bytes plaintext m = encrypt_with x nonce_bytes (data_cipher m) plaintext"

definition decrypt :: "'c enc_ext \<Rightarrow> encrypted_data \<Rightarrow> 'c encryption_manager \<Rightarrow> bytes encryption_result" where
  "decrypt x e m = decrypt_with x (data_cipher m) e"

definition encrypt_bytes :: "'c enc_ext \<Rightarrow> bytes \<Rightarrow> bytes \<Rightarrow> 'c encryption_manager \<Rightarrow> bytes encryption_result" where
  "encrypt_bytes x nonce_bytes plaintext m =
     (if \<not> is_enabled m then Inr plaintext
      else rbind (encrypt x nonce_bytes plaintext m) (\<lambda>e. Inr (enc_to_bytes e)))"

definition decrypt_bytes :: "'c enc_ext \<Rightarrow> bytes \<Rightarrow> 'c encryption_manager \<Rightarrow> bytes encryption_result" where
  "decrypt_bytes x d m =
     (if \<not> is_enabled m then Inr d
      else if \<not> is_encrypted d then Inr d
      else rbind (enc_from_bytes d) (\<lambda>e. decrypt x e m))"

definition encrypt_wal :: "'c enc_ext \<Rightarrow> bytes \<Rightarrow> bytes \<Rightarrow> 'c encryption_manager \<Rightarrow> encrypted_data encryption_result" where
  "encrypt_wal x nonce_bytes plaintext m = encrypt_with x nonce_bytes (wal_cipher m) plaintext"

definition decrypt_wal :: "'c enc_ext \<Rightarrow> encrypted_data \<Rightarrow> 'c encryption_manager \<Rightarrow> bytes encryption_result" where
  "decrypt_wal x e m = decrypt_with x (wal_cipher m) e"

definition generate_master_key :: "'c enc_ext \<Rightarrow> bytes \<Rightarrow> string" where
  "generate_master_key x key = base64_encode x key"

record encryption_status =
  es_enabled :: bool
  es_algorithm :: "string option"
  es_key_derivation :: "string option"

definition encryption_status_of :: "'c encryption_manager \<Rightarrow> encryption_status" where
  "encryption_status_of m = \<lparr>es_enabled = is_enabled m,
     es_algorithm = (if is_enabled m then Some ''AES-256-GCM'' else None),
     es_key_derivation = (if is_enabled m then Some ''HKDF-SHA256'' else None)\<rparr>"

definition maybe_encrypt :: "'c enc_ext \<Rightarrow> bytes \<Rightarrow> bytes \<Rightarrow> 'c encryption_manager \<Rightarrow> bytes" where
  "maybe_encrypt x nonce_bytes d m = (case encrypt_bytes x nonce_bytes d m of Inr bs \<Rightarrow> bs | Inl e \<Rightarrow> d)"

definition maybe_decrypt :: "'c enc_ext \<Rightarrow> bytes \<Rightarrow> 'c encryption_manager \<Rightarrow> bytes" where
  "maybe_decrypt x d m = (case decrypt_bytes x d m of Inr bs \<Rightarrow> bs | Inl e \<Rightarrow> d)"

section \<open>The format\<close>

lemma from_to_bytes:
  assumes "length (nonce e) = NONCE_SIZE" "TAG_SIZE \<le> length (ciphertext e)"
  shows "enc_from_bytes (enc_to_bytes e) = Inr e"
  using assms by (simp add: enc_from_bytes_def enc_to_bytes_def Let_def)

lemma to_from_bytes:
  assumes "enc_from_bytes bs = Inr e"
  shows "enc_to_bytes e = bs" "length (nonce e) = NONCE_SIZE" "TAG_SIZE \<le> length (ciphertext e)"
proof -
  let ?n = "length ENCRYPTION_MAGIC"
  have b: "take ?n bs = ENCRYPTION_MAGIC" "?n + NONCE_SIZE + TAG_SIZE \<le> length bs"
    and e: "e = \<lparr>nonce = take NONCE_SIZE (drop ?n bs), ciphertext = drop (?n + NONCE_SIZE) bs\<rparr>"
    using assms by (auto simp: enc_from_bytes_def Let_def split: if_splits)
  have "bs = take ?n bs @ take NONCE_SIZE (drop ?n bs) @ drop (?n + NONCE_SIZE) bs"
    by (metis add.commute append_take_drop_id drop_drop)
  then show "enc_to_bytes e = bs" using b(1) e by (simp add: enc_to_bytes_def)
  show "length (nonce e) = NONCE_SIZE" "TAG_SIZE \<le> length (ciphertext e)" using b(2) e by simp_all
qed

lemma is_encrypted_to_bytes: "is_encrypted (enc_to_bytes e)"
  by (simp add: is_encrypted_def enc_to_bytes_def)

lemma encrypt_with_Inr:
  "encrypt_with x n c p = Inr e \<longleftrightarrow> (\<exists>c'. c = Some c' \<and> nonce e = n \<and> aes_encrypt x c' n p = Inr (ciphertext e))"
  by (cases e) (auto simp: encrypt_with_def split: option.splits sum.splits)

lemma decrypt_with_Inr:
  "decrypt_with x c e = Inr p \<longleftrightarrow> (\<exists>c'. c = Some c' \<and> aes_decrypt x c' (nonce e) (ciphertext e) = Inr p)"
  by (auto simp: decrypt_with_def split: option.splits sum.splits)

lemma decrypt_encrypt_with:
  assumes "enc_laws x" "length n = NONCE_SIZE" "encrypt_with x n c p = Inr e"
  shows "decrypt_with x c e = Inr p" "length (ciphertext e) = length p + TAG_SIZE"
  using assms by (auto simp: encrypt_with_Inr decrypt_with_Inr enc_laws_def)

section \<open>Properties\<close>

text \<open>
  C10. Encryption round trip: what is stored encrypted is read back as it was written, by the
  data path and by the log path. With encryption enabled the stored bytes carry the
  magic and are longer than the plaintext by magic, nonce and tag. Initialisation with a
  key that decodes to at least 32 bytes and whose derivations succeed enables encryption.
\<close>

theorem encryption_roundtrip:
  assumes "enc_laws x" and "length n = NONCE_SIZE"
  shows "(encrypt_bytes x n p m = Inr bs \<longrightarrow> decrypt_bytes x bs m = Inr p \<and>
      (is_enabled m \<longrightarrow> is_encrypted bs \<and> length bs = length ENCRYPTION_MAGIC + NONCE_SIZE + length p + TAG_SIZE)) \<and>
    (encrypt_wal x n p m = Inr e \<longrightarrow> decrypt_wal x e m = Inr p) \<and>
    (initialize x k m = (Inr (), m') \<longrightarrow> is_enabled m' \<and> wal_cipher m' \<noteq> None)"
proof (intro conjI impI)
  assume en: "encrypt_bytes x n p m = Inr bs"
  have "decrypt_bytes x bs m = Inr p \<and>
      (is_enabled m \<longrightarrow> is_encrypted bs \<and> length bs = length ENCRYPTION_MAGIC + NONCE_SIZE + length p + TAG_SIZE)"
  proof (cases "is_enabled m")
    case True
    with en obtain e where e: "encrypt_with x n (data_cipher m) p = Inr e" "bs = enc_to_bytes e"
      by (auto simp: encrypt_bytes_def encrypt_def res_simps)
    note d = decrypt_encrypt_with [OF assms e(1)]
    have "length (nonce e) = NONCE_SIZE" using e(1) assms(2) by (auto simp: encrypt_with_Inr)
    then show ?thesis using d e(2) True
      by (simp add: decrypt_bytes_def decrypt_def from_to_bytes is_encrypted_to_bytes) (simp add: enc_to_bytes_def)
  qed (use en in \<open>simp add: encrypt_bytes_def decrypt_bytes_def\<close>)
  then show "decrypt_bytes x bs m = Inr p"
    "is_enabled m \<Longrightarrow> is_encrypted bs" "is_enabled m \<Longrightarrow> length bs = length ENCRYPTION_MAGIC + NONCE_SIZE + length p + TAG_SIZE"
    by simp_all
next
  assume "encrypt_wal x n p m = Inr e"
  then show "decrypt_wal x e m = Inr p"
    unfolding encrypt_wal_def decrypt_wal_def by (rule decrypt_encrypt_with [OF assms])
next
  assume "initialize x k m = (Inr (), m')"
  then show "is_enabled m'" "wal_cipher m' \<noteq> None"
    by (auto simp: initialize_def init_ciphers_def is_enabled_def Let_def split: sum.splits if_splits)
qed

text \<open>
  C31. What decryption accepts: with encryption enabled, stored bytes are delivered exactly
  when they lack the magic, and then unchanged, or when they are the encryption of what is
  delivered under some nonce of the right length. Bytes that carry the magic but were
  altered are refused, and then the helper for the data path delivers them as they are.
\<close>

theorem decrypt_accepts:
  assumes "enc_laws x" and "is_enabled m"
  shows "(decrypt_bytes x d m = Inr p \<longleftrightarrow> (\<not> is_encrypted d \<and> p = d) \<or>
      (\<exists>n. length n = NONCE_SIZE \<and> encrypt_bytes x n p m = Inr d)) \<and>
    (\<not> is_ok (decrypt_bytes x d m) \<longrightarrow> maybe_decrypt x d m = d)"
proof (intro conjI iffI impI)
  assume p: "decrypt_bytes x d m = Inr p"
  show "(\<not> is_encrypted d \<and> p = d) \<or> (\<exists>n. length n = NONCE_SIZE \<and> encrypt_bytes x n p m = Inr d)"
  proof (cases "is_encrypted d")
    case True
    with p assms(2) obtain e where e: "enc_from_bytes d = Inr e" "decrypt_with x (data_cipher m) e = Inr p"
      by (auto simp: decrypt_bytes_def decrypt_def res_simps)
    note f = to_from_bytes [OF e(1)]
    have "encrypt_with x (nonce e) (data_cipher m) p = Inr e"
      using e(2) f(2) assms(1) by (auto simp: encrypt_with_Inr decrypt_with_Inr enc_laws_def)
    then have "encrypt_bytes x (nonce e) p m = Inr d" using f(1) assms(2) by (simp add: encrypt_bytes_def encrypt_def)
    with f(2) show ?thesis by blast
  qed (use p assms(2) in \<open>simp add: decrypt_bytes_def\<close>)
next
  assume "(\<not> is_encrypted d \<and> p = d) \<or> (\<exists>n. length n = NONCE_SIZE \<and> encrypt_bytes x n p m = Inr d)"
  then show "decrypt_bytes x d m = Inr p"
  proof
    assume "\<exists>n. length n = NONCE_SIZE \<and> encrypt_bytes x n p m = Inr d"
    then obtain n e where n: "length n = NONCE_SIZE" and e: "encrypt_with x n (data_cipher m) p = Inr e" "d = enc_to_bytes e"
      using assms(2) by (auto simp: encrypt_bytes_def encrypt_def res_simps)
    note dec = decrypt_encrypt_with [OF assms(1) n e(1)]
    have "length (nonce e) = NONCE_SIZE" using e(1) n by (auto simp: encrypt_with_Inr)
    then show ?thesis using dec e(2) assms(2)
      by (simp add: decrypt_bytes_def decrypt_def from_to_bytes is_encrypted_to_bytes)
  qed (simp add: decrypt_bytes_def)
next
  assume "\<not> is_ok (decrypt_bytes x d m)"
  then show "maybe_decrypt x d m = d" by (cases "decrypt_bytes x d m") (simp_all add: maybe_decrypt_def)
qed

text \<open>A cipher for the witnesses: the tag repeats the cipher's key byte.\<close>

definition demo_enc :: "byte enc_ext" where
  "demo_enc = \<lparr>base64_decode = (\<lambda>s. Inr (as_bytes s)), base64_encode = of_bytes,
     hkdf_expand = (\<lambda>k i l. Inr (take l k)), new_from_slice = (\<lambda>k. Inr (k ! 0)),
     aes_encrypt = (\<lambda>c n p. Inr (p @ replicate 16 c)),
     aes_decrypt = (\<lambda>c n ct. if drop (length ct - 16) ct = replicate 16 c then Inr (take (length ct - 16) ct) else Inl ''aead::Error'')\<rparr>"

lemma demo_enc_laws: "enc_laws demo_enc"
proof -
  have "drop (length ct - 16) ct = replicate 16 c \<and> take (length ct - 16) ct = p \<longleftrightarrow> p @ replicate 16 c = ct"
    for c :: byte and p ct
    by (metis append_take_drop_id append_eq_conv_conj diff_add_inverse2 length_append length_replicate)
  then show ?thesis by (auto simp: enc_laws_def demo_enc_def TAG_SIZE_def split: if_splits)
qed

definition demo_encryption :: "byte encryption_manager" where
  "demo_encryption = snd (initialize demo_enc (replicate 32 CHR ''k'') manager_default)"

lemma demo_initialize:
  "initialize demo_enc (replicate 32 CHR ''k'') manager_default = (Inr (), demo_encryption)"
  by (simp add: demo_encryption_def initialize_def derive_key_def init_ciphers_def demo_enc_def Let_def)

lemma demo_enabled: "is_enabled demo_encryption" "data_cipher demo_encryption = Some 107"
  by (simp_all add: demo_encryption_def initialize_def derive_key_def init_ciphers_def demo_enc_def Let_def
      is_enabled_def KEY_SIZE_def as_bytes_def)

theorem encryption_roundtrip_witness:
  "\<exists>bs. encrypt_bytes demo_enc (replicate 12 0) [1, 2] demo_encryption = Inr bs \<and>
     decrypt_bytes demo_enc bs demo_encryption = Inr [1, 2] \<and> length bs = 38"
proof -
  have "\<exists>bs. encrypt_bytes demo_enc (replicate 12 0) [1, 2] demo_encryption = Inr bs"
    using demo_enabled by (simp add: encrypt_bytes_def encrypt_def encrypt_with_def demo_enc_def)
  then show ?thesis
    using encryption_roundtrip [OF demo_enc_laws, of "replicate 12 0" "[1, 2]" demo_encryption] demo_enabled
    by (auto simp: NONCE_SIZE_def TAG_SIZE_def ENCRYPTION_MAGIC_def)
qed

theorem decrypt_accepts_witness:
  "decrypt_bytes demo_enc [7] demo_encryption = Inr [7] \<and>
   maybe_decrypt demo_enc ENCRYPTION_MAGIC demo_encryption = ENCRYPTION_MAGIC"
proof -
  have "\<not> is_encrypted [7]" by (simp add: is_encrypted_def ENCRYPTION_MAGIC_def)
  moreover have "\<not> is_ok (decrypt_bytes demo_enc ENCRYPTION_MAGIC demo_encryption)"
    using demo_enabled by (simp add: decrypt_bytes_def is_encrypted_def enc_from_bytes_def Let_def NONCE_SIZE_def)
  ultimately show ?thesis
    using decrypt_accepts [OF demo_enc_laws demo_enabled(1), of "[7]" "[7]"]
      decrypt_accepts [OF demo_enc_laws demo_enabled(1), of ENCRYPTION_MAGIC] by simp
qed

end
