(* ===== verification/Floats.thy ===== *)
theory Floats
  imports Prelude Complex_Main
begin

text \<open>
  The use the sources make of \<open>f64\<close> and \<open>Duration\<close>. A finite \<open>f64\<close> is the real number it
  stands for; an operation is the exact operation followed by the rounding \<open>rnd\<close> of
  IEEE 754, a parameter of the definitions. \<open>rnd_laws\<close> states what is used of it: it is
  monotone and leaves integers up to \<open>2 ^ 53\<close> and their quotients by small powers of two
  alone. A \<open>Duration\<close> and an \<open>Instant\<close> are
  numbers of nanoseconds.
\<close>

definition rnd_laws :: "(real \<Rightarrow> real) \<Rightarrow> bool" where
  "rnd_laws rnd \<longleftrightarrow> mono rnd \<and> (\<forall>n \<le> 2 ^ 53. \<forall>k \<le> 5. rnd (real n / 1024 ^ k) = real n / 1024 ^ k)"

text \<open>\<open>Duration::as_secs_f64\<close>\<close>

definition as_secs_f64 :: "(real \<Rightarrow> real) \<Rightarrow> nat \<Rightarrow> real" where
  "as_secs_f64 rnd d = rnd (rnd (real (d div 1000000000)) + rnd (real (d mod 1000000000) / 1000000000))"

text \<open>\<open>as u32\<close> and \<open>as u64\<close> of an \<open>f64\<close> cut off the fraction and saturate.\<close>

definition f64_as_word :: "real \<Rightarrow> 'a::len word" where
  "f64_as_word x = (if x \<le> 0 then 0 else if x \<ge> 2 ^ LENGTH('a) then - 1 else word_of_nat (nat \<lfloor>x\<rfloor>))"

text \<open>
  \<open>Duration::from_secs_f64\<close> rounds to the nearest nanosecond, ties to even, and panics on a
  negative number or one beyond the range of the seconds.
\<close>

definition from_secs_f64 :: "real \<Rightarrow> nat option" where
  "from_secs_f64 x =
     (if x < 0 \<or> x \<ge> 2 ^ 64 then None
      else let ns = x * 1000000000; f = \<lfloor>ns\<rfloor>; r = ns - of_int f
           in Some (nat (if r > 1 / 2 \<or> (r = 1 / 2 \<and> odd f) then f + 1 else f)))"

lemma rnd_mono: "rnd_laws rnd \<Longrightarrow> x \<le> y \<Longrightarrow> rnd x \<le> rnd y"
  by (simp add: rnd_laws_def monoD)

lemma rnd_scale: "rnd_laws rnd \<Longrightarrow> n \<le> 2 ^ 53 \<Longrightarrow> k \<le> 5 \<Longrightarrow> rnd (real n / 1024 ^ k) = real n / 1024 ^ k"
  unfolding rnd_laws_def by blast

lemma rnd_nat: "rnd_laws rnd \<Longrightarrow> n \<le> 2 ^ 53 \<Longrightarrow> rnd (real n) = real n"
  using rnd_scale [of rnd n 0] by simp

lemma rnd_0 [simp]: "rnd_laws rnd \<Longrightarrow> rnd 0 = 0"
  using rnd_nat [of rnd 0] by simp

lemma rnd_nonneg: "rnd_laws rnd \<Longrightarrow> 0 \<le> x \<Longrightarrow> 0 \<le> rnd x"
  using rnd_mono [of rnd 0 x] by simp

lemma as_secs_nonneg: "rnd_laws rnd \<Longrightarrow> 0 \<le> as_secs_f64 rnd d"
  unfolding as_secs_f64_def by (intro rnd_nonneg [of rnd] add_nonneg_nonneg) simp_all

lemma as_secs_0 [simp]: "rnd_laws rnd \<Longrightarrow> as_secs_f64 rnd 0 = 0"
  by (simp add: as_secs_f64_def)

lemma unat_f64_as_word:
  assumes "0 \<le> x" "x < 2 ^ LENGTH('a)"
  shows "unat (f64_as_word x :: 'a::len word) = nat \<lfloor>x\<rfloor>"
proof -
  have "\<lfloor>x\<rfloor> < 2 ^ LENGTH('a)" using assms(2) by (simp add: floor_less_iff)
  then have "nat \<lfloor>x\<rfloor> < 2 ^ LENGTH('a)" by (simp add: nat_less_iff assms(1))
  moreover have "(f64_as_word x :: 'a word) = word_of_nat (nat \<lfloor>x\<rfloor>)"
    using assms by (cases "x = 0") (simp_all add: f64_as_word_def)
  ultimately show ?thesis by (simp only: unsigned_of_nat take_bit_nat_eq_self of_nat_id)
qed

text \<open>Exact arithmetic satisfies the laws.\<close>

lemma rnd_laws_exact: "rnd_laws (\<lambda>x. x)"
  by (simp add: rnd_laws_def mono_def)

end
