(* ===== verification/RateLimit.thy ===== *)
theory RateLimit
  imports Errors Floats
begin

text \<open>
  \<open>src/src/common/ratelimit.rs\<close>: the token bucket per client address. Times are
  nanoseconds of the monotonic clock and arguments; \<open>Instant::duration_since\<close> is zero
  when the clock did not advance. \<open>None\<close> is the panic of \<open>Duration::from_secs_f64\<close>.
\<close>

section \<open>The bucket\<close>

record rate_limit_config =
  rc_burst_size :: u32
  rc_requests_per_second :: real
  rc_window_duration :: nat
  rc_enabled :: bool

definition rate_limit_config_default :: rate_limit_config where
  "rate_limit_config_default = \<lparr>rc_burst_size = 100, rc_requests_per_second = 50,
     rc_window_duration = 60 * 1000000000, rc_enabled = True\<rparr>"

record token_bucket =
  tokens :: real
  last_refill :: nat
  tb_burst_size :: u32
  refill_rate :: real

definition bucket_new :: "nat \<Rightarrow> u32 \<Rightarrow> real \<Rightarrow> token_bucket" where
  "bucket_new now burst_size rate = \<lparr>tokens = real (unat burst_size), last_refill = now,
     tb_burst_size = burst_size, refill_rate = rate\<rparr>"

definition refill :: "(real \<Rightarrow> real) \<Rightarrow> nat \<Rightarrow> token_bucket \<Rightarrow> token_bucket" where
  "refill rnd now b =
     (let elapsed = as_secs_f64 rnd (now - last_refill b)
      in b\<lparr>tokens := min (rnd (tokens b + rnd (elapsed * refill_rate b))) (real (unat (tb_burst_size b))),
           last_refill := now\<rparr>)"

definition try_consume :: "(real \<Rightarrow> real) \<Rightarrow> nat \<Rightarrow> token_bucket \<Rightarrow> bool \<times> token_bucket" where
  "try_consume rnd now b =
     (let b = refill rnd now b
      in if tokens b \<ge> 1 then (True, b\<lparr>tokens := rnd (tokens b - 1)\<rparr>) else (False, b))"

definition remaining :: "token_bucket \<Rightarrow> u32" where
  "remaining b = f64_as_word (tokens b)"

text \<open>A quotient by zero is infinite or not a number, and the conversion panics.\<close>

definition retry_after :: "(real \<Rightarrow> real) \<Rightarrow> token_bucket \<Rightarrow> nat option" where
  "retry_after rnd b =
     (if tokens b \<ge> 1 then Some 0
      else let needed = rnd (1 - tokens b)
           in if refill_rate b = 0 then None else from_secs_f64 (rnd (needed / refill_rate b)))"

section \<open>The limiter\<close>

record rate_limiter =
  rl_buckets :: "(string, token_bucket) hashmap"
  rl_config :: rate_limit_config

definition limiter_new :: "rate_limit_config \<Rightarrow> rate_limiter" where
  "limiter_new config = \<lparr>rl_buckets = [], rl_config = config\<rparr>"

datatype rate_limit_result =
    RlAllowed (rl_remaining: u32) (rl_limit: u32)
  | RlLimited (rl_retry_after: nat) (rl_limit: u32)

definition bucket_for :: "nat \<Rightarrow> string \<Rightarrow> rate_limiter \<Rightarrow> token_bucket" where
  "bucket_for now ip rl =
     (case hm_get (rl_buckets rl) ip of
        Some b \<Rightarrow> b
      | None \<Rightarrow> bucket_new now (rc_burst_size (rl_config rl)) (rc_requests_per_second (rl_config rl)))"

definition rl_check :: "(real \<Rightarrow> real) \<Rightarrow> nat \<Rightarrow> string \<Rightarrow> rate_limiter \<Rightarrow> (rate_limit_result \<times> rate_limiter) option" where
  "rl_check rnd now ip rl =
     (let burst = rc_burst_size (rl_config rl) in
      if \<not> rc_enabled (rl_config rl) then Some (RlAllowed burst burst, rl)
      else case try_consume rnd now (bucket_for now ip rl) of
        (allowed, b) \<Rightarrow>
          let rl = rl\<lparr>rl_buckets := hm_insert ip b (rl_buckets rl)\<rparr>
          in if allowed then Some (RlAllowed (remaining b) burst, rl)
             else map_option (\<lambda>d. (RlLimited d burst, rl)) (retry_after rnd b))"

definition rl_cleanup :: "nat \<Rightarrow> rate_limiter \<Rightarrow> rate_limiter" where
  "rl_cleanup now rl =
     rl\<lparr>rl_buckets := filter (\<lambda>(ip, b). now - last_refill b < rc_window_duration (rl_config rl)) (rl_buckets rl)\<rparr>"

record rate_limit_stats =
  rs_tracked_ips :: nat
  rs_config :: rate_limit_config

definition rl_stats :: "rate_limiter \<Rightarrow> rate_limit_stats" where
  "rl_stats rl = \<lparr>rs_tracked_ips = length (rl_buckets rl), rs_config = rl_config rl\<rparr>"

text \<open>
  The middleware: \<open>next\<close> is the rest of the stack, a response its status, headers and
  body. \<open>Duration::as_secs\<close> drops the fraction.
\<close>

definition rate_limit_middleware ::
  "(real \<Rightarrow> real) \<Rightarrow> nat \<Rightarrow> string \<Rightarrow> nat \<times> (string \<times> string) list \<times> string \<Rightarrow> rate_limiter
     \<Rightarrow> ((nat \<times> (string \<times> string) list \<times> string) \<times> rate_limiter) option" where
  "rate_limit_middleware rnd now ip next rl =
     (case rl_check rnd now ip rl of
        None \<Rightarrow> None
      | Some (RlAllowed left limit, rl) \<Rightarrow>
          (case next of (code, headers, body) \<Rightarrow>
             Some ((code, AList.update ''x-ratelimit-remaining'' (show_nat (unat left))
                      (AList.update ''x-ratelimit-limit'' (show_nat (unat limit)) headers), body), rl))
      | Some (RlLimited wait limit, rl) \<Rightarrow>
          Some ((429, [(''x-ratelimit-limit'', show_nat (unat limit)), (''x-ratelimit-remaining'', ''0''),
                       (''retry-after'', show_nat (wait div 1000000000))], ''Too Many Requests''), rl))"

section \<open>The invariant\<close>

declare of_nat_unat [simp del]

definition bucket_ok :: "rate_limit_config \<Rightarrow> token_bucket \<Rightarrow> bool" where
  "bucket_ok c b \<longleftrightarrow> 0 \<le> tokens b \<and> tokens b \<le> real (unat (rc_burst_size c)) \<and>
     tb_burst_size b = rc_burst_size c \<and> refill_rate b = rc_requests_per_second c"

definition limiter_ok :: "rate_limiter \<Rightarrow> bool" where
  "limiter_ok rl \<longleftrightarrow> 0 \<le> rc_requests_per_second (rl_config rl) \<and>
     (\<forall>(ip, b) \<in> set (rl_buckets rl). bucket_ok (rl_config rl) b)"

lemma bucket_new_ok: "bucket_ok c (bucket_new now (rc_burst_size c) (rc_requests_per_second c))"
  by (simp add: bucket_ok_def bucket_new_def)

lemma refill_ok:
  assumes "rnd_laws rnd" "bucket_ok c b" "0 \<le> rc_requests_per_second c"
  shows "bucket_ok c (refill rnd now b)"
proof -
  have "0 \<le> rnd (tokens b + rnd (as_secs_f64 rnd (now - last_refill b) * refill_rate b))"
    using assms by (intro rnd_nonneg [of rnd] add_nonneg_nonneg mult_nonneg_nonneg as_secs_nonneg) (simp_all add: bucket_ok_def)
  then show ?thesis using assms(2) by (simp add: bucket_ok_def refill_def Let_def)
qed

lemma u32_small: "unat (w :: u32) \<le> 2 ^ 53"
  using unsigned_less [of w, where 'a = nat] by simp

lemma consume_ok:
  assumes "rnd_laws rnd" "bucket_ok c b" "1 \<le> tokens b"
  shows "bucket_ok c (b\<lparr>tokens := rnd (tokens b - 1)\<rparr>)" "rnd (tokens b - 1) \<le> real (unat (rc_burst_size c) - 1)"
proof -
  have t: "tokens b \<le> real (unat (rc_burst_size c))" using assms(2) by (simp add: bucket_ok_def)
  have "1 \<le> unat (rc_burst_size c)" using t assms(3) by linarith
  then have "tokens b - 1 \<le> real (unat (rc_burst_size c) - 1)" using t by (simp add: of_nat_diff)
  then have "rnd (tokens b - 1) \<le> rnd (real (unat (rc_burst_size c) - 1))" by (rule rnd_mono [OF assms(1)])
  also have "\<dots> = real (unat (rc_burst_size c) - 1)"
    using u32_small [of "rc_burst_size c"] by (intro rnd_nat [OF assms(1)]) linarith
  finally show le: "rnd (tokens b - 1) \<le> real (unat (rc_burst_size c) - 1)" .
  have "0 \<le> rnd (tokens b - 1)" using assms(3) by (intro rnd_nonneg [OF assms(1)]) simp
  then show "bucket_ok c (b\<lparr>tokens := rnd (tokens b - 1)\<rparr>)" using assms(2) le by (simp add: bucket_ok_def)
qed

lemma bucket_for_ok: "limiter_ok rl \<Longrightarrow> bucket_ok (rl_config rl) (bucket_for now ip rl)"
  by (auto simp: limiter_ok_def bucket_for_def bucket_new_ok dest: map_of_SomeD split: option.split)

lemma set_update_subset: "set (AList.update k v m) \<subseteq> insert (k, v) (set m)"
  by (induction m) auto

lemma limiter_ok_insert:
  "limiter_ok rl \<Longrightarrow> bucket_ok (rl_config rl) b \<Longrightarrow> limiter_ok (rl\<lparr>rl_buckets := hm_insert ip b (rl_buckets rl)\<rparr>)"
  using set_update_subset [of ip b "rl_buckets rl"] by (fastforce simp: limiter_ok_def)

lemma limiter_ok_cleanup: "limiter_ok rl \<Longrightarrow> limiter_ok (rl_cleanup now rl)"
  by (auto simp: limiter_ok_def rl_cleanup_def)

lemma retry_after_Some:
  assumes "rnd_laws rnd" "bucket_ok c b" "1 \<le> rc_requests_per_second c * 2 ^ 53"
  shows "\<exists>d. retry_after rnd b = Some d"
proof -
  let ?r = "rc_requests_per_second c"
  have pos: "0 < ?r" using assms(3) by (metis less_le_trans mult_pos_pos zero_less_mult_pos2 zero_less_numeral zero_less_one zero_less_power)
  have b: "refill_rate b = ?r" "0 \<le> tokens b" using assms(2) by (simp_all add: bucket_ok_def)
  have "rnd (1 - tokens b) \<le> 1" if "tokens b < 1"
    using rnd_mono [OF assms(1), of "1 - tokens b" "real 1"] rnd_nat [OF assms(1), of 1] b(2) by simp
  moreover have "1 / ?r \<le> real (2 ^ 53)" using assms(3) pos by (simp add: divide_le_eq mult.commute)
  ultimately have q: "rnd (1 - tokens b) / ?r \<le> real (2 ^ 53)" if "tokens b < 1"
    using that pos by (meson divide_right_mono less_eq_real_def order_trans)
  have "rnd (rnd (1 - tokens b) / ?r) < 2 ^ 64" if "tokens b < 1"
    using rnd_mono [OF assms(1) q [OF that]] rnd_nat [OF assms(1), of "2 ^ 53"] by simp
  moreover have "0 \<le> rnd (rnd (1 - tokens b) / ?r)" if "tokens b < 1"
    using that pos by (intro rnd_nonneg [of rnd] divide_nonneg_pos assms(1)) simp_all
  ultimately show ?thesis
    using pos b(1) by (cases "tokens b < 1") (auto simp: retry_after_def from_secs_f64_def Let_def)
qed

lemma try_consume_ok:
  assumes "rnd_laws rnd" "bucket_ok c b" "0 \<le> rc_requests_per_second c" "try_consume rnd now b = (ok, b')"
  shows "bucket_ok c b'" "ok \<Longrightarrow> tokens b' \<le> real (unat (rc_burst_size c) - 1) \<and> 1 \<le> unat (rc_burst_size c)"
proof -
  let ?b = "refill rnd now b"
  have b: "bucket_ok c ?b" by (rule refill_ok [OF assms(1-3)])
  show "bucket_ok c b'"
    using assms(4) b consume_ok(1) [OF assms(1) b] by (auto simp: try_consume_def Let_def split: if_splits)
  show "tokens b' \<le> real (unat (rc_burst_size c) - 1) \<and> 1 \<le> unat (rc_burst_size c)" if ok
  proof -
    have t: "1 \<le> tokens ?b" "b' = ?b\<lparr>tokens := rnd (tokens ?b - 1)\<rparr>"
      using assms(4) that by (auto simp: try_consume_def Let_def split: if_splits)
    have "tokens ?b \<le> real (unat (rc_burst_size c))" using b by (simp add: bucket_ok_def)
    then have "1 \<le> unat (rc_burst_size c)" using t(1) by linarith
    then show ?thesis using consume_ok(2) [OF assms(1) b t(1)] t(2) by simp
  qed
qed

lemma check_ok:
  assumes "rnd_laws rnd" "limiter_ok rl" "1 \<le> rc_requests_per_second (rl_config rl) * 2 ^ 53"
  shows "\<exists>r rl'. rl_check rnd now ip rl = Some (r, rl') \<and> limiter_ok rl' \<and> rl_config rl' = rl_config rl \<and>
    (\<forall>left limit. r = RlAllowed left limit \<longrightarrow> limit = rc_burst_size (rl_config rl) \<and> (rc_enabled (rl_config rl) \<longrightarrow> left < limit))"
proof (cases "rc_enabled (rl_config rl)")
  case True
  let ?c = "rl_config rl"
  obtain ok b where b: "try_consume rnd now (bucket_for now ip rl) = (ok, b)"
    by (cases "try_consume rnd now (bucket_for now ip rl)")
  have rate: "0 \<le> rc_requests_per_second ?c" using assms(2) by (simp add: limiter_ok_def)
  note t = try_consume_ok [OF assms(1) bucket_for_ok [OF assms(2)] rate b]
  obtain d where d: "retry_after rnd b = Some d" using retry_after_Some [OF assms(1) t(1) assms(3)] by blast
  have left: "remaining b < rc_burst_size ?c" if ok
  proof -
    have "0 \<le> tokens b" "tokens b < 2 ^ LENGTH(32)"
      using t(1) u32_small [of "rc_burst_size ?c"] unsigned_less [of "rc_burst_size ?c", where 'a = nat]
      by (simp_all add: bucket_ok_def)
    then have "unat (remaining b) = nat \<lfloor>tokens b\<rfloor>" unfolding remaining_def by (rule unat_f64_as_word)
    also have "\<dots> \<le> unat (rc_burst_size ?c) - 1"
      using t(2) [OF that] floor_mono [of "tokens b" "real (unat (rc_burst_size ?c) - 1)"] by (simp del: of_nat_diff)
    finally show ?thesis using t(2) [OF that] unfolding word_less_nat_alt by linarith
  qed
  show ?thesis
    using True b d left limiter_ok_insert [OF assms(2) t(1)] by (cases ok) (auto simp: rl_check_def Let_def)
qed (use assms(2) in \<open>simp add: rl_check_def Let_def\<close>)

inductive rl_reach :: "(real \<Rightarrow> real) \<Rightarrow> rate_limit_config \<Rightarrow> rate_limiter \<Rightarrow> bool" for rnd c where
  reach_new: "rl_reach rnd c (limiter_new c)"
| reach_check: "rl_reach rnd c rl \<Longrightarrow> rl_check rnd now ip rl = Some (r, rl') \<Longrightarrow> rl_reach rnd c rl'"
| reach_cleanup: "rl_reach rnd c rl \<Longrightarrow> rl_reach rnd c (rl_cleanup now rl)"

lemma reach_ok:
  assumes "rl_reach rnd c rl" "rnd_laws rnd" "1 \<le> rc_requests_per_second c * 2 ^ 53"
  shows "limiter_ok rl \<and> rl_config rl = c"
  using assms
proof (induction rule: rl_reach.induct)
  case reach_new
  have "0 \<le> rc_requests_per_second c"
    using reach_new(2) by (metis less_eq_real_def less_le_trans not_less zero_less_mult_iff zero_less_numeral zero_less_one zero_less_power)
  then show ?case by (simp add: limiter_ok_def limiter_new_def)
next
  case (reach_check rl now ip r rl')
  then show ?case using check_ok [of rnd rl now ip] by auto
next
  case (reach_cleanup rl now)
  then show ?case using limiter_ok_cleanup by (auto simp: rl_cleanup_def)
qed

section \<open>Bursts\<close>

fun rl_checks :: "(real \<Rightarrow> real) \<Rightarrow> (nat \<times> string) list \<Rightarrow> rate_limiter \<Rightarrow> (rate_limit_result list \<times> rate_limiter) option" where
  "rl_checks rnd [] rl = Some ([], rl)"
| "rl_checks rnd ((now, ip) # qs) rl =
     (case rl_check rnd now ip rl of
        None \<Rightarrow> None
      | Some (r, rl') \<Rightarrow> map_option (\<lambda>(rs, rl''). (r # rs, rl'')) (rl_checks rnd qs rl'))"

fun is_rl_allowed :: "rate_limit_result \<Rightarrow> bool" where
  "is_rl_allowed (RlAllowed left limit) = True"
| "is_rl_allowed (RlLimited d limit) = False"

definition holds_tokens :: "nat \<Rightarrow> nat \<Rightarrow> token_bucket \<Rightarrow> bool" where
  "holds_tokens now k b \<longleftrightarrow> tokens b = real k \<and> last_refill b = now \<and> k \<le> unat (tb_burst_size b)"

lemma try_consume_same_instant:
  assumes "rnd_laws rnd" "holds_tokens now k b"
  shows "\<exists>b'. try_consume rnd now b = (0 < k, b') \<and> holds_tokens now (k - 1) b' \<and>
    tb_burst_size b' = tb_burst_size b \<and> refill_rate b' = refill_rate b"
proof -
  have k: "k \<le> 2 ^ 53" using assms(2) u32_small [of "tb_burst_size b"] by (simp add: holds_tokens_def)
  have "refill rnd now b = b\<lparr>tokens := real k\<rparr>"
    using assms rnd_nat [OF assms(1) k] by (simp add: refill_def holds_tokens_def Let_def min_def)
  moreover have "rnd (real k - 1) = real (k - 1)" if "0 < k"
    using rnd_nat [OF assms(1), of "k - 1"] k that by (simp add: of_nat_diff)
  ultimately show ?thesis using assms(2) by (cases k) (simp_all add: try_consume_def holds_tokens_def Let_def)
qed

lemma burst_run:
  assumes "rnd_laws rnd" "limiter_ok rl" "1 \<le> rc_requests_per_second (rl_config rl) * 2 ^ 53" "rc_enabled (rl_config rl)"
    "holds_tokens now k (bucket_for now ip rl)"
  shows "\<exists>rs rl'. rl_checks rnd (replicate n (now, ip)) rl = Some (rs, rl') \<and> map is_rl_allowed rs = map (\<lambda>i. i < k) [0 ..< n]"
  using assms
proof (induction n arbitrary: rl k)
  case (Suc n)
  obtain r rl1 where c: "rl_check rnd now ip rl = Some (r, rl1)" "limiter_ok rl1" "rl_config rl1 = rl_config rl"
    using check_ok [OF Suc.prems(1-3)] by blast
  obtain b' where b': "try_consume rnd now (bucket_for now ip rl) = (0 < k, b')" "holds_tokens now (k - 1) b'"
    using try_consume_same_instant [OF Suc.prems(1,5)] by blast
  have r: "is_rl_allowed r = (0 < k)" "bucket_for now ip rl1 = b'"
    using c(1) b'(1) Suc.prems(4) by (auto simp: rl_check_def bucket_for_def Let_def split: if_splits)
  obtain rs rl2 where "rl_checks rnd (replicate n (now, ip)) rl1 = Some (rs, rl2)"
    "map is_rl_allowed rs = map (\<lambda>i. i < k - 1) [0 ..< n]"
    using Suc.IH [of rl1 "k - 1"] Suc.prems c(2,3) b'(2) r(2) by auto
  moreover have "map (\<lambda>i. i < k) [0 ..< Suc n] = (0 < k) # map (\<lambda>i. i < k - 1) [0 ..< n]"
    unfolding upt_conv_Cons [OF zero_less_Suc] list.map map_Suc_upt [symmetric] by auto
  ultimately show ?case using c(1) r(1) by (intro exI [of _ "r # rs"]) auto
qed simp

section \<open>Properties\<close>

text \<open>
  C23. The limiter stays within its bounds: whatever checks and cleanups happened, every
  bucket holds between zero and burst-size tokens, a check at any time answers without
  a panic, and an answer that allows the request reports fewer remaining requests than the
  limit. The refill rate must not be so small that one token takes more than
  \<open>2 ^ 53\<close> seconds.
\<close>

theorem limiter_bounded:
  assumes "rnd_laws rnd" and "1 \<le> rc_requests_per_second c * 2 ^ 53" and "rl_reach rnd c rl"
  shows "(\<forall>(ip, b) \<in> set (rl_buckets rl). 0 \<le> tokens b \<and> tokens b \<le> real (unat (rc_burst_size c))) \<and>
    (\<exists>r rl'. rl_check rnd now ip rl = Some (r, rl') \<and>
      (\<forall>left limit. r = RlAllowed left limit \<longrightarrow> limit = rc_burst_size c \<and> (rc_enabled c \<longrightarrow> left < limit)))"
proof
  have ok: "limiter_ok rl" "rl_config rl = c" using reach_ok [OF assms(3,1,2)] by simp_all
  then show "\<forall>(ip, b) \<in> set (rl_buckets rl). 0 \<le> tokens b \<and> tokens b \<le> real (unat (rc_burst_size c))"
    by (auto simp: limiter_ok_def bucket_ok_def)
  show "\<exists>r rl'. rl_check rnd now ip rl = Some (r, rl') \<and>
      (\<forall>left limit. r = RlAllowed left limit \<longrightarrow> limit = rc_burst_size c \<and> (rc_enabled c \<longrightarrow> left < limit))"
    using check_ok [OF assms(1) ok(1), of now ip] ok(2) assms(2) by blast
qed

theorem limiter_bounded_witness:
  "\<exists>r rl'. rl_check (\<lambda>x. x) 7 ''ip'' (limiter_new rate_limit_config_default) = Some (r, rl')"
  using limiter_bounded [OF rnd_laws_exact _ reach_new, of rate_limit_config_default 7 "''ip''"]
  by (auto simp: rate_limit_config_default_def)

text \<open>
  Bursts: of any number of requests that an address without a bucket makes at the same
  instant, exactly the first burst-size many are allowed, whatever else the limiter
  tracks and whatever the rounding of the arithmetic.
\<close>

theorem burst_exact:
  assumes "rnd_laws rnd" and "1 \<le> rc_requests_per_second c * 2 ^ 53" and "rl_reach rnd c rl"
    and "rc_enabled c" and "hm_get (rl_buckets rl) ip = None"
  shows "\<exists>rs rl'. rl_checks rnd (replicate n (now, ip)) rl = Some (rs, rl') \<and>
    map is_rl_allowed rs = map (\<lambda>i. i < unat (rc_burst_size c)) [0 ..< n]"
proof -
  have ok: "limiter_ok rl" "rl_config rl = c" using reach_ok [OF assms(3,1,2)] by simp_all
  have "holds_tokens now (unat (rc_burst_size c)) (bucket_for now ip rl)"
    using assms(5) ok(2) by (simp add: holds_tokens_def bucket_for_def bucket_new_def)
  then show ?thesis using burst_run [OF assms(1) ok(1)] ok(2) assms(2,4) by simp
qed

theorem burst_exact_witness:
  "\<exists>rs rl'. rl_checks (\<lambda>x. x) (replicate 101 (7, ''ip'')) (limiter_new rate_limit_config_default) = Some (rs, rl') \<and>
     map is_rl_allowed rs = map (\<lambda>i. i < 100) [0 ..< 101]"
  using burst_exact [OF rnd_laws_exact _ reach_new, of rate_limit_config_default "''ip''" 101 7]
  by (simp add: rate_limit_config_default_def limiter_new_def)

text \<open>
  A limiter with a refill rate of zero panics on the first request beyond the burst.
\<close>

lemma zero_rate_panics:
  assumes "rc_enabled c" "rc_requests_per_second c = 0" "rc_burst_size c = 0" "rnd_laws rnd"
  shows "rl_check rnd now ip (limiter_new c) = None"
  using assms by (simp add: rl_check_def limiter_new_def bucket_for_def bucket_new_def try_consume_def refill_def
      retry_after_def Let_def)

end
