(* ===== verification/Metrics.thy ===== *)
theory Metrics
  imports Errors Floats
begin

text \<open>
  \<open>src/src/common/metrics.rs\<close>: histograms, counters and the registry of all metrics. An
  \<open>AtomicU64\<close> is a word and \<open>fetch_add\<close> wraps; observations are finite \<open>f64\<close>. The decimal
  text of an \<open>f64\<close> is the parameter \<open>fmt\<close>. The endpoints of the registry are shared by
  \<open>Arc\<close>, so recording a request changes the entry of the map.
\<close>

section \<open>Histograms\<close>

definition LATENCY_BUCKETS :: "real list" where
  "LATENCY_BUCKETS = [1, 5, 10, 25, 50, 100, 250, 500, 1000, 2500, 5000]"

record histogram =
  h_buckets :: "u64 list"
  h_boundaries :: "real list"
  h_sum :: u64
  h_count :: u64

definition with_buckets :: "real list \<Rightarrow> histogram" where
  "with_buckets boundaries = \<lparr>h_buckets = replicate (length boundaries + 1) 0, h_boundaries = boundaries,
     h_sum = 0, h_count = 0\<rparr>"

definition histogram_new :: histogram where
  "histogram_new = with_buckets LATENCY_BUCKETS"

fun find_bucket :: "real \<Rightarrow> real list \<Rightarrow> nat \<Rightarrow> nat \<Rightarrow> nat" where
  "find_bucket v [] i d = d"
| "find_bucket v (b # bs) i d = (if v \<le> b then i else find_bucket v bs (i + 1) d)"

definition observe :: "(real \<Rightarrow> real) \<Rightarrow> real \<Rightarrow> histogram \<Rightarrow> histogram" where
  "observe rnd v h =
     (let bucket_idx = find_bucket v (h_boundaries h) 0 (length (h_boundaries h))
      in h\<lparr>h_buckets := (h_buckets h)[bucket_idx := h_buckets h ! bucket_idx + 1],
           h_sum := h_sum h + f64_as_word (rnd (v * 1000)),
           h_count := h_count h + 1\<rparr>)"

text \<open>The boundary \<open>None\<close> is \<open>f64::INFINITY\<close>.\<close>

fun bucket_loop :: "real list \<Rightarrow> u64 list \<Rightarrow> u64 \<Rightarrow> (real option \<times> u64) list" where
  "bucket_loop [] (c # cs) cumulative = [(None, cumulative + c)]"
| "bucket_loop (b # bs) (c # cs) cumulative = (Some b, cumulative + c) # bucket_loop bs cs (cumulative + c)"
| "bucket_loop bs [] cumulative = []"

definition get_buckets :: "histogram \<Rightarrow> (real option \<times> u64) list" where
  "get_buckets h = bucket_loop (h_boundaries h) (h_buckets h) 0"

definition histogram_sum :: "(real \<Rightarrow> real) \<Rightarrow> histogram \<Rightarrow> real" where
  "histogram_sum rnd h = rnd (rnd (real (unat (h_sum h))) / 1000)"

section \<open>Counters and gauges\<close>

type_synonym counter = u64
type_synonym gauge = u64

definition counter_new :: counter where "counter_new = 0"
definition counter_inc :: "counter \<Rightarrow> counter" where "counter_inc c = c + 1"
definition counter_add :: "u64 \<Rightarrow> counter \<Rightarrow> counter" where "counter_add n c = c + n"
definition gauge_new :: gauge where "gauge_new = 0"
definition gauge_set :: "u64 \<Rightarrow> gauge \<Rightarrow> gauge" where "gauge_set v g = v"
definition gauge_inc :: "gauge \<Rightarrow> gauge" where "gauge_inc g = g + 1"
definition gauge_dec :: "gauge \<Rightarrow> gauge" where "gauge_dec g = g - 1"

section \<open>The registry\<close>

record endpoint_metrics =
  requests_total :: counter
  requests_success :: counter
  requests_error :: counter
  latency :: histogram

definition endpoint_new :: endpoint_metrics where
  "endpoint_new = \<lparr>requests_total = counter_new, requests_success = counter_new, requests_error = counter_new,
     latency = histogram_new\<rparr>"

record metrics_registry =
  endpoints :: "(string, endpoint_metrics) hashmap"
  total_requests :: counter
  total_errors :: counter
  total_bytes_read :: counter
  total_bytes_written :: counter
  active_connections :: gauge
  ttl_keys :: gauge
  compressed_blobs :: gauge
  rate_limited_requests :: counter
  start_time :: nat

definition registry_new :: "nat \<Rightarrow> metrics_registry" where
  "registry_new now = \<lparr>endpoints = [], total_requests = counter_new, total_errors = counter_new,
     total_bytes_read = counter_new, total_bytes_written = counter_new, active_connections = gauge_new,
     ttl_keys = gauge_new, compressed_blobs = gauge_new, rate_limited_requests = counter_new, start_time = now\<rparr>"

definition endpoint_of :: "metrics_registry \<Rightarrow> string \<Rightarrow> endpoint_metrics" where
  "endpoint_of m path = (case hm_get (endpoints m) path of Some e \<Rightarrow> e | None \<Rightarrow> endpoint_new)"

definition record_metrics :: "(real \<Rightarrow> real) \<Rightarrow> string \<Rightarrow> nat \<Rightarrow> bool \<Rightarrow> metrics_registry \<Rightarrow> metrics_registry" where
  "record_metrics rnd path duration success m =
     (let e = endpoint_of m path;
          e = e\<lparr>requests_total := counter_inc (requests_total e)\<rparr>;
          e = e\<lparr>latency := observe rnd (rnd (as_secs_f64 rnd duration * 1000)) (latency e)\<rparr>;
          m = m\<lparr>total_requests := counter_inc (total_requests m)\<rparr>
      in if success
         then m\<lparr>endpoints := hm_insert path (e\<lparr>requests_success := counter_inc (requests_success e)\<rparr>) (endpoints m)\<rparr>
         else m\<lparr>endpoints := hm_insert path (e\<lparr>requests_error := counter_inc (requests_error e)\<rparr>) (endpoints m),
                total_errors := counter_inc (total_errors m)\<rparr>)"

definition uptime_seconds :: "nat \<Rightarrow> metrics_registry \<Rightarrow> nat" where
  "uptime_seconds now m = (now - start_time m) div 1000000000"

section \<open>The text format\<close>

definition nl :: string where "nl = [CHR 0x0A]"
definition quoted :: "string \<Rightarrow> string" where "quoted s = [CHR 0x22] @ s @ [CHR 0x22]"

definition metric_head :: "string \<Rightarrow> string \<Rightarrow> string \<Rightarrow> string" where
  "metric_head name help kind = ''# HELP '' @ name @ '' '' @ help @ nl @ ''# TYPE '' @ name @ '' '' @ kind @ nl"

definition scalar :: "string \<Rightarrow> string \<Rightarrow> string \<Rightarrow> nat \<Rightarrow> string" where
  "scalar name help kind v = metric_head name help kind @ name @ '' '' @ show_nat v @ nl"

definition endpoint_line :: "string \<Rightarrow> string \<Rightarrow> string \<Rightarrow> string" where
  "endpoint_line name path v = name @ ''{path='' @ quoted path @ ''} '' @ v @ nl"

definition latency_text :: "(real \<Rightarrow> real) \<Rightarrow> (real \<Rightarrow> string) \<Rightarrow> string \<times> endpoint_metrics \<Rightarrow> string" where
  "latency_text rnd fmt = (\<lambda>(path, e).
     concat (map (\<lambda>(le, cnt). ''minikv_request_duration_ms_bucket{path='' @ quoted path @ '',le='' @
         quoted (case le of None \<Rightarrow> ''+Inf'' | Some b \<Rightarrow> fmt b) @ ''} '' @ show_nat (unat cnt) @ nl) (get_buckets (latency e))) @
     endpoint_line ''minikv_request_duration_ms_sum'' path (fmt (histogram_sum rnd (latency e))) @
     endpoint_line ''minikv_request_duration_ms_count'' path (show_nat (unat (h_count (latency e)))))"

definition metrics_to_prometheus :: "(real \<Rightarrow> real) \<Rightarrow> (real \<Rightarrow> string) \<Rightarrow> nat \<Rightarrow> metrics_registry \<Rightarrow> string" where
  "metrics_to_prometheus rnd fmt now m =
     scalar ''minikv_requests_total'' ''Total number of requests'' ''counter'' (unat (total_requests m)) @
     scalar ''minikv_errors_total'' ''Total number of errors'' ''counter'' (unat (total_errors m)) @
     scalar ''minikv_bytes_read_total'' ''Total bytes read'' ''counter'' (unat (total_bytes_read m)) @
     scalar ''minikv_bytes_written_total'' ''Total bytes written'' ''counter'' (unat (total_bytes_written m)) @
     scalar ''minikv_active_connections'' ''Current active connections'' ''gauge'' (unat (active_connections m)) @
     scalar ''minikv_keys_with_ttl'' ''Number of keys with TTL'' ''gauge'' (unat (ttl_keys m)) @
     scalar ''minikv_rate_limited_requests'' ''Total rate limited requests'' ''counter'' (unat (rate_limited_requests m)) @
     scalar ''minikv_uptime_seconds'' ''Server uptime in seconds'' ''gauge'' (uptime_seconds now m) @
     metric_head ''minikv_endpoint_requests_total'' ''Requests per endpoint'' ''counter'' @
     concat (map (\<lambda>(path, e). endpoint_line ''minikv_endpoint_requests_total'' path (show_nat (unat (requests_total e)))) (endpoints m)) @
     metric_head ''minikv_endpoint_errors_total'' ''Errors per endpoint'' ''counter'' @
     concat (map (\<lambda>(path, e). endpoint_line ''minikv_endpoint_errors_total'' path (show_nat (unat (requests_error e)))) (endpoints m)) @
     metric_head ''minikv_request_duration_ms'' ''Request duration in milliseconds'' ''histogram'' @
     concat (map (latency_text rnd fmt) (endpoints m))"

section \<open>Cumulative counts\<close>

lemma find_bucket_shift: "find_bucket v bs (Suc i) (Suc d) = Suc (find_bucket v bs i d)"
  by (induction bs arbitrary: i) simp_all

lemma find_bucket_le: "find_bucket v bs 0 (length bs) \<le> length bs"
  by (induction bs) (simp_all add: find_bucket_shift)

lemma bucket_loop_shift:
  "length cs = length bs + 1 \<Longrightarrow> bucket_loop bs cs (a + d) = map (\<lambda>(b, c). (b, c + d)) (bucket_loop bs cs a)"
proof (induction bs arbitrary: cs a)
  case Nil
  then show ?case by (cases cs) (simp_all add: ac_simps)
next
  case (Cons b bs)
  then obtain c cs' where cs: "cs = c # cs'" "length cs' = length bs + 1" by (cases cs) auto
  have "a + d + c = (a + c) + d" by (simp add: ac_simps)
  then show ?case using cs Cons.IH [OF cs(2), of "a + c"] by (simp add: ac_simps)
qed

text \<open>Entering a value raises the cumulative count of exactly the boundaries it does not exceed.\<close>

lemma bucket_loop_observe:
  assumes "sorted bs" "length cs = length bs + 1" "i = find_bucket v bs 0 (length bs)"
  shows "bucket_loop bs (cs[i := cs ! i + 1]) a =
    map (\<lambda>(b, c). (b, c + (if b = None \<or> v \<le> the b then 1 else 0))) (bucket_loop bs cs a)"
  using assms
proof (induction bs arbitrary: cs a i)
  case Nil
  then show ?case by (cases cs) (simp_all add: ac_simps)
next
  case (Cons b bs)
  then obtain c cs' where cs: "cs = c # cs'" "length cs' = length bs + 1" by (cases cs) auto
  show ?case
  proof (cases "v \<le> b")
    case True
    have "\<forall>b' \<in> set bs. v \<le> b'" using Cons.prems(1) True by auto
    moreover have "x = None \<or> the x \<in> set bs" if "(x, y) \<in> set (bucket_loop bs cs' k)" for x y k
      using that by (induction bs cs' k rule: bucket_loop.induct) auto
    ultimately have "map (\<lambda>(b, c). (b, c + (if b = None \<or> v \<le> the b then 1 else 0))) (bucket_loop bs cs' (a + c))
        = map (\<lambda>(b, c). (b, c + 1)) (bucket_loop bs cs' (a + c))"
      by (intro map_cong refl) fastforce
    then show ?thesis
      using True Cons.prems(3) cs bucket_loop_shift [OF cs(2), of "a + c" 1] by (simp add: ac_simps)
  next
    case False
    then have "i = Suc (find_bucket v bs 0 (length bs))" using Cons.prems(3) by (simp add: find_bucket_shift)
    then show ?thesis
      using False Cons.IH [OF _ cs(2) refl, of "a + c"] Cons.prems(1) cs by simp
  qed
qed

definition observe_all :: "(real \<Rightarrow> real) \<Rightarrow> real list \<Rightarrow> histogram \<Rightarrow> histogram" where
  "observe_all rnd vs h = fold (observe rnd) vs h"

lemma observe_shape:
  "h_boundaries (observe rnd v h) = h_boundaries h" "length (h_buckets (observe rnd v h)) = length (h_buckets h)"
  "h_count (observe rnd v h) = h_count h + 1"
  by (simp_all add: observe_def Let_def)

lemma get_buckets_observe:
  assumes "sorted (h_boundaries h)" "length (h_buckets h) = length (h_boundaries h) + 1"
  shows "get_buckets (observe rnd v h) =
    map (\<lambda>(b, c). (b, c + (if b = None \<or> v \<le> the b then 1 else 0))) (get_buckets h)"
  using bucket_loop_observe [OF assms refl, of v 0] by (simp add: get_buckets_def observe_def Let_def)

text \<open>The observations counted at a boundary.\<close>

definition at_most :: "real option \<Rightarrow> real list \<Rightarrow> real list" where
  "at_most b vs = filter (\<lambda>v. b = None \<or> v \<le> the b) vs"

lemma get_buckets_all:
  assumes "sorted (h_boundaries h)" "length (h_buckets h) = length (h_boundaries h) + 1"
  shows "get_buckets (observe_all rnd vs h) = map (\<lambda>(b, c). (b, c + word_of_nat (length (at_most b vs)))) (get_buckets h) \<and>
    h_count (observe_all rnd vs h) = h_count h + word_of_nat (length vs)"
  using assms
proof (induction vs arbitrary: h)
  case Nil
  then show ?case by (simp add: observe_all_def at_most_def case_prod_beta)
next
  case (Cons v vs)
  have "get_buckets (observe_all rnd vs (observe rnd v h)) =
      map (\<lambda>(b, c). (b, c + word_of_nat (length (at_most b vs)))) (get_buckets (observe rnd v h)) \<and>
    h_count (observe_all rnd vs (observe rnd v h)) = h_count h + 1 + word_of_nat (length vs)"
    using Cons.IH [of "observe rnd v h"] Cons.prems by (simp add: observe_shape)
  then show ?case
    by (auto simp: observe_all_def get_buckets_observe [OF Cons.prems] at_most_def)
qed

lemma get_buckets_new:
  "get_buckets (with_buckets bs) = map (\<lambda>b. (Some b, 0)) bs @ [(None, 0)]"
proof -
  have "bucket_loop bs (replicate (length bs + 1) 0) 0 = map (\<lambda>b. (Some b, 0)) bs @ [(None, 0)]"
    by (induction bs) simp_all
  then show ?thesis by (simp add: get_buckets_def with_buckets_def)
qed

section \<open>The accounting of the registry\<close>

text \<open>The sum of a counter over all endpoints.\<close>

definition endpoint_sum :: "(endpoint_metrics \<Rightarrow> counter) \<Rightarrow> metrics_registry \<Rightarrow> counter" where
  "endpoint_sum f m = sum_list (map (f \<circ> snd) (endpoints m))"

lemma sum_list_insert:
  fixes f :: "'v \<Rightarrow> 'a :: len word"
  assumes "hm_ok es"
  shows "sum_list (map (f \<circ> snd) (hm_insert k v es)) =
    sum_list (map (f \<circ> snd) es) - (case hm_get es k of None \<Rightarrow> 0 | Some e \<Rightarrow> f e) + f v"
  using assms by (induction es) (auto simp: hm_ok_def map_of_eq_None_iff)

definition endpoint_ok :: "endpoint_metrics \<Rightarrow> bool" where
  "endpoint_ok e \<longleftrightarrow> requests_total e = requests_success e + requests_error e \<and> h_count (latency e) = requests_total e"

definition registry_ok :: "metrics_registry \<Rightarrow> bool" where
  "registry_ok m \<longleftrightarrow> hm_ok (endpoints m) \<and> (\<forall>(path, e) \<in> set (endpoints m). endpoint_ok e) \<and>
     total_requests m = endpoint_sum requests_total m \<and> total_errors m = endpoint_sum requests_error m"

lemma registry_ok_new: "registry_ok (registry_new now)"
  by (simp add: registry_ok_def registry_new_def endpoint_sum_def counter_new_def)

lemma endpoint_ok_of: "registry_ok m \<Longrightarrow> endpoint_ok (endpoint_of m path)"
  by (auto simp: registry_ok_def endpoint_of_def endpoint_ok_def endpoint_new_def counter_new_def histogram_new_def
      with_buckets_def hm_get_mem split: option.splits)

lemma sum_of_endpoint:
  "f endpoint_new = 0 \<Longrightarrow> (case hm_get (endpoints m) path of None \<Rightarrow> 0 | Some e \<Rightarrow> f e) = f (endpoint_of m path)"
  by (simp add: endpoint_of_def split: option.splits)

lemma registry_ok_insert:
  assumes "registry_ok m" "endpoint_ok e" "endpoints m' = hm_insert path e (endpoints m)"
    and "total_requests m' = total_requests m + (requests_total e - requests_total (endpoint_of m path))"
    and "total_errors m' = total_errors m + (requests_error e - requests_error (endpoint_of m path))"
  shows "registry_ok m'"
proof -
  have z: "requests_total endpoint_new = 0" "requests_error endpoint_new = 0"
    by (simp_all add: endpoint_new_def counter_new_def)
  have "endpoint_ok e'" if "(p, e') \<in> set (endpoints m')" for p e'
  proof -
    have "hm_get (hm_insert path e (endpoints m)) p = Some e'"
      using that assms(1,3) by (subst hm_get_mem) (simp_all add: registry_ok_def)
    then show ?thesis
      using assms(1,2) by (auto simp: registry_ok_def hm_get_mem split: if_splits)
  qed
  moreover have "hm_ok (endpoints m')" "hm_ok (endpoints m)" using assms(1,3) by (simp_all add: registry_ok_def)
  moreover have "total_requests m = endpoint_sum requests_total m" "total_errors m = endpoint_sum requests_error m"
    using assms(1) by (simp_all add: registry_ok_def)
  ultimately show ?thesis
    using assms(3-5) by (auto simp: registry_ok_def endpoint_sum_def sum_list_insert sum_of_endpoint z)
qed

lemma registry_ok_record:
  assumes "registry_ok m"
  shows "registry_ok (record_metrics rnd path d success m)"
proof -
  let ?e = "endpoint_of m path"
  let ?e' = "?e\<lparr>requests_total := requests_total ?e + 1,
    latency := observe rnd (rnd (as_secs_f64 rnd d * 1000)) (latency ?e)\<rparr>"
  let ?e'' = "if success then ?e'\<lparr>requests_success := requests_success ?e + 1\<rparr>
              else ?e'\<lparr>requests_error := requests_error ?e + 1\<rparr>"
  have "endpoint_ok ?e''"
    using endpoint_ok_of [OF assms, of path] by (simp add: endpoint_ok_def observe_shape)
  then show ?thesis
    by (rule registry_ok_insert [OF assms, where path = path])
      (simp_all add: record_metrics_def Let_def counter_inc_def)
qed

section \<open>Properties\<close>

text \<open>
  A histogram counts: after any observations the count at a boundary is the number of
  observations that do not exceed it, and the last one is the number of all of them, as
  \<open>count\<close> is, modulo \<open>2 ^ 64\<close>.
\<close>

theorem histogram_cumulative:
  assumes "sorted bs" and "h = observe_all rnd vs (with_buckets bs)"
  shows "get_buckets h = map (\<lambda>b. (Some b, word_of_nat (length (filter (\<lambda>v. v \<le> b) vs)))) bs @ [(None, word_of_nat (length vs))] \<and>
    h_count h = word_of_nat (length vs)"
proof -
  have "sorted (h_boundaries (with_buckets bs))" "length (h_buckets (with_buckets bs)) = length (h_boundaries (with_buckets bs)) + 1"
    using assms(1) by (simp_all add: with_buckets_def)
  from get_buckets_all [OF this, of rnd vs] show ?thesis
    unfolding assms(2) get_buckets_new by (simp add: at_most_def) (simp add: with_buckets_def)
qed

theorem histogram_cumulative_witness:
  "get_buckets (observe_all (\<lambda>x. x) [3, 700, 3] (with_buckets LATENCY_BUCKETS)) ! 1 = (Some 5, 2)"
proof -
  have "sorted LATENCY_BUCKETS" by (simp add: LATENCY_BUCKETS_def)
  from histogram_cumulative [OF this refl, of "\<lambda>x. x" "[3, 700, 3]"] show ?thesis
    by (simp add: LATENCY_BUCKETS_def)
qed

text \<open>
  C28. The registry adds up: whatever requests were recorded, the total of requests and the
  total of errors are the sums over the endpoints, and of every endpoint the requests are
  its successes and errors and the observations of its histogram, modulo \<open>2 ^ 64\<close>.
\<close>

theorem registry_adds_up:
  assumes "m = fold (\<lambda>(path, d, success). record_metrics rnd path d success) rs (registry_new now)"
  shows "total_requests m = endpoint_sum requests_total m \<and> total_errors m = endpoint_sum requests_error m \<and>
    (hm_get (endpoints m) path = Some e \<longrightarrow>
       requests_total e = requests_success e + requests_error e \<and> h_count (latency e) = requests_total e)"
proof -
  have "registry_ok m0 \<Longrightarrow> registry_ok (fold (\<lambda>(path, d, success). record_metrics rnd path d success) rs m0)" for m0
    by (induction rs arbitrary: m0) (auto simp: registry_ok_record)
  then have "registry_ok m" using assms registry_ok_new by blast
  then show ?thesis by (auto simp: registry_ok_def endpoint_ok_def hm_get_mem)
qed

theorem registry_adds_up_witness:
  "total_errors (record_metrics (\<lambda>x. x) ''/a'' 5 False (registry_new 0)) =
     endpoint_sum requests_error (record_metrics (\<lambda>x. x) ''/a'' 5 False (registry_new 0))"
proof -
  have "record_metrics (\<lambda>x. x) ''/a'' 5 False (registry_new 0) =
      fold (\<lambda>(path, d, success). record_metrics (\<lambda>x. x) path d success) [(''/a'', 5, False)] (registry_new 0)"
    by (simp only: fold_simps prod.case)
  from registry_adds_up [OF this] show ?thesis by (rule conjunct1 [OF conjunct2])
qed

end
