(* ===== verification/Tracing.thy ===== *)
theory Tracing
  imports Auth
begin

text \<open>
  \<open>src/src/common/tracing_middleware.rs\<close>: the middlewares that give every request an
  identifier and log it. The generated identifier, the address of the client, the duration
  in milliseconds and the rest of the stack are arguments; the log is what would be
  written. \<open>None\<close> is the panic of \<open>parse().unwrap()\<close> on an identifier that is not a header
  value.
\<close>

definition REQUEST_ID_HEADER :: string where "REQUEST_ID_HEADER = ''x-request-id''"

record mw_response =
  mr_status :: nat
  mr_headers :: "(string \<times> bytes) list"
  mr_body :: bytes

text \<open>\<open>HeaderValue::from_str\<close>\<close>

definition header_value :: "string \<Rightarrow> bytes option" where
  "header_value s = (if list_all (\<lambda>b. b = 9 \<or> (32 \<le> b \<and> b \<noteq> 127)) (as_bytes s) then Some (as_bytes s) else None)"

text \<open>\<open>HeaderMap::insert\<close> replaces every value of the name.\<close>

definition header_insert :: "string \<Rightarrow> bytes \<Rightarrow> (string \<times> bytes) list \<Rightarrow> (string \<times> bytes) list" where
  "header_insert name v hs = (name, v) # filter (\<lambda>(n, _). n \<noteq> name) hs"

definition request_id_of :: "string \<Rightarrow> http_request \<Rightarrow> string" where
  "request_id_of uuid rq = (case header_get rq REQUEST_ID_HEADER of Some s \<Rightarrow> s | None \<Rightarrow> uuid)"

definition request_id_middleware :: "string \<Rightarrow> (http_request \<Rightarrow> mw_response) \<Rightarrow> http_request \<Rightarrow> mw_response option" where
  "request_id_middleware uuid next rq =
     (let request_id = request_id_of uuid rq;
          response = next rq
      in map_option (\<lambda>v. response\<lparr>mr_headers := header_insert REQUEST_ID_HEADER v (mr_headers response)\<rparr>)
           (header_value request_id))"

datatype log_level = LogInfo | LogWarn

record log_line =
  ll_level :: log_level
  ll_request_id :: string
  ll_method :: string
  ll_path :: string
  ll_client_ip :: "string option"
  ll_status :: "(nat \<times> nat) option"
  ll_message :: string

definition completion_log :: "string \<Rightarrow> http_request \<Rightarrow> nat \<Rightarrow> nat \<Rightarrow> log_line" where
  "completion_log request_id rq duration_ms status =
     (let line = (\<lambda>level msg. \<lparr>ll_level = level, ll_request_id = request_id, ll_method = rq_method rq, ll_path = rq_path rq,
                    ll_client_ip = None, ll_status = Some (status, duration_ms), ll_message = msg\<rparr>)
      in if 200 \<le> status \<and> status < 300 then line LogInfo ''Request completed''
         else if 400 \<le> status \<and> status < 500 then line LogWarn ''Client error''
         else line LogWarn ''Server error'')"

definition request_tracing_middleware ::
  "string \<Rightarrow> string \<Rightarrow> nat \<Rightarrow> (http_request \<Rightarrow> mw_response) \<Rightarrow> http_request \<Rightarrow> (mw_response \<times> log_line list) option" where
  "request_tracing_middleware uuid client_ip duration_ms next rq =
     (let request_id = request_id_of uuid rq;
          started = \<lparr>ll_level = LogInfo, ll_request_id = request_id, ll_method = rq_method rq, ll_path = rq_path rq,
                     ll_client_ip = Some client_ip, ll_status = None, ll_message = ''Request started''\<rparr>;
          response = next rq;
          status = mr_status response
      in case header_value request_id of
           None \<Rightarrow> None
         | Some v \<Rightarrow>
             Some (response\<lparr>mr_headers := header_insert REQUEST_ID_HEADER v (mr_headers response)\<rparr>,
                   [started, completion_log request_id rq duration_ms status]))"

section \<open>Properties\<close>

lemma header_to_str_value: "header_to_str bs = Some s \<Longrightarrow> header_value s = Some bs"
  by (auto simp: header_to_str_def header_value_def list_all_iff split: if_splits)

lemma header_get_insert [simp]:
  "map_of (header_insert name v hs) n = (if n = name then Some v else map_of hs n)"
  by (induction hs) (auto simp: header_insert_def)

lemma request_id_value:
  assumes "header_value uuid = Some u"
  shows "header_value (request_id_of uuid rq) =
    (case map_of (rq_headers rq) REQUEST_ID_HEADER of
       Some b \<Rightarrow> if header_to_str b = None then Some u else Some b | None \<Rightarrow> Some u)"
proof (cases "map_of (rq_headers rq) REQUEST_ID_HEADER")
  case (Some b)
  then show ?thesis
    using assms by (cases "header_to_str b") (simp_all add: request_id_of_def header_get_def header_to_str_value)
qed (simp add: request_id_of_def header_get_def assms)

text \<open>
  Identifiers are passed through: if a generated identifier is a header value, neither
  middleware panics, both send the same response, its identifier is the one of the request
  when that is visible text and the generated one otherwise, its status, body and other
  headers are those of the handler, and both log lines carry it. The second line counts
  as a success only for the statuses 200 to 299, as a client error for 400 to 499 and as a
  server error for all others, redirects included.
\<close>

theorem request_id_echoed:
  assumes "header_value uuid = Some u"
  shows "\<exists>resp started done. request_tracing_middleware uuid ip ms next rq = Some (resp, [started, done]) \<and>
    request_id_middleware uuid next rq = Some resp \<and>
    map_of (mr_headers resp) REQUEST_ID_HEADER =
      (case map_of (rq_headers rq) REQUEST_ID_HEADER of
         Some b \<Rightarrow> if header_to_str b = None then Some u else Some b | None \<Rightarrow> Some u) \<and>
    mr_status resp = mr_status (next rq) \<and> mr_body resp = mr_body (next rq) \<and>
    (\<forall>n. n \<noteq> REQUEST_ID_HEADER \<longrightarrow> map_of (mr_headers resp) n = map_of (mr_headers (next rq)) n) \<and>
    header_value (ll_request_id started) = map_of (mr_headers resp) REQUEST_ID_HEADER \<and>
    ll_request_id done = ll_request_id started \<and>
    ll_message done = (if mr_status resp div 100 = 2 then ''Request completed''
                       else if mr_status resp div 100 = 4 then ''Client error'' else ''Server error'')"
proof -
  let ?v = "case map_of (rq_headers rq) REQUEST_ID_HEADER of
    Some b \<Rightarrow> if header_to_str b = None then Some u else Some b | None \<Rightarrow> Some u"
  have v: "header_value (request_id_of uuid rq) = ?v"
    by (rule request_id_value [OF assms])
  have "?v \<noteq> None" by (simp split: option.split)
  then obtain w where w: "?v = Some w" by blast
  have "(200 \<le> s \<and> s < 300) = (s div 100 = 2)" "(400 \<le> s \<and> s < 500) = (s div 100 = 4)" for s :: nat
    by linarith+
  then show ?thesis
    using v w by (simp add: request_tracing_middleware_def request_id_middleware_def completion_log_def Let_def)
qed

definition demo_traced :: http_request where
  "demo_traced = \<lparr>rq_method = ''GET'', rq_path = ''/k'', rq_headers = [(''x-request-id'', [97, 98])], rq_ext = None\<rparr>"

theorem request_id_echoed_witness:
  "\<exists>resp. request_id_middleware ''u-1'' (\<lambda>rq. \<lparr>mr_status = 307, mr_headers = [], mr_body = []\<rparr>) demo_traced = Some resp \<and>
     map_of (mr_headers resp) REQUEST_ID_HEADER = Some [97, 98]"
proof -
  have "header_value ''u-1'' = Some (as_bytes ''u-1'')" by (simp add: header_value_def as_bytes_def)
  moreover have "map_of (rq_headers demo_traced) REQUEST_ID_HEADER = Some [97, 98]" "header_to_str [97, 98] \<noteq> None"
    by (simp_all add: demo_traced_def REQUEST_ID_HEADER_def header_to_str_def)
  ultimately show ?thesis
    using request_id_echoed [of "''u-1''" "as_bytes ''u-1''" "''ip''" 3 "\<lambda>rq. \<lparr>mr_status = 307, mr_headers = [], mr_body = []\<rparr>" demo_traced]
    by auto
qed

end
