(* ===== verification/Encoding.thy ===== *)
theory Encoding
  imports BlobStore Floats
begin

text \<open>
  Helpers of \<open>src/src/common/utils.rs\<close> and \<open>src/src/common/hash.rs\<close>: percent-encoding of
  keys, sizes as text and the incremental hasher. The crate percent_encoding is given by
  two functions with their documented behaviour as hypotheses, the hasher of blake3 by a
  record with the law that it hashes what was fed to it; \<open>f64\<close> arithmetic and its text are
  those of \<open>Floats\<close>.
\<close>

section \<open>Percent-encoded keys\<close>

definition hex_upper :: "nat \<Rightarrow> char" where
  "hex_upper n = char_of (if n < 10 then 48 + n else 55 + n)"

definition hex_value :: "char \<Rightarrow> nat option" where
  "hex_value c =
     (let n = of_char c in
      if 48 \<le> n \<and> n \<le> 57 then Some (n - 48)
      else if 65 \<le> n \<and> n \<le> 70 then Some (n - 55)
      else if 97 \<le> n \<and> n \<le> 102 then Some (n - 87) else None)"

text \<open>The set \<open>CONTROLS\<close> with \<open>/\<close>, \<open>%\<close>, space, \<open>?\<close>, \<open>#\<close> and \<open>&\<close>.\<close>

definition KEY_ENCODE_SET :: "char \<Rightarrow> bool" where
  "KEY_ENCODE_SET c \<longleftrightarrow> (let n = of_char c :: nat in n < 32 \<or> n = 127) \<or>
     c \<in> {CHR ''/'', CHR ''%'', CHR '' '', CHR ''?'', CHR ''#'', CHR ''&''}"

text \<open>
  What the crate documents: encoding writes a byte of the set, and every byte beyond
  ASCII, as \<open>%\<close> and two hexadecimal digits; decoding replaces every \<open>%\<close> that two
  hexadecimal digits follow.
\<close>

definition pct_byte :: "(char \<Rightarrow> bool) \<Rightarrow> char \<Rightarrow> string" where
  "pct_byte S c =
     (let n = of_char c :: nat in
      if n \<ge> 128 \<or> S c then [CHR ''%'', hex_upper (n div 16), hex_upper (n mod 16)] else [c])"

fun pct_decoded :: "string \<Rightarrow> string" where
  "pct_decoded [] = []"
| "pct_decoded (c # d # e # r) =
     (if c = CHR ''%'' then
        (case (hex_value d, hex_value e) of
           (Some h, Some l) \<Rightarrow> char_of (16 * h + l) # pct_decoded r
         | _ \<Rightarrow> c # pct_decoded (d # e # r))
      else c # pct_decoded (d # e # r))"
| "pct_decoded (c # r) = c # pct_decoded r"

definition pct_laws :: "((char \<Rightarrow> bool) \<Rightarrow> string \<Rightarrow> string) \<Rightarrow> (string \<Rightarrow> bytes) \<Rightarrow> bool" where
  "pct_laws enc dec \<longleftrightarrow> (\<forall>S s. enc S s = concat (map (pct_byte S) s)) \<and> (\<forall>s. dec s = as_bytes (pct_decoded s))"

definition encode_key :: "((char \<Rightarrow> bool) \<Rightarrow> string \<Rightarrow> string) \<Rightarrow> string \<Rightarrow> string" where
  "encode_key enc key = enc KEY_ENCODE_SET key"

text \<open>\<open>utf8_error\<close> is the text of the error for bytes that are not UTF-8.\<close>

definition decode_key :: "(string \<Rightarrow> bytes) \<Rightarrow> (bytes \<Rightarrow> string) \<Rightarrow> string \<Rightarrow> string result" where
  "decode_key dec utf8_error encoded =
     (case from_utf8 (dec encoded) of
        Some s \<Rightarrow> Inr s
      | None \<Rightarrow> Inl (Other (''Failed to decode key: '' @ utf8_error (dec encoded))))"

section \<open>Sizes\<close>

definition UNITS :: "string list" where
  "UNITS = [''B'', ''KB'', ''MB'', ''GB'', ''TB'', ''PB'']"

function unit_loop :: "(real \<Rightarrow> real) \<Rightarrow> real \<Rightarrow> nat \<Rightarrow> real \<times> nat" where
  "unit_loop rnd sz idx =
     (if sz \<ge> 1024 \<and> idx < length UNITS - 1 then unit_loop rnd (rnd (sz / 1024)) (idx + 1) else (sz, idx))"
  by pat_completeness auto
termination
  by (relation "measure (\<lambda>(rnd, sz, idx). length UNITS - idx)") auto

declare unit_loop.simps [simp del]

text \<open>\<open>fmt2\<close> is the text of an \<open>f64\<close> with two decimals.\<close>

definition format_bytes :: "(real \<Rightarrow> real) \<Rightarrow> (real \<Rightarrow> string) \<Rightarrow> u64 \<Rightarrow> string" where
  "format_bytes rnd fmt2 n =
     (case unit_loop rnd (rnd (real (unat n))) 0 of (sz, unit_idx) \<Rightarrow> fmt2 sz @ '' '' @ UNITS ! unit_idx)"

section \<open>The incremental hasher\<close>

record 'h hasher_ext =
  hx_new :: 'h
  hx_update :: "'h \<Rightarrow> bytes \<Rightarrow> 'h"
  hx_finalize :: "'h \<Rightarrow> bytes"

text \<open>A hasher digests the bytes fed to it since it was created.\<close>

definition hasher_laws :: "'h hasher_ext \<Rightarrow> ('h \<Rightarrow> bytes) \<Rightarrow> (bytes \<Rightarrow> bytes) \<Rightarrow> bool" where
  "hasher_laws x fed digest \<longleftrightarrow> fed (hx_new x) = [] \<and> (\<forall>h d. fed (hx_update x h d) = fed h @ d) \<and>
     (\<forall>h. hx_finalize x h = digest (fed h))"

record 'h blake3_hasher = bh_hasher :: 'h

definition hasher_new :: "'h hasher_ext \<Rightarrow> 'h blake3_hasher" where
  "hasher_new x = \<lparr>bh_hasher = hx_new x\<rparr>"

definition hasher_update :: "'h hasher_ext \<Rightarrow> bytes \<Rightarrow> 'h blake3_hasher \<Rightarrow> 'h blake3_hasher" where
  "hasher_update x d h = h\<lparr>bh_hasher := hx_update x (bh_hasher h) d\<rparr>"

definition hasher_finalize :: "'h hasher_ext \<Rightarrow> (bytes \<Rightarrow> string) \<Rightarrow> 'h blake3_hasher \<Rightarrow> string" where
  "hasher_finalize x display h = display (hx_finalize x (bh_hasher h))"

section \<open>Round trip of keys\<close>

lemma of_char_less: "(of_char c :: nat) < 256"
  by (metis mod_less_divisor of_char_mod_256 zero_less_numeral)

lemma hex_value_upper: "n < 16 \<Longrightarrow> hex_value (hex_upper n) = Some n"
  by (auto simp: hex_value_def hex_upper_def Let_def)

lemma char_of_parts: "char_of (16 * (of_char c div 16) + of_char c mod (16 :: nat)) = (c :: char)"
  by simp

lemma pct_decoded_plain: "c \<noteq> CHR ''%'' \<Longrightarrow> pct_decoded (c # r) = c # pct_decoded r"
  by (cases r rule: list.exhaust; cases "tl r") auto

lemma pct_decoded_byte:
  assumes "S (CHR ''%'')"
  shows "pct_decoded (pct_byte S c @ r) = c # pct_decoded r"
proof (cases "(of_char c :: nat) \<ge> 128 \<or> S c")
  case True
  have "(of_char c :: nat) div 16 < 16" using of_char_less [of c] by linarith
  then show ?thesis
    using True by (simp add: pct_byte_def Let_def hex_value_upper)
next
  case False
  then have "c \<noteq> CHR ''%''" using assms by auto
  then show ?thesis using False by (simp add: pct_byte_def Let_def pct_decoded_plain)
qed

lemma pct_decoded_encoded: "S (CHR ''%'') \<Longrightarrow> pct_decoded (concat (map (pct_byte S) s)) = s"
  by (induction s) (simp_all add: pct_decoded_byte)

lemma key_encode_codes: "KEY_ENCODE_SET c \<Longrightarrow> (of_char c :: nat) < 48 \<or> of_char c = (63 :: nat) \<or> of_char c = (127 :: nat)"
  by (auto simp: KEY_ENCODE_SET_def)

lemma hex_upper_safe:
  assumes "n < 16"
  shows "\<not> KEY_ENCODE_SET (hex_upper n) \<and> of_char (hex_upper n) < (128 :: nat)"
proof -
  have "of_char (hex_upper n) = (if n < 10 then 48 + n else 55 + n)"
    using assms by (simp add: hex_upper_def)
  then show ?thesis using assms key_encode_codes [of "hex_upper n"] by (auto split: if_splits)
qed

lemma pct_byte_safe:
  "d \<in> set (pct_byte KEY_ENCODE_SET c) \<Longrightarrow> (d = CHR ''%'' \<or> \<not> KEY_ENCODE_SET d) \<and> of_char d < (128 :: nat)"
proof (cases "(of_char c :: nat) \<ge> 128 \<or> KEY_ENCODE_SET c")
  case True
  assume d: "d \<in> set (pct_byte KEY_ENCODE_SET c)"
  have "(of_char c :: nat) div 16 < 16" "(of_char c :: nat) mod 16 < 16" using of_char_less [of c] by linarith+
  then show ?thesis
    using True d hex_upper_safe by (auto simp: pct_byte_def Let_def)
next
  case False
  assume "d \<in> set (pct_byte KEY_ENCODE_SET c)"
  then show ?thesis using False by (auto simp: pct_byte_def Let_def)
qed

text \<open>
  Keys survive encoding: decoding an encoded key gives the key back, so different keys
  have different encodings, and an encoded key is plain ASCII without a slash, a space, a
  question mark, a hash, an ampersand or a control character.
\<close>

theorem encode_key_roundtrip:
  assumes "pct_laws enc dec" and "rust_string key"
  shows "decode_key dec utf8_error (encode_key enc key) = Inr key \<and>
    (\<forall>c \<in> set (encode_key enc key). of_char c < (128 :: nat) \<and> (c = CHR ''%'' \<or> \<not> KEY_ENCODE_SET c))"
proof
  have e: "encode_key enc key = concat (map (pct_byte KEY_ENCODE_SET) key)"
    using assms(1) by (simp add: pct_laws_def encode_key_def)
  have "pct_decoded (encode_key enc key) = key"
    unfolding e by (rule pct_decoded_encoded) (simp add: KEY_ENCODE_SET_def)
  then have "dec (encode_key enc key) = as_bytes key" using assms(1) by (simp add: pct_laws_def)
  then show "decode_key dec utf8_error (encode_key enc key) = Inr key"
    using assms(2) by (simp add: decode_key_def from_utf8_def rust_string_def)
  show "\<forall>c \<in> set (encode_key enc key). of_char c < (128 :: nat) \<and> (c = CHR ''%'' \<or> \<not> KEY_ENCODE_SET c)"
    unfolding e using pct_byte_safe by auto
qed

theorem encode_key_roundtrip_witness:
  "decode_key (\<lambda>s. as_bytes (pct_decoded s)) (\<lambda>b. []) (encode_key (\<lambda>S s. concat (map (pct_byte S) s)) ''a/b%2F c'') = Inr ''a/b%2F c''"
  using encode_key_roundtrip [of "\<lambda>S s. concat (map (pct_byte S) s)" "\<lambda>s. as_bytes (pct_decoded s)" "''a/b%2F c''" "\<lambda>b. []"]
  by (simp add: pct_laws_def string_eval)

section \<open>Units\<close>

text \<open>The number of divisions by 1024 that the loop makes for a size.\<close>

definition unit_of :: "nat \<Rightarrow> nat" where
  "unit_of n = (if n < 1024 then 0 else if n < 1024 ^ 2 then 1 else if n < 1024 ^ 3 then 2 else if n < 1024 ^ 4 then 3
     else if n < 1024 ^ 5 then 4 else 5)"

lemma length_UNITS [simp]: "length UNITS = 6"
  by (simp add: UNITS_def)

lemma unit_loop_stop: "sz < 1024 \<or> 5 \<le> idx \<Longrightarrow> unit_loop rnd sz idx = (sz, idx)"
  by (subst unit_loop.simps) auto

lemma unit_loop_next: "1024 \<le> sz \<Longrightarrow> idx < 5 \<Longrightarrow> unit_loop rnd sz idx = unit_loop rnd (rnd (sz / 1024)) (Suc idx)"
  by (subst unit_loop.simps) auto

lemma unit_loop_exact:
  assumes "rnd_laws rnd" "n \<le> 2 ^ 53" "k \<le> 5" "u \<le> 5" "k \<le> u"
    and "\<forall>j. k \<le> j \<and> j < u \<longrightarrow> 1024 ^ Suc j \<le> n" and "u < 5 \<longrightarrow> n < 1024 ^ Suc u"
  shows "unit_loop rnd (real n / 1024 ^ k) k = (real n / 1024 ^ u, u)"
  using assms(3-7)
proof (induction "u - k" arbitrary: k)
  case 0
  then have "k = u" by simp
  moreover have "real n / 1024 ^ u < 1024" if "u < 5"
  proof -
    have "real n < real (1024 ^ Suc u)" using 0 that of_nat_less_iff by blast
    then show ?thesis by (simp add: divide_less_eq)
  qed
  ultimately show ?case by (intro trans [OF unit_loop_stop]) (use 0 in auto)
next
  case (Suc d)
  then have k: "k < u" "k < 5" by auto
  have "1024 ^ Suc k \<le> n" using Suc.prems(4) k by blast
  then have "real (1024 ^ Suc k) \<le> real n" using of_nat_le_iff by blast
  then have "1024 \<le> real n / 1024 ^ k" by (simp add: le_divide_eq)
  then have "unit_loop rnd (real n / 1024 ^ k) k = unit_loop rnd (rnd (real n / 1024 ^ k / 1024)) (Suc k)"
    by (rule unit_loop_next) (rule k)
  also have "rnd (real n / 1024 ^ k / 1024) = real n / 1024 ^ Suc k"
    using rnd_scale [OF assms(1,2), of "Suc k"] k by (simp add: mult.commute)
  also have "unit_loop rnd (real n / 1024 ^ Suc k) (Suc k) = (real n / 1024 ^ u, u)"
    using Suc k by (intro Suc.hyps(1)) auto
  finally show ?case .
qed

lemma unit_of_le:
  assumes "j < unit_of n"
  shows "1024 ^ Suc j \<le> n"
proof -
  have "(1024 :: nat) ^ Suc j \<le> 1024 ^ unit_of n" using assms by (intro power_increasing) simp_all
  also have "\<dots> \<le> n" using assms by (simp add: unit_of_def split: if_splits)
  finally show ?thesis .
qed

lemma unit_of_bounds: "unit_of n \<le> 5" "unit_of n < 5 \<Longrightarrow> n < 1024 ^ Suc (unit_of n)"
  by (simp_all add: unit_of_def split: if_splits)

text \<open>
  Sizes below \<open>2 ^ 53\<close> bytes are printed exactly scaled: the number shown is the size
  divided by the largest unit that does not exceed it, petabytes being the last, whatever
  the rounding of the arithmetic.
\<close>

theorem format_bytes_unit:
  assumes "rnd_laws rnd" and "unat n \<le> 2 ^ 53"
  shows "format_bytes rnd fmt2 n = fmt2 (real (unat n) / 1024 ^ unit_of (unat n)) @ '' '' @ UNITS ! unit_of (unat n)"
proof -
  have "unit_loop rnd (real (unat n) / 1024 ^ 0) 0 = (real (unat n) / 1024 ^ unit_of (unat n), unit_of (unat n))"
  proof (rule unit_loop_exact [OF assms])
    show "\<forall>j. 0 \<le> j \<and> j < unit_of (unat n) \<longrightarrow> 1024 ^ Suc j \<le> unat n"
      using unit_of_le by blast
    show "unit_of (unat n) < 5 \<longrightarrow> unat n < 1024 ^ Suc (unit_of (unat n))"
      using unit_of_bounds(2) by blast
  qed (simp_all add: unit_of_bounds(1))
  then show ?thesis using rnd_nat [OF assms] by (simp add: format_bytes_def)
qed

theorem format_bytes_unit_witness:
  "format_bytes (\<lambda>x. x) (\<lambda>x. if x = 3 / 2 then ''1.50'' else []) 1536 = ''1.50 KB''"
  using format_bytes_unit [OF rnd_laws_exact, of 1536 "\<lambda>x. if x = 3 / 2 then ''1.50'' else []"]
  by (simp add: unit_of_def UNITS_def)

text \<open>
  Hashing in pieces: the incremental hasher gives the hash of the pieces put together,
  however the data was cut.
\<close>

theorem hasher_incremental:
  assumes "hasher_laws x fed (blake3_digest E)"
  shows "hasher_finalize x (hash_display E) (fold (hasher_update x) chunks (hasher_new x)) = blake3_hash E (concat chunks)"
proof -
  have "fed (bh_hasher (fold (hasher_update x) chunks h)) = fed (bh_hasher h) @ concat chunks" for h
    using assms by (induction chunks arbitrary: h) (simp_all add: hasher_update_def hasher_laws_def)
  then show ?thesis
    using assms by (simp add: hasher_finalize_def hasher_new_def hasher_laws_def blake3_hash_def)
qed

theorem hasher_incremental_witness:
  "hasher_finalize \<lparr>hx_new = [], hx_update = (@), hx_finalize = blake3_digest demo_ext\<rparr> (hash_display demo_ext)
     (fold (hasher_update \<lparr>hx_new = [], hx_update = (@), hx_finalize = blake3_digest demo_ext\<rparr>) [[1], [2, 3]]
       (hasher_new \<lparr>hx_new = [], hx_update = (@), hx_finalize = blake3_digest demo_ext\<rparr>)) = blake3_hash demo_ext [1, 2, 3]"
  using hasher_incremental [of "\<lparr>hx_new = [], hx_update = (@), hx_finalize = blake3_digest demo_ext\<rparr>" "\<lambda>h. h" demo_ext "[[1], [2, 3]]"]
  by (simp add: hasher_laws_def)

end
