(* ===== verification/Spec2Isabelle.thy ===== *)
theory Spec2Isabelle
  imports VolumeService RaftRpc RaftLocks TableLocks CoordRun Cli AuditLog DbStorage Quota Encryption RateLimit
    Metrics Tracing Encoding
begin

text \<open>
  minikv is a distributed key-value store written in Rust. A \<^emph>\<open>volume\<close> keeps blobs on
  disk; a \<^emph>\<open>coordinator\<close> keeps metadata, places replicas, takes part in Raft and serves
  the HTTP and gRPC interfaces; a library of common parts holds hashing, quotas,
  authentication and encryption. This development models these parts from their
  sources under \<open>src/src/\<close> and proves what each of them promises, and where the code
  behaves otherwise, what it does instead.

  \<^bold>\<open>How code is translated.\<close> A struct is a record, an enum a datatype, a method a function
  that takes the state and returns the new one. \<open>Result<T, E>\<close> is \<open>'e + 'a\<close> with
  \<open>rbind\<close> for the \<open>?\<close> operator; every error branch of the sources is a branch of the
  model. Integers are words of their width and wrap as in a release build. A string is
  its UTF-8 bytes. A \<open>HashMap\<close> is an association list with distinct keys, whose order
  stands for the arbitrary order of iteration. The clock and random numbers are
  arguments. A panic, or a loop that does not end, is \<open>None\<close>. Crates are parameters: a
  record of the functions the sources call, and a predicate with the documented
  behaviour the code relies on (\<open>bloom_laws\<close>, \<open>auth_laws\<close>, \<open>enc_laws\<close>,
  \<open>meta_laws\<close>, \<open>db_laws\<close>, \<open>axum_laws\<close>, \<open>pct_laws\<close>, \<open>hasher_laws\<close>), for which an instance is given and
  used in the witnesses. An \<open>f64\<close> is a real number, and every operation is followed by a
  rounding function of which only \<open>rnd_laws\<close> is assumed.

  \<^bold>\<open>The volume.\<close>
  \<^item> \<open>Wal\<close> (\<open>volume/wal.rs\<close>): the write-ahead log with its buffered writer, and what is
    left of it after a crash. Records are read back as written, replay after a crash
    delivers a prefix of the operations and under the policy \<open>Always\<close> all of them,
    reopening resumes the sequence numbers, and records behind a torn tail are lost,
    wherever the tail was cut off.
  \<^item> \<open>VolIndex\<close> (\<open>volume/index.rs\<close>): the index with expiry times and its snapshot format.
    Snapshots round-trip, every proper prefix is refused, cleaning up is invisible.
  \<^item> \<open>KvSpec\<close>: the abstract map with expiry times, and the locale \<open>kv_engine\<close> of engines
    that simulate it. What the map holds for a key is what reading its record answers.
  \<^item> \<open>BlobStore\<close> (\<open>volume/blob.rs\<close>): the engine over a directory tree. It is an
    interpretation of \<open>kv_engine\<close>, so every run of puts, gets, deletes and cleanups is a
    run of the abstract map, whose contents are the values that were put, and for compressed
    ones what the decoder makes of their records: it is handed the size prefix as data.
    Compaction never succeeds.
  \<^item> \<open>BlobRecovery\<close> (\<open>BlobStore::open\<close> and what it calls): what a restart restores from
    segments and from a snapshot, and how damaged segments stop it. The scan of a segment
    is a partial function; that it returns is part of what is proved, and one damaged
    length makes it run forever.
  \<^item> \<open>VolumeService\<close> (\<open>volume/grpc.rs\<close>, \<open>volume/server.rs\<close>, \<open>volume/http.rs\<close>,
    \<open>volume/compaction.rs\<close>, \<open>coordinator/volume_client.rs\<close>): the service over the engine. Any
    requests only delete keys; a commit stores nothing; volumes in sibling directories
    share one log.

  \<^bold>\<open>The coordinator.\<close>
  \<^item> \<open>Raft\<close> (\<open>coordinator/raft_node.rs\<close>, \<open>common/raft.rs\<close>, the Raft methods of
    \<open>coordinator/grpc.rs\<close>): one node. \<open>node_run\<close> are its runs as a step relation; a node
    that loses no election votes once per term; what replication does on every branch. The
    majority of the code is one only for odd clusters, and nothing delivers a request to
    \<open>handle_request_vote\<close>: the gRPC service answers by itself.
  \<^item> \<open>RaftTimer\<close> (\<open>start_raft_tasks\<close> and the timers of \<open>coordinator/raft_node.rs\<close>) and
    \<open>RaftRpc\<close> (\<open>coordinator/raft_rpc_client.rs\<close>, the conversions of \<open>common/raft.rs\<close>): the
    election timer takes no notice of heartbeats; calls over the wire are calls of the
    handlers; how an election through the client and the service ends.
  \<^item> \<open>Config\<close> (\<open>common/config.rs\<close>, the merge in \<open>bin/coord.rs\<close>) and \<open>CoordServer\<close>
    (\<open>coordinator/server.rs\<close>): which configuration a coordinator starts with, and that
    neither its peers nor its certificates are used, so every coordinator leads alone;
    how starting can fail and with which status the process exits.
  \<^item> \<open>CoordRun\<close>: all handlers of a coordinator that change its state and the rounds of its
    Raft task as one step relation, from the state \<open>serve\<close> makes. The properties at the
    end of this theory follow from what each step leaves alone: what is read of an object
    after any requests, and that the gRPC service never gets the store it works on.
  \<^item> \<open>Hash\<close> (\<open>common/hash.rs\<close>): sharding, ranking by highest random weight and the shard
    table. The locale \<open>node_ranking\<close> gives the stability of placement.
  \<^item> \<open>Utils\<close> (\<open>common/utils.rs\<close>), \<open>Metadata\<close> (\<open>coordinator/metadata.rs\<close>) and
    \<open>Placement\<close> (\<open>coordinator/placement.rs\<close>): retries end and what they return, reading of
    durations, the metadata store, the selection of volumes.
  \<^item> \<open>Storage\<close> (\<open>common/storage.rs\<close>) and \<open>Http\<close> (\<open>coordinator/http.rs\<close>,
    \<open>common/audit.rs\<close>, the data methods of \<open>coordinator/grpc.rs\<close>): the trait \<open>KVStore\<close> is
    the locale \<open>kv_store\<close>; transactions, objects, ranges and batches are characterised
    exactly, batches as operations on the map of keys to metadata. \<open>AuditLog\<close> is the logger behind the entries the
    handlers write: its file is their trail. \<open>DbStorage\<close> holds the persistent backends and
    the storage over any backend; the locale \<open>partial_store\<close>, which every \<open>kv_store\<close> is by a
    sublocale, shows that all of them store as the in-memory one does.
  \<^item> \<open>Ops\<close> (\<open>ops/\<close>, the maintenance and watch handlers of \<open>coordinator/http.rs\<close>),
    \<open>HttpRouter\<close> (\<open>create_router\<close>) and \<open>Cli\<close> (\<open>bin/cli.rs\<close>): when streaming ends, when a
    subscriber is dropped, which keys their path reaches, and what the client's commands
    do when they go through the router to the handlers. A path is matched as it was sent,
    its captures are decoded.

  \<^bold>\<open>Common parts.\<close>
  \<^item> \<open>Prelude\<close> and \<open>Errors\<close> (\<open>common/error.rs\<close>): the shared types and lemmas, the error
    type and its conversions.
  \<^item> \<open>Quota\<close> (\<open>common/quota.rs\<close>): limits hold under checked additions, the rate limiter is
    a sliding window, and the storage check wraps.
  \<^item> \<open>Auth\<close> (\<open>common/auth.rs\<close>, \<open>common/auth_middleware.rs\<close>): validation as a lookup,
    finality of revocation, tokens, and what the middlewares let through.
  \<^item> \<open>Encryption\<close> (\<open>common/encryption.rs\<close>): round trip and what decryption accepts.
  \<^item> \<open>Floats\<close>, \<open>RateLimit\<close> (\<open>common/ratelimit.rs\<close>) and \<open>Metrics\<close> (\<open>common/metrics.rs\<close>): the
    token buckets stay within their bounds and admit bursts exactly, whatever the rounding;
    histograms count, and the totals of the registry are the sums over its endpoints.
  \<^item> \<open>Locks\<close>, \<open>RaftLocks\<close> (the mutexes of \<open>coordinator/raft_node.rs\<close>) and \<open>TableLocks\<close> (the
    reader-writer locks of \<open>common/quota.rs\<close> and \<open>common/auth.rs\<close>): threads that call methods
    at the same time, of which only the lock operations are kept. The locale \<open>lock_order\<close>
    gives freedom from deadlock for methods that share an order of the locks; its
    interpretations together with schedules that do deadlock tell exactly which methods
    can block each other. The key store never deadlocks.
  \<^item> \<open>Encoding\<close> (percent-encoding and sizes of \<open>common/utils.rs\<close>, the incremental hasher of
    \<open>common/hash.rs\<close>) and \<open>Tracing\<close> (\<open>common/tracing_middleware.rs\<close>): round trip of keys,
    hashing in pieces, identifiers passed through.

  \<^bold>\<open>Bounds.\<close> There is no fuel. Loops whose recursion is not structural are functions with
  a termination proof (\<open>retry_loop\<close>, \<open>apply_loop\<close>, \<open>unit_loop\<close>) or partial functions
  (\<open>scan_loop\<close>, \<open>stream_loop\<close>), and that they return is part of what is proved. The endless
  loop of the Raft task is given by its round. Where a theorem bounds a length (keys and
  values of a log record, entries of a snapshot, bytes of a segment), the bound is the
  range of the length field in the format or the size of the first segment; request bodies
  are bounded by axum's limit.

  \<^bold>\<open>Not modelled.\<close> Reading configuration sources, parsing command lines, binding sockets and
  running servers are calls of crates, whose results are arguments. The module files hold
  declarations. Effects and concurrency are modelled apart: the handlers and the rounds of the
  Raft task in any order, and the order of lock operations of threads in \<open>Locks\<close>; but the
  handlers of the HTTP and gRPC services take effect one at a time, although a batch or a transaction of the sources locks the storage for each of its
  operations separately. Memory is unbounded, so a length field that asks for a buffer
  larger than the file ends in an error of the read and not in a failed allocation.
\<close>

section \<open>Properties of a running coordinator\<close>

text \<open>
  C5. What a coordinator answers for objects: after any requests to any endpoints, in any
  order and interleaved with the rounds of the Raft task, reading an object gives the value
  of the last object, import entry or transaction that wrote its path since the process
  started, and 404 if there was none or it was a deletion. No other endpoint has any
  influence on it, and nothing is left of an earlier process. This holds for every
  configuration: no setting makes objects durable.
\<close>

theorem coordinator_objects_exact:
  assumes "serve_state x co = Inr st" and "coord_run ax x st ws st'"
  shows "s3_get_object bucket key st' =
    (case last_write (bucket @ ''/'' @ key) ws None of
       Some d \<Rightarrow> \<lparr>rs_status = 200, rs_body = BRaw d\<rparr>
     | None \<Rightarrow> \<lparr>rs_status = 404, rs_body = BRaw (as_bytes (''S3 object '' @ bucket @ ''/'' @ key @ '' not found''))\<rparr>)"
  using coord_run_storage [OF assms(2)] started_state(1) [OF assms(1)] by (simp add: s3_get_object_def)

theorem coordinator_objects_exact_witness:
  "\<exists>st st'. serve_state demo_meta (serve_command (serve_args_default ''a'') demo_file) = Inr st \<and>
     coord_run demo_auth demo_meta st [WPut ''b/k'' [1], WDelete ''b/l''] st' \<and>
     s3_get_object ''b'' ''k'' st' = \<lparr>rs_status = 200, rs_body = BRaw [1]\<rparr>"
proof -
  obtain st where st: "serve_state demo_meta (serve_command (serve_args_default ''a'') demo_file) = Inr st"
    by (auto simp: serve_state_def meta_open_def demo_meta_def res_simps)
  let ?ops = "[\<lparr>tx_op = ''delete'', tx_key = ''b/l'', tx_value = None\<rparr>]"
  have "coord_run demo_auth demo_meta st (([] @ [WPut (''b'' @ ''/'' @ ''k'') [1]]) @ List.map_filter tx_write ?ops)
      (snd (transaction_ops ?ops (snd (s3_put_object demo_meta id ''b'' ''k'' [] [1] st))))"
    by (rule run_step [OF run_step [OF run_start do_put_object] do_transaction])
  then have run: "coord_run demo_auth demo_meta st [WPut ''b/k'' [1], WDelete ''b/l'']
      (snd (transaction_ops ?ops (snd (s3_put_object demo_meta id ''b'' ''k'' [] [1] st))))"
    by (simp add: map_filter_simps tx_write_def)
  show ?thesis
    using st run coordinator_objects_exact [OF st run, of "''b''" "''k''"] by (auto simp: last_write_def)
qed

text \<open>
  C19. The data methods of the gRPC service never answer: the store they work on is
  initialised nowhere, so from the start of a coordinator on, whatever requests it has
  handled, a range query and a batch over gRPC panic.
\<close>

theorem grpc_data_always_panics:
  assumes "serve_state x co = Inr st" and "coord_run ax x st ws st'"
  shows "grpc_range to_string x a b include_values st' = None \<and> grpc_batch to_string x ops st' = None"
  using coord_run_global [OF assms(2) started_state(2) [OF assms(1)]]
  by (simp add: grpc_range_def grpc_batch_def get_global_store_def)

theorem grpc_data_always_panics_witness:
  "\<exists>st. serve_state demo_meta (serve_command (serve_args_default ''a'') demo_file) = Inr st \<and>
     grpc_batch (\<lambda>_. []) demo_meta [\<lparr>gb_type = 0, gb_key = ''k'', gb_value = [7]\<rparr>] (snd (http_delete_key ''k'' st)) = None"
proof -
  obtain st where st: "serve_state demo_meta (serve_command (serve_args_default ''a'') demo_file) = Inr st"
    by (auto simp: serve_state_def meta_open_def demo_meta_def res_simps)
  have run: "coord_run demo_auth demo_meta st ([] @ []) (snd (http_delete_key ''k'' st))"
    by (rule run_step [OF run_start do_delete_key])
  show ?thesis using st grpc_data_always_panics [OF st run] by blast
qed

end
